(* ===== verification/Hc_Prelude.thy ===== *)
theory Hc_Prelude
  imports Main "HOL-Library.Word" "HOL-Library.Monad_Syntax"
begin

unbundle bit_operations_syntax

text \<open>
  The vocabulary every component of the model shares: the machine types of the C++ code,
  the byte strings its pointers range over, the memory cells of its heap blocks, and the
  lemmas on lists and words that the component theories rest on.

  A pointer into a byte array is modelled by the list of the bytes from it to the end of
  its array, so an access out of the array is visible as an access out of the list; an
  operation that would make one returns \<open>None\<close>.
\<close>

type_synonym byte = "8 word"
type_synonym u16 = "16 word"
type_synonym u32 = "32 word"
type_synonym u64 = "64 word"

text \<open>A cell of freshly allocated memory is indeterminate until it is written.\<close>

type_synonym cell = "byte option"

named_theorems cpp_arith \<open>unfolding of the unsigned 32-bit arithmetic of the code\<close>

subsection \<open>Unsigned 32-bit arithmetic on sizes and positions\<close>

definition uadd :: "nat \<Rightarrow> nat \<Rightarrow> nat" where
  "uadd a b = (a + b) mod 2 ^ 32"

definition usub :: "nat \<Rightarrow> nat \<Rightarrow> nat" where
  "usub a b = (a + 2 ^ 32 - b mod 2 ^ 32) mod 2 ^ 32"

definition umul :: "nat \<Rightarrow> nat \<Rightarrow> nat" where
  "umul a b = (a * b) mod 2 ^ 32"

lemma uadd_small [cpp_arith]: "a + b < 2 ^ 32 \<Longrightarrow> uadd a b = a + b"
  by (simp add: uadd_def)

lemma umul_small [cpp_arith]: "a * b < 2 ^ 32 \<Longrightarrow> umul a b = a * b"
  by (simp add: umul_def)

lemma usub_small [cpp_arith]: "b \<le> a \<Longrightarrow> a < 2 ^ 32 \<Longrightarrow> usub a b = a - b"
proof -
  assume le: "b \<le> a" and lt: "a < 2 ^ 32"
  then have b: "b mod 2 ^ 32 = b" by simp
  have "a + 2 ^ 32 - b = (a - b) + 2 ^ 32" using le by simp
  moreover have "((a - b) + 2 ^ 32) mod 2 ^ 32 = a - b" using lt by simp
  ultimately show ?thesis unfolding usub_def b by metis
qed

subsection \<open>Blocks of memory\<close>

text \<open>\<open>memcpy\<close> of a run of cells into a block, at an offset.\<close>

definition blit :: "'a list \<Rightarrow> nat \<Rightarrow> 'a list \<Rightarrow> 'a list" where
  "blit xs i ys = take i xs @ ys @ drop (i + length ys) xs"

lemma length_blit [simp]: "i + length ys \<le> length xs \<Longrightarrow> length (blit xs i ys) = length xs"
  by (simp add: blit_def)

lemma take_blit_end:
  "i + length ys \<le> length xs \<Longrightarrow> take (i + length ys) (blit xs i ys) = take i xs @ ys"
  by (simp add: blit_def)

lemma take_blit_before [simp]:
  "j \<le> i \<Longrightarrow> i \<le> length xs \<Longrightarrow> take j (blit xs i ys) = take j xs"
  by (simp add: blit_def min_def)

lemma drop_blit_end [simp]:
  "i + length ys \<le> length xs \<Longrightarrow> drop (i + length ys) (blit xs i ys) = drop (i + length ys) xs"
  by (simp add: blit_def)

lemma blit_Nil [simp]: "blit xs i [] = xs"
  by (simp add: blit_def)

lemma nth_blit:
  assumes "i + length ys \<le> length xs" "k < length xs"
  shows "blit xs i ys ! k = (if k < i then xs ! k else if k < i + length ys then ys ! (k - i) else xs ! k)"
proof -
  have "i \<le> length xs" using assms by simp
  then show ?thesis using assms
    by (auto simp: blit_def nth_append min_def)
qed

lemma take_blit_grow:
  assumes "i \<le> l" "l \<le> length xs" "i + length ys \<le> length xs"
  shows "take (if i + length ys > l then i + length ys else l) (blit xs i ys) = blit (take l xs) i ys"
proof (cases "i + length ys > l")
  case True
  with assms show ?thesis by (simp add: blit_def min_def)
next
  case False
  with assms show ?thesis by (cases "l = i") (simp_all add: blit_def min_def drop_take)
qed

lemma drop_blit_shift:
  assumes "r + i \<le> length xs"
  shows "drop r (blit xs (r + i) ys) = blit (drop r xs) i ys"
proof -
  have "drop r (take (r + i) xs) = take i (drop r xs)" by (simp add: drop_take)
  moreover have "drop (r + i + length ys) xs = drop (i + length ys) (drop r xs)"
    by (simp add: add.commute add.left_commute)
  ultimately show ?thesis using assms by (simp add: blit_def)
qed

text \<open>A C string ends at its first zero byte.\<close>

definition c_str :: "byte list \<Rightarrow> byte list" where
  "c_str s = takeWhile (\<lambda>c. c \<noteq> 0) s"

lemma c_str_id [simp]: "0 \<notin> set s \<Longrightarrow> c_str s = s"
  by (simp add: c_str_def takeWhile_eq_all_conv) metis

lemma zero_notin_c_str [simp]: "0 \<notin> set (c_str s)"
  by (auto simp: c_str_def dest: set_takeWhileD)

lemma length_c_str_le: "length (c_str s) \<le> length s"
  by (simp add: c_str_def length_takeWhile_le)

lemma c_str_c_str [simp]: "c_str (c_str s) = c_str s"
  by simp

subsection \<open>Unordered maps\<close>

text \<open>
  An \<open>unordered_map\<close> is the list of its entries in the order in which iterating it visits them.
  C++ leaves that order open; no theorem depends on where a new entry goes.
\<close>

fun umap_set :: "'k \<Rightarrow> 'v \<Rightarrow> ('k \<times> 'v) list \<Rightarrow> ('k \<times> 'v) list" where
  "umap_set k v [] = [(k, v)]"
| "umap_set k v ((k', v') # m) = (if k' = k then (k', v) # m else (k', v') # umap_set k v m)"

definition umap_erase :: "'k \<Rightarrow> ('k \<times> 'v) list \<Rightarrow> ('k \<times> 'v) list" where
  "umap_erase k m = filter (\<lambda>(k', v). k' \<noteq> k) m"

lemma map_of_umap_set [simp]: "map_of (umap_set k v m) = (map_of m)(k \<mapsto> v)"
  by (induction m) auto

lemma keys_umap_set [simp]: "fst ` set (umap_set k v m) = insert k (fst ` set m)"
proof (induction m)
  case (Cons e m)
  then show ?case by (cases e; cases "fst e = k") (simp_all add: insert_commute)
qed simp

lemma distinct_umap_set: "distinct (map fst m) \<Longrightarrow> distinct (map fst (umap_set k v m))"
proof (induction m)
  case (Cons e m)
  then show ?case using keys_umap_set [of k v m] by (cases e) auto
qed simp

lemma umap_set_new: "k \<notin> fst ` set m \<Longrightarrow> umap_set k v m = m @ [(k, v)]"
  by (induction m) auto

lemma map_of_umap_erase [simp]: "map_of (umap_erase k m) = (map_of m)(k := None)"
  by (induction m) (auto simp: umap_erase_def)

lemma distinct_umap_erase: "distinct (map fst m) \<Longrightarrow> distinct (map fst (umap_erase k m))"
  by (simp add: umap_erase_def distinct_map_filter)

lemma keys_umap_erase [simp]: "fst ` set (umap_erase k m) = fst ` set m - {k}"
  by (auto simp: umap_erase_def)

subsection \<open>Words\<close>

lemma drop_bit_7_less: "(v :: 'a::len word) \<noteq> 0 \<Longrightarrow> unat (drop_bit 7 v) < unat v"
proof -
  assume "v \<noteq> 0"
  then have "0 < unat v" by (simp add: unat_gt_0)
  then have "drop_bit 7 (unat v) < unat v" by (simp add: drop_bit_eq_div)
  then show ?thesis by (simp only: unat_drop_bit_eq)
qed

lemma word_bit_less: "unat (w :: 'a::len word) < 2 ^ k \<Longrightarrow> bit w n \<Longrightarrow> n < k"
proof (rule ccontr)
  assume less: "unat w < 2 ^ k" and "bit w n" "\<not> n < k"
  then have "bit (unat w) n" by (simp add: bit_unsigned_iff)
  then have "2 ^ n \<le> unat w" by (metis bit_nat_def div_less even_zero not_le)
  moreover from \<open>\<not> n < k\<close> have "(2 :: nat) ^ k \<le> 2 ^ n" by (intro power_increasing) auto
  ultimately show False using less by simp
qed

lemma byte_cont_bit: "(b :: byte) AND 0x80 = 0 \<longleftrightarrow> \<not> bit b 7"
proof -
  have "(0x80 :: byte) = push_bit 7 1" by simp
  then show ?thesis
    by (metis (no_types, lifting) and_exp_eq_0_iff_not_bit push_bit_of_1)
qed

lemma bit_byte_80: "bit (0x80 :: byte) n \<longleftrightarrow> n = 7"
proof -
  have "(0x80 :: byte) = 2 ^ 7" by simp
  then have "bit (0x80 :: byte) n \<longleftrightarrow> bit ((2 :: byte) ^ 7) n" by (rule arg_cong)
  then show ?thesis by (auto simp only: bit_exp_iff possible_bit_word len_num0 len_bit0 len_num1)
qed

end
