(* ===== verification/Byte_Cursor.thy ===== *)
theory Byte_Cursor
  imports Hc_Prelude
begin

text \<open>
  The interface the encoders of the server write through: a growable byte store with a write
  position. Both \<open>byte_buffer\<close> (\<open>src/util/byte_buffer.cpp\<close>) and \<open>packet\<close>
  (\<open>src/network/packet.cpp\<close>) provide it; the NBT writer and the packet builders are its
  clients. \<open>out\<close> is what the store holds, \<open>pos\<close> its write position, \<open>ok\<close> the invariant of its
  representation, and \<open>lim\<close> the size up to which its 32-bit size computations do not wrap.
  \<open>put\<close> returns \<open>None\<close> when it would write out of the memory the store owns.
\<close>

fun put_all :: "('b \<Rightarrow> 's \<Rightarrow> 's option) \<Rightarrow> 'b list \<Rightarrow> 's \<Rightarrow> 's option" where
  "put_all put [] s = Some s"
| "put_all put (b # bs) s = Option.bind (put b s) (put_all put bs)"

locale byte_cursor =
  fixes put :: "byte list \<Rightarrow> 's \<Rightarrow> 's option"
    and out :: "'s \<Rightarrow> byte list"
    and pos :: "'s \<Rightarrow> nat"
    and ok :: "'s \<Rightarrow> bool"
    and lim :: nat
  assumes pos_in: "ok s \<Longrightarrow> pos s \<le> length (out s)"
    and put_law: "ok s \<Longrightarrow> length (out s) + length bs \<le> lim \<Longrightarrow>
      \<exists>s'. put bs s = Some s' \<and> ok s' \<and> out s' = blit (out s) (pos s) bs
        \<and> pos s' = pos s + length bs"
begin

definition at_end :: "'s \<Rightarrow> bool" where
  "at_end s \<longleftrightarrow> ok s \<and> pos s = length (out s)"

lemma put_append:
  assumes "at_end s" "length (out s) + length bs \<le> lim"
  obtains s' where "put bs s = Some s'" "at_end s'" "out s' = out s @ bs"
proof -
  from put_law [of s bs] assms obtain s' where
    "put bs s = Some s'" "ok s'" "out s' = blit (out s) (length (out s)) bs"
    "pos s' = length (out s) + length bs"
    by (auto simp: at_end_def)
  then show thesis by (intro that) (simp_all add: at_end_def blit_def)
qed

lemma put_overwrite:
  assumes "ok s" "pos s + length bs \<le> length (out s)" "length (out s) + length bs \<le> lim"
  obtains s' where "put bs s = Some s'" "ok s'" "out s' = blit (out s) (pos s) bs"
    "pos s' = pos s + length bs" "length (out s') = length (out s)"
  using put_law [OF assms(1,3)] assms(2) that by auto

lemma put_all_append:
  assumes "at_end s" "length (out s) + length (concat bss) \<le> lim"
  obtains s' where "put_all put bss s = Some s'" "at_end s'" "out s' = out s @ concat bss"
proof -
  have "\<exists>s'. put_all put bss s = Some s' \<and> at_end s' \<and> out s' = out s @ concat bss"
    using assms
  proof (induction bss arbitrary: s)
    case (Cons b bss)
    from put_append [of s b] Cons.prems obtain s1 where
      s1: "put b s = Some s1" "at_end s1" "out s1 = out s @ b" by auto
    with Cons.IH [of s1] Cons.prems show ?case by (auto simp: add.assoc)
  qed simp
  then show thesis using that by blast
qed

end

end
