(* ===== verification/Binary.thy ===== *)
theory Binary
  imports Hc_Prelude
begin

text \<open>
  The wire codecs of \<open>src/util/binary.cpp\<close> and \<open>include/util/binary.hpp\<close>: fixed-width
  integers in both byte orders, variable-length integers, and Minecraft strings.

  A reader takes the bytes from its pointer on and returns \<open>None\<close> when it would read past
  them; a writer returns the bytes it stores, whose number is the value the C++ function
  returns. Floating-point values are their bit patterns: the code only moves them. The
  little-endian functions store in the byte order of the hosts the code is built for.
\<close>

subsection \<open>Fixed-width integers\<close>

definition read_bool :: "byte list \<Rightarrow> bool option" where
  "read_bool p = (case p of a # _ \<Rightarrow> Some (a \<noteq> 0) | [] \<Rightarrow> None)"


definition read_short_be :: "byte list \<Rightarrow> u16 option" where
  "read_short_be p = (case p of
     a # b # _ \<Rightarrow> Some (push_bit 8 (ucast a) OR ucast b)
   | _ \<Rightarrow> None)"

definition read_int_be :: "byte list \<Rightarrow> u32 option" where
  "read_int_be p = (case p of
     a # b # c # d # _ \<Rightarrow>
       Some (push_bit 24 (ucast a) OR push_bit 16 (ucast b) OR push_bit 8 (ucast c) OR ucast d)
   | _ \<Rightarrow> None)"

definition read_long_be :: "byte list \<Rightarrow> u64 option" where
  "read_long_be p = (case p of
     a # b # c # d # e # f # g # h # _ \<Rightarrow>
       Some (push_bit 56 (ucast a) OR push_bit 48 (ucast b) OR push_bit 40 (ucast c)
         OR push_bit 32 (ucast d) OR push_bit 24 (ucast e) OR push_bit 16 (ucast f)
         OR push_bit 8 (ucast g) OR ucast h)
   | _ \<Rightarrow> None)"

definition read_short_le :: "byte list \<Rightarrow> u16 option" where
  "read_short_le p = (case p of
     a # b # _ \<Rightarrow> Some (ucast a OR push_bit 8 (ucast b))
   | _ \<Rightarrow> None)"

definition read_int_le :: "byte list \<Rightarrow> u32 option" where
  "read_int_le p = (case p of
     a # b # c # d # _ \<Rightarrow>
       Some (ucast a OR push_bit 8 (ucast b) OR push_bit 16 (ucast c) OR push_bit 24 (ucast d))
   | _ \<Rightarrow> None)"

definition read_long_le :: "byte list \<Rightarrow> u64 option" where
  "read_long_le p = (case p of
     a # b # c # d # e # f # g # h # _ \<Rightarrow>
       Some (ucast a OR push_bit 8 (ucast b) OR push_bit 16 (ucast c) OR push_bit 24 (ucast d)
         OR push_bit 32 (ucast e) OR push_bit 40 (ucast f) OR push_bit 48 (ucast g)
         OR push_bit 56 (ucast h))
   | _ \<Rightarrow> None)"

text \<open>\<open>read_float_be\<close> and \<open>read_double_be\<close> reverse the bytes and reinterpret the array.\<close>

definition read_float_be :: "byte list \<Rightarrow> u32 option" where
  "read_float_be ptr = (case ptr of
     p0 # p1 # p2 # p3 # _ \<Rightarrow> read_int_le [p3, p2, p1, p0]
   | _ \<Rightarrow> None)"

definition read_double_be :: "byte list \<Rightarrow> u64 option" where
  "read_double_be ptr = (case ptr of
     p0 # p1 # p2 # p3 # p4 # p5 # p6 # p7 # _ \<Rightarrow> read_long_le [p7, p6, p5, p4, p3, p2, p1, p0]
   | _ \<Rightarrow> None)"

definition write_bool :: "bool \<Rightarrow> byte list" where
  "write_bool val = [if val then 1 else 0]"

definition write_byte :: "byte \<Rightarrow> byte list" where
  "write_byte val = [val]"

definition write_short_be :: "u16 \<Rightarrow> byte list" where
  "write_short_be v = [ucast (drop_bit 8 v), ucast (v AND 0xFF)]"

definition write_int_be :: "u32 \<Rightarrow> byte list" where
  "write_int_be v = [ucast (drop_bit 24 v), ucast (drop_bit 16 v AND 0xFF),
     ucast (drop_bit 8 v AND 0xFF), ucast (v AND 0xFF)]"

definition write_long_be :: "u64 \<Rightarrow> byte list" where
  "write_long_be v = [ucast (drop_bit 56 v), ucast (drop_bit 48 v AND 0xFF),
     ucast (drop_bit 40 v AND 0xFF), ucast (drop_bit 32 v AND 0xFF),
     ucast (drop_bit 24 v AND 0xFF), ucast (drop_bit 16 v AND 0xFF),
     ucast (drop_bit 8 v AND 0xFF), ucast (v AND 0xFF)]"

definition write_short_le :: "u16 \<Rightarrow> byte list" where
  "write_short_le v = [ucast v, ucast (drop_bit 8 v)]"

definition write_int_le :: "u32 \<Rightarrow> byte list" where
  "write_int_le v = [ucast v, ucast (drop_bit 8 v), ucast (drop_bit 16 v), ucast (drop_bit 24 v)]"

definition write_long_le :: "u64 \<Rightarrow> byte list" where
  "write_long_le v = [ucast v, ucast (drop_bit 8 v), ucast (drop_bit 16 v),
     ucast (drop_bit 24 v), ucast (drop_bit 32 v), ucast (drop_bit 40 v),
     ucast (drop_bit 48 v), ucast (drop_bit 56 v)]"

definition write_float_be :: "u32 \<Rightarrow> byte list" where
  "write_float_be f = write_int_be f"

definition write_double_be :: "u64 \<Rightarrow> byte list" where
  "write_double_be f = write_long_be f"

lemma FF_eq_mask: "(0xFF :: 'a::len word) = mask 8"
  by (simp add: mask_eq_exp_minus_1)

lemma ucast_and_FF: "ucast (v AND 0xFF) = (ucast (v :: 'a::len word) :: byte)"
  unfolding FF_eq_mask by (rule bit_word_eqI) (auto simp: bit_simps dest: bit_imp_le_length)

lemma byte_slot:
  "push_bit n (ucast (ucast (drop_bit n v) :: byte)) = (v :: 'a::len word) AND push_bit n 0xFF"
  unfolding FF_eq_mask by (rule bit_word_eqI) (auto simp: bit_simps)

lemma byte_slot_0: "ucast (ucast v :: byte) = (v :: 'a::len word) AND 0xFF"
  using byte_slot [of 0 v] by simp


lemma all_ones_16 [simp]: "(v :: u16) AND 0xFFFF = v"
proof -
  have "(0xFFFF :: u16) = -1" by simp
  then show ?thesis by (metis bit.conj_one_right)
qed

lemma all_ones_32 [simp]: "(v :: u32) AND 0xFFFFFFFF = v"
proof -
  have "(0xFFFFFFFF :: u32) = -1" by simp
  then show ?thesis by (metis bit.conj_one_right)
qed

lemma all_ones_64 [simp]: "(v :: u64) AND 0xFFFFFFFFFFFFFFFF = v"
proof -
  have "(0xFFFFFFFFFFFFFFFF :: u64) = -1" by simp
  then show ?thesis by (metis bit.conj_one_right)
qed

lemma read_write_short_be [simp]: "read_short_be (write_short_be v @ rest) = Some v"
  unfolding read_short_be_def write_short_be_def append_Cons append_Nil list.case
    option.inject ucast_and_FF byte_slot
  unfolding byte_slot_0 bit.conj_disj_distrib [symmetric] by simp

lemma read_write_int_be [simp]: "read_int_be (write_int_be v @ rest) = Some v"
  unfolding read_int_be_def write_int_be_def append_Cons append_Nil list.case
    option.inject ucast_and_FF byte_slot
  unfolding byte_slot_0 bit.conj_disj_distrib [symmetric] by simp

lemma read_write_long_be [simp]: "read_long_be (write_long_be v @ rest) = Some v"
  unfolding read_long_be_def write_long_be_def append_Cons append_Nil list.case
    option.inject ucast_and_FF byte_slot
  unfolding byte_slot_0 bit.conj_disj_distrib [symmetric] by simp

lemma read_write_short_le: "read_short_le (write_short_le v @ rest) = Some v"
  unfolding read_short_le_def write_short_le_def append_Cons append_Nil list.case
    option.inject byte_slot
  unfolding byte_slot_0 bit.conj_disj_distrib [symmetric] by simp

lemma read_write_int_le: "read_int_le (write_int_le v @ rest) = Some v"
  unfolding read_int_le_def write_int_le_def append_Cons append_Nil list.case
    option.inject byte_slot
  unfolding byte_slot_0 bit.conj_disj_distrib [symmetric] by simp

lemma read_write_long_le: "read_long_le (write_long_le v @ rest) = Some v"
  unfolding read_long_le_def write_long_le_def append_Cons append_Nil list.case
    option.inject byte_slot
  unfolding byte_slot_0 bit.conj_disj_distrib [symmetric] by simp

lemma read_float_be_eq: "read_float_be p = read_int_be p"
  by (auto simp: read_float_be_def read_int_be_def read_int_le_def ac_simps split: list.splits)

lemma read_double_be_eq: "read_double_be p = read_long_be p"
  by (auto simp: read_double_be_def read_long_be_def read_long_le_def ac_simps split: list.splits)

lemma length_write_be [simp]:
  "length (write_bool b) = 1" "length (write_byte c) = 1"
  "length (write_short_be s) = 2" "length (write_int_be i) = 4" "length (write_long_be l) = 8"
  "length (write_float_be i) = 4" "length (write_double_be l) = 8"
  by (simp_all add: write_bool_def write_byte_def write_short_be_def write_int_be_def
      write_long_be_def write_float_be_def write_double_be_def)

subsection \<open>Variable-length integers\<close>

text \<open>
  The reading loop runs at most \<open>k\<close> times (5 for a varint, 10 for a varlong). The second
  component is what it stores through \<open>olen\<close>: nothing when no byte ended the number.
\<close>

fun read_varint_loop ::
  "nat \<Rightarrow> nat \<Rightarrow> byte list \<Rightarrow> 'a::len word \<Rightarrow> ('a word \<times> nat option) option" where
  "read_varint_loop 0 i arr n = Some (n, None)"
| "read_varint_loop (Suc k) i [] n = None"
| "read_varint_loop (Suc k) i (b # arr) n =
     (let n' = n OR push_bit (i * 7) (ucast (b AND 0x7F))
      in if b AND 0x80 = 0 then Some (n', Some (i + 1))
         else read_varint_loop k (Suc i) arr n')"

definition read_varint :: "byte list \<Rightarrow> (u32 \<times> nat option) option" where
  "read_varint ptr = read_varint_loop 5 0 ptr 0"

definition read_varlong :: "byte list \<Rightarrow> (u64 \<times> nat option) option" where
  "read_varlong ptr = read_varint_loop 10 0 ptr 0"

function write_varint_loop :: "'a::len word \<Rightarrow> byte list" where
  "write_varint_loop val =
     (if val = 0 then []
      else let p = ucast (val AND 0x7F); val' = drop_bit 7 val
           in (if val' \<noteq> 0 then p OR 0x80 else p) # write_varint_loop val')"
  by pat_completeness auto
termination
  by (relation "measure unat") (simp, simp only: in_measure, metis drop_bit_7_less)

declare write_varint_loop.simps [simp del]

definition write_varint :: "u32 \<Rightarrow> byte list" where
  "write_varint val = (if val = 0 then [0] else write_varint_loop val)"

definition write_varlong :: "u64 \<Rightarrow> byte list" where
  "write_varlong val = (if val = 0 then [0] else write_varint_loop val)"

text \<open>
  \<open>varint_size\<close> shifts a signed number, so its loop need not end: \<open>None\<close> is a call that
  does not return.
\<close>

partial_function (option) varint_size_loop :: "nat \<Rightarrow> u32 \<Rightarrow> nat option" where
  "varint_size_loop s num =
     (if num = 0 then Some s else varint_size_loop (Suc s) (signed_drop_bit 7 num))"

definition varint_size :: "u32 \<Rightarrow> nat option" where
  "varint_size num = (if num = 0 then Some 1 else varint_size_loop 0 num)"

text \<open>
  \<open>got_varint\<close> looks for the byte that ends a varint among the first \<open>len\<close> bytes. The loop
  returns the index of that byte, if there is one.
\<close>

fun got_varint_loop :: "nat \<Rightarrow> nat \<Rightarrow> byte list \<Rightarrow> nat option option" where
  "got_varint_loop 0 i arr = Some None"
| "got_varint_loop (Suc k) i [] = None"
| "got_varint_loop (Suc k) i (b # arr) =
     (if b AND 0x80 = 0 then Some (Some i) else got_varint_loop k (Suc i) arr)"

definition got_varint :: "byte list \<Rightarrow> int \<Rightarrow> int option" where
  "got_varint ptr len = (case got_varint_loop (nat len) 0 ptr of
     None \<Rightarrow> None
   | Some None \<Rightarrow> Some 0
   | Some (Some li) \<Rightarrow> Some (if li > 5 then -1 else 1))"

subsection \<open>Minecraft strings\<close>

text \<open>The number of leading one bits of the lead byte, as \<open>read_mc_string\<close> counts them.\<close>

function lead_ones :: "nat \<Rightarrow> u32 \<Rightarrow> nat" where
  "lead_ones bc f = (if f AND 0x80 \<noteq> 0 then lead_ones (Suc bc) (push_bit 1 f) else bc)"
  by pat_completeness auto
termination
proof (relation "measure (\<lambda>(bc, f). card {i. i < 8 \<and> (\<exists>j\<le>i. bit f j)})")
  show "wf (measure (\<lambda>(bc, f :: u32). card {i. i < 8 \<and> (\<exists>j\<le>i. bit f j)}))" by simp
next
  fix bc :: nat and f :: u32
  assume "f AND 0x80 \<noteq> 0"
  then have b7: "bit f 7"
    using and_exp_eq_0_iff_not_bit [of f 7] by simp
  define t where "t = (LEAST j. bit f j)"
  have t: "bit f t" "t \<le> 7" "\<And>j. bit f j \<Longrightarrow> t \<le> j"
    using b7 by (auto simp: t_def intro: LeastI Least_le)
  let ?S = "\<lambda>g :: u32. {i. i < 8 \<and> (\<exists>j\<le>i. bit g j)}"
  have shift: "1 \<le> j \<and> bit f (j - 1)" if "bit (push_bit 1 f) j" for j
    using that unfolding bit_push_bit_iff by simp
  have "?S (push_bit 1 f) \<subseteq> ?S f"
  proof
    fix i assume "i \<in> ?S (push_bit 1 f)"
    then obtain j where "i < 8" "j \<le> i" "bit (push_bit 1 f) j" by blast
    with shift [of j] have "i < 8" "j - 1 \<le> i" "bit f (j - 1)" by simp_all
    then show "i \<in> ?S f" by blast
  qed
  moreover have "t \<in> ?S f" using t by (simp add: exI [of _ t])
  moreover have "t \<notin> ?S (push_bit 1 f)"
  proof
    assume "t \<in> ?S (push_bit 1 f)"
    then obtain j where "j \<le> t" "bit (push_bit 1 f) j" by blast
    with shift [of j] have "j \<le> t" "1 \<le> j" "bit f (j - 1)" by blast+
    with t(3) [of "j - 1"] show False by linarith
  qed
  ultimately have "?S (push_bit 1 f) \<subset> ?S f" by blast
  then show "((Suc bc, push_bit 1 f), bc, f) \<in> measure (\<lambda>(bc, f). card {i. i < 8 \<and> (\<exists>j\<le>i. bit f j)})"
    by (simp add: psubset_card_mono)
qed
declare lead_ones.simps [simp del]


text \<open>
  The loop of \<open>read_mc_string\<close>. It copies one byte per character, whatever the length of the
  character. The outer option is \<open>None\<close> for a read past the bytes; the inner one is \<open>None\<close> when
  the function returns false.
\<close>

function mc_string_loop ::
  "int \<Rightarrow> int \<Rightarrow> int \<Rightarrow> int \<Rightarrow> byte list \<Rightarrow> byte list \<Rightarrow> byte list option option" where
  "mc_string_loop len out_len i mlen ptr out =
     (if i < len then
        (case ptr of
           [] \<Rightarrow> None
         | b # ptr' \<Rightarrow>
             (let bc = lead_ones 0 (ucast b)
              in if bc = 1 \<or> bc > 6 then Some None
                 else if mlen \<ge> out_len then Some None
                 else mc_string_loop len out_len
                   ((if bc \<ge> 2 then i + (int bc - 1) else i) + 1) (mlen + 1) ptr' (out @ [b])))
      else Some (Some out))"
  by pat_completeness auto
termination
  by (relation "measure (\<lambda>(len, out_len, i, mlen, ptr, out). length ptr)") auto

declare mc_string_loop.simps [simp del]

text \<open>The result is the string, if it is valid, and the value stored through \<open>olen\<close>.\<close>

definition read_mc_string :: "byte list \<Rightarrow> int \<Rightarrow> (byte list option \<times> int) option" where
  "read_mc_string ptr out_len = (case read_varint ptr of
     None \<Rightarrow> None
   | Some (lenw, olen) \<Rightarrow>
       (let vl = (case olen of None \<Rightarrow> 0 | Some l \<Rightarrow> l); len = sint lenw
        in case mc_string_loop len (out_len - 1) 0 0 (drop vl ptr) [] of
             None \<Rightarrow> None
           | Some r \<Rightarrow> Some (r, len + int vl)))"

definition write_mc_string :: "byte list \<Rightarrow> byte list" where
  "write_mc_string str = write_varint (of_nat (length (c_str str))) @ c_str str"

subsection \<open>Correctness of the variable-length integers\<close>

lemma cont_byte:
  fixes v :: "'a::len word"
  shows "((ucast (v AND 0x7F) :: byte) OR 0x80) AND 0x7F = ucast (v AND 0x7F)"
    and "((ucast (v AND 0x7F) :: byte) OR 0x80) AND 0x80 \<noteq> 0"
    and "(ucast (v AND 0x7F) :: byte) AND 0x80 = 0"
    and "(ucast (v AND 0x7F) :: byte) AND 0x7F = ucast (v AND 0x7F)"
proof -
  have m: "(0x7F :: 'b::len word) = mask 7" by (simp add: mask_eq_exp_minus_1)
  show "((ucast (v AND 0x7F) :: byte) OR 0x80) AND 0x7F = ucast (v AND 0x7F)"
    unfolding m by (rule bit_word_eqI) (simp only: bit_simps bit_byte_80, auto)
  show "(ucast (v AND 0x7F) :: byte) AND 0x7F = ucast (v AND 0x7F)"
    unfolding m by (rule bit_word_eqI) (auto simp: bit_simps)
  show "((ucast (v AND 0x7F) :: byte) OR 0x80) AND 0x80 \<noteq> 0"
    unfolding m byte_cont_bit by (simp only: bit_simps bit_byte_80, simp)
  show "(ucast (v AND 0x7F) :: byte) AND 0x80 = 0"
    unfolding m byte_cont_bit by (simp add: bit_simps)
qed

lemma septet_round: "ucast (ucast (v AND 0x7F) :: byte) = (v :: 'a::len word) AND 0x7F"
proof -
  have m: "(0x7F :: 'b::len word) = mask 7" by (simp add: mask_eq_exp_minus_1)
  show ?thesis unfolding m by (rule bit_word_eqI) (auto simp: bit_simps)
qed

lemma push_septets:
  "push_bit i (v AND 0x7F) OR push_bit (i + 7) (drop_bit 7 v) = push_bit i (v :: 'a::len word)"
proof -
  have m: "(0x7F :: 'a word) = mask 7" by (simp add: mask_eq_exp_minus_1)
  show ?thesis unfolding m
  proof (rule bit_word_eqI)
    fix n assume "n < LENGTH('a)"
    then show "bit (push_bit i (v AND mask 7) OR push_bit (i + 7) (drop_bit 7 v)) n
        = bit (push_bit i v) n"
    proof (cases "i + 7 \<le> n")
      case True
      then have "7 + (n - (i + 7)) = n - i" by simp
      with True \<open>n < LENGTH('a)\<close> show ?thesis by (auto simp: bit_simps)
    next
      case False
      with \<open>n < LENGTH('a)\<close> show ?thesis by (auto simp: bit_simps)
    qed
  qed
qed

lemma drop_bit_7_bound: "unat (v :: 'a::len word) < 2 ^ (7 * Suc k) \<Longrightarrow> unat (drop_bit 7 v) < 2 ^ (7 * k)"
proof -
  assume "unat v < 2 ^ (7 * Suc k)"
  then have "unat v < 128 * 2 ^ (7 * k)" by (simp add: power_add)
  then have "drop_bit 7 (unat v) < 2 ^ (7 * k)" by (simp add: drop_bit_eq_div less_mult_imp_div_less mult.commute)
  then show ?thesis by (simp only: unat_drop_bit_eq)
qed

lemma septet_last: "drop_bit 7 v = 0 \<Longrightarrow> (v :: 'a::len word) AND 0x7F = v"
  using push_septets [of 0 v] by simp

lemma length_write_varint_loop:
  "unat v < 2 ^ (7 * k) \<Longrightarrow> length (write_varint_loop v) \<le> k"
proof (induction v arbitrary: k rule: write_varint_loop.induct)
  case (1 v)
  show ?case
  proof (cases "v = 0")
    case True
    then show ?thesis by (simp add: write_varint_loop.simps)
  next
    case False
    with 1 obtain k' where k: "k = Suc k'" by (cases k) (auto simp: unat_eq_zero)
    with "1.prems" have "unat (drop_bit 7 v) < 2 ^ (7 * k')" by (auto intro: drop_bit_7_bound)
    from "1.IH" [OF False refl refl this] False k show ?thesis
      by (subst write_varint_loop.simps) (simp add: Let_def)
  qed
qed

lemma read_write_varint_loop:
  assumes "v \<noteq> 0" "unat v < 2 ^ (7 * k)"
  shows "read_varint_loop k i (write_varint_loop v @ rest) n
       = Some (n OR push_bit (i * 7) v, Some (i + length (write_varint_loop v)))"
  using assms
proof (induction v arbitrary: k i n rule: write_varint_loop.induct)
  case (1 v)
  then obtain k' where k: "k = Suc k'" by (cases k) (auto simp: unat_eq_zero)
  let ?v' = "drop_bit 7 v"
  show ?case
  proof (cases "?v' = 0")
    case True
    with "1.prems" k show ?thesis
      by (subst (1 2) write_varint_loop.simps)
         (simp add: cont_byte [of v, unfolded septet_last [OF True]]
            septet_round [of v, unfolded septet_last [OF True]] septet_last write_varint_loop.simps [of 0])
  next
    case False
    have b: "unat ?v' < 2 ^ (7 * k')" using "1.prems" k by (auto intro: drop_bit_7_bound)
    note IH = "1.IH" [OF \<open>v \<noteq> 0\<close> refl refl False b]
    from "1.prems" k False show ?thesis
      by (subst (1 2) write_varint_loop.simps)
         (simp add: Let_def cont_byte septet_round IH or.assoc push_septets
            add.commute [of 7] del: push_bit_and)
  qed
qed

lemma unat_u32_bound: "unat (v :: u32) < 2 ^ (7 * 5)"
  by (rule less_le_trans [OF unsigned_less]) simp

lemma unat_u64_bound: "unat (v :: u64) < 2 ^ (7 * 10)"
  by (rule less_le_trans [OF unsigned_less]) simp

lemma read_write_varint [simp]:
  "read_varint (write_varint v @ rest) = Some (v, Some (length (write_varint v)))"
proof (cases "v = 0")
  case True
  then show ?thesis
    by (simp add: read_varint_def write_varint_def numeral_eq_Suc)
next
  case False
  then show ?thesis
    using read_write_varint_loop [OF False unat_u32_bound, of 0 rest 0]
    by (simp add: read_varint_def write_varint_def)
qed

lemma read_write_varlong [simp]:
  "read_varlong (write_varlong v @ rest) = Some (v, Some (length (write_varlong v)))"
proof (cases "v = 0")
  case True
  then show ?thesis
    by (simp add: read_varlong_def write_varlong_def numeral_eq_Suc)
next
  case False
  then show ?thesis
    using read_write_varint_loop [OF False unat_u64_bound, of 0 rest 0]
    by (simp add: read_varlong_def write_varlong_def)
qed

lemma length_write_varint: "1 \<le> length (write_varint v) \<and> length (write_varint v) \<le> 5"
  using length_write_varint_loop [OF unat_u32_bound, of v]
  by (auto simp: write_varint_def Suc_le_eq write_varint_loop.simps [of v] Let_def)

lemma length_write_varlong: "1 \<le> length (write_varlong v) \<and> length (write_varlong v) \<le> 10"
  using length_write_varint_loop [OF unat_u64_bound, of v]
  by (auto simp: write_varlong_def Suc_le_eq write_varint_loop.simps [of v] Let_def)


lemma write_varint_loop_step:
  "val \<noteq> 0 \<Longrightarrow> write_varint_loop val =
     (if drop_bit 7 val \<noteq> 0 then ucast (val AND 0x7F) OR 0x80 else ucast (val AND 0x7F))
       # write_varint_loop (drop_bit 7 val)"
  by (subst write_varint_loop.simps) (simp add: Let_def)

text \<open>
  C6: a varint written by \<open>write_varint\<close> is read back by \<open>read_varint\<close>, whatever follows it in
  the buffer, and the length stored through \<open>olen\<close> is the number of bytes written, between 1
  and 5.
\<close>

theorem varint_roundtrip:
  "read_varint (write_varint v @ rest) = Some (v, Some (length (write_varint v)))
   \<and> 1 \<le> length (write_varint v) \<and> length (write_varint v) \<le> 5"
  using read_write_varint length_write_varint by blast

text \<open>
  The same for the 64-bit \<open>write_varlong\<close> and \<open>read_varlong\<close>, in at most 10 bytes.
\<close>

theorem varlong_roundtrip:
  "read_varlong (write_varlong v @ rest) = Some (v, Some (length (write_varlong v)))
   \<and> 1 \<le> length (write_varlong v) \<and> length (write_varlong v) \<le> 10"
  using read_write_varlong length_write_varlong by blast

subsection \<open>The size of a varint\<close>

lemma signed_drop_bit_nonneg:
  "\<not> bit (v :: u32) 31 \<Longrightarrow> signed_drop_bit n v = drop_bit n v"
  by (rule bit_word_eqI) (auto simp: bit_simps min_def not_le dest: bit_imp_le_length)

lemma bit_31_signed_drop: "bit (signed_drop_bit 7 (v :: u32)) 31 = bit v 31"
  by (simp add: bit_simps)

lemma bit_31_drop: "\<not> bit (v :: u32) 31 \<Longrightarrow> \<not> bit (drop_bit 7 v) 31"
  by (auto simp: bit_simps dest: bit_imp_le_length)

lemma varint_size_loop_nonneg:
  "\<not> bit v 31 \<Longrightarrow> varint_size_loop s v = Some (s + length (write_varint_loop v))"
proof (induction v arbitrary: s rule: write_varint_loop.induct)
  case (1 v)
  show ?case
  proof (cases "v = 0")
    case True
    then show ?thesis by (simp add: varint_size_loop.simps write_varint_loop.simps)
  next
    case False
    from "1.IH" [OF False refl refl bit_31_drop [OF "1.prems"], of "Suc s"] False "1.prems"
    show ?thesis
      by (subst varint_size_loop.simps)
         (simp add: signed_drop_bit_nonneg write_varint_loop_step)
  qed
qed

lemma varint_size_loop_returns:
  assumes ret: "varint_size_loop s v = Some r"
  shows "\<not> bit v 31"
proof (rule varint_size_loop.raw_induct [where P = "\<lambda>s v r. \<not> bit v 31", OF _ ret])
  fix f :: "nat \<Rightarrow> u32 \<Rightarrow> nat option" and s :: nat and v :: u32 and r :: nat
  assume IH: "\<And>s v r. f s v = Some r \<Longrightarrow> \<not> bit v 31"
    and eq: "(if v = 0 then Some s else f (Suc s) (signed_drop_bit 7 v)) = Some r"
  show "\<not> bit v 31"
  proof (cases "v = 0")
    case False
    with eq IH have "\<not> bit (signed_drop_bit 7 v) 31" by auto
    then show ?thesis unfolding bit_31_signed_drop .
  qed simp
qed

lemma varint_size_eq:
  "varint_size v = (if 0 \<le> sint v then Some (length (write_varint v)) else None)"
proof -
  have "bit v 31 \<longleftrightarrow> sint v < 0"
    using bit_last_iff [of v] by simp
  then have sg: "0 \<le> sint v \<longleftrightarrow> \<not> bit v 31" by auto
  show ?thesis
  proof (cases "bit v 31")
    case True
    then have "v \<noteq> 0" by auto
    moreover have "varint_size_loop 0 v = None"
      using varint_size_loop_returns [of 0 v] True by (cases "varint_size_loop 0 v") auto
    ultimately show ?thesis using True sg by (simp add: varint_size_def)
  next
    case False
    then show ?thesis
      using sg by (simp add: varint_size_def write_varint_def varint_size_loop_nonneg)
  qed
qed

text \<open>
  C12: \<open>varint_size\<close> returns exactly for the numbers that are not negative (the top bit of the
  \<open>int\<close> is clear), and then it is the number of bytes \<open>write_varint\<close> stores; for a negative
  number its loop never ends.
\<close>

theorem varint_size_spec:
  "varint_size v = (if 0 \<le> sint v then Some (length (write_varint v)) else None)"
  by (rule varint_size_eq)

subsection \<open>Recognising a varint\<close>

lemma got_varint_loop_written:
  "v \<noteq> 0 \<Longrightarrow> length (write_varint_loop v) \<le> k
   \<Longrightarrow> got_varint_loop k i (write_varint_loop v @ rest) = Some (Some (i + length (write_varint_loop v) - 1))"
proof (induction v arbitrary: k i rule: write_varint_loop.induct)
  case (1 v)
  note step = write_varint_loop_step [OF \<open>v \<noteq> 0\<close>]
  from "1.prems" step obtain k' where k: "k = Suc k'" by (cases k) auto
  show ?case
  proof (cases "drop_bit 7 v = 0")
    case True
    then show ?thesis
      by (simp add: step k cont_byte [of v, unfolded septet_last [OF True]] septet_last
          write_varint_loop.simps [of 0])
  next
    case False
    from "1.prems" k step have len: "length (write_varint_loop (drop_bit 7 v)) \<le> k'" by simp
    have pos: "1 \<le> length (write_varint_loop (drop_bit 7 v))"
      using write_varint_loop_step [OF False] by simp
    from "1.IH" [OF \<open>v \<noteq> 0\<close> refl refl False len, of "Suc i"] False pos show ?thesis
      by (simp add: step k cont_byte)
  qed
qed

lemma got_varint_written:
  "int (length (write_varint v)) \<le> len \<Longrightarrow> got_varint (write_varint v @ rest) len = Some 1"
proof -
  assume len: "int (length (write_varint v)) \<le> len"
  show ?thesis
  proof (cases "v = 0")
    case True
    with len obtain k where "nat len = Suc k" by (cases "nat len") (auto simp: write_varint_def)
    with True show ?thesis by (simp add: got_varint_def write_varint_def)
  next
    case False
    with len length_write_varint [of v] got_varint_loop_written [OF False, of "nat len" 0 rest]
    show ?thesis by (simp add: got_varint_def write_varint_def, linarith)
  qed
qed

lemma got_varint_loop_range:
  "got_varint_loop k i arr = Some (Some li) \<Longrightarrow> i \<le> li \<and> li < i + k"
  by (induction k i arr rule: got_varint_loop.induct) (auto split: if_splits)

lemma got_varint_none: "got_varint p 0 = Some 0"
  by (simp add: got_varint_def)

text \<open>
  C0: \<open>got_varint\<close> accepts a number of six bytes, for which \<open>read_varint\<close> never stores the
  length its callers then use.
\<close>

theorem got_varint_accepts_six_bytes:
  "got_varint [0x80, 0x80, 0x80, 0x80, 0x80, 0x01] 6 = Some 1
   \<and> read_varint [0x80, 0x80, 0x80, 0x80, 0x80, 0x01] = Some (0, None)"
  by code_simp

subsection \<open>Correctness of the strings\<close>

definition ascii :: "byte list \<Rightarrow> bool" where
  "ascii s = (\<forall>b \<in> set s. b \<noteq> 0 \<and> \<not> bit b 7)"

lemma ascii_simps [simp]:
  "ascii []" "ascii (b # s) \<longleftrightarrow> b \<noteq> 0 \<and> \<not> bit b 7 \<and> ascii s"
  by (auto simp: ascii_def)

lemma ascii_c_str [simp]: "ascii s \<Longrightarrow> c_str s = s"
  by (rule c_str_id) (auto simp: ascii_def)

lemma lead_ones_ascii: "\<not> bit (b :: byte) 7 \<Longrightarrow> lead_ones 0 (ucast b) = 0"
proof -
  assume "\<not> bit b 7"
  then have "(ucast b :: u32) AND 0x80 = 0"
    using and_exp_eq_0_iff_not_bit [of "ucast b :: u32" 7] by (simp add: bit_simps)
  then show ?thesis by (simp add: lead_ones.simps)
qed

lemma mc_string_loop_ascii:
  "ascii s \<Longrightarrow> len = i + int (length s) \<Longrightarrow> mlen + int (length s) \<le> out_len
   \<Longrightarrow> mc_string_loop len out_len i mlen (s @ rest) out = Some (Some (out @ s))"
proof (induction s arbitrary: i mlen out)
  case Nil
  then show ?case by (simp add: mc_string_loop.simps)
next
  case (Cons b s)
  then have "mc_string_loop len out_len (i + 1) (mlen + 1) (s @ rest) (out @ [b])
    = Some (Some ((out @ [b]) @ s))"
    by (intro Cons.IH) simp_all
  with Cons.prems show ?case
    by (subst mc_string_loop.simps) (simp add: lead_ones_ascii)
qed

lemma mc_string_loop_bound:
  "mc_string_loop len out_len i mlen ptr out = Some (Some s) \<Longrightarrow> mlen = int (length out)
   \<Longrightarrow> int (length s) \<le> max (int (length out)) out_len"
proof (induction len out_len i mlen ptr out rule: mc_string_loop.induct)
  case (1 len out_len i mlen ptr out)
  show ?case
  proof (cases "i < len")
    case False
    with "1.prems" show ?thesis by (subst (asm) mc_string_loop.simps) simp
  next
    case True
    from "1.prems"(1) True obtain b ptr' where ptr: "ptr = b # ptr'"
      by (subst (asm) mc_string_loop.simps) (auto split: list.splits)
    define bc where "bc = lead_ones 0 (ucast b)"
    from "1.prems"(1) True ptr have ok: "\<not> (bc = 1 \<or> bc > 6)" "\<not> mlen \<ge> out_len"
      and rec: "mc_string_loop len out_len ((if bc \<ge> 2 then i + (int bc - 1) else i) + 1)
        (mlen + 1) ptr' (out @ [b]) = Some (Some s)"
      by (subst (asm) mc_string_loop.simps, simp add: bc_def Let_def split: if_splits)+
    from "1.IH" [OF True ptr bc_def ok rec] "1.prems"(2) ok show ?thesis by simp
  qed
qed

lemma read_write_mc_string:
  assumes "ascii s" "int (length s) < out_len" "length s < 2 ^ 31"
  shows "read_mc_string (write_mc_string s @ rest) out_len
       = Some (Some s, int (length (write_mc_string s)))"
proof -
  have "sint (of_nat (length s) :: u32) = int (length s)"
    using assms(3) by (simp add: signed_of_nat signed_take_bit_int_eq_self)
  then show ?thesis
    using assms mc_string_loop_ascii [of s "int (length s)" 0 0 "out_len - 1" rest "[]"]
    by (simp add: read_mc_string_def write_mc_string_def)
qed

text \<open>
  An ASCII string without zero bytes, written by \<open>write_mc_string\<close>, is read back unchanged
  by \<open>read_mc_string\<close> into a buffer with room for it and its terminator, and \<open>olen\<close> is the
  length of the encoding.
\<close>

theorem mc_string_roundtrip:
  assumes "ascii s" "int (length s) < out_len" "length s < 2 ^ 31"
  shows "read_mc_string (write_mc_string s @ rest) out_len
       = Some (Some s, int (length (write_mc_string s)))"
  by (rule read_write_mc_string [OF assms])

theorem mc_string_roundtrip_witness:
  "read_mc_string (write_mc_string [0x68, 0x69] @ [7]) 256
   = Some (Some [0x68, 0x69], int (length (write_mc_string [0x68, 0x69])))"
proof -
  have "\<not> bit (0x68 :: byte) 7" "\<not> bit (0x69 :: byte) 7" by (simp_all add: bit_numeral_rec)
  then show ?thesis by (intro mc_string_roundtrip) simp_all
qed

text \<open>
  C13: whatever the bytes, a string that \<open>read_mc_string\<close> accepts fits the caller's buffer of
  \<open>out_len\<close> bytes together with its terminator.
\<close>

theorem mc_string_in_bounds:
  assumes "read_mc_string ptr out_len = Some (Some s, n)" "0 < out_len"
  shows "int (length s) + 1 \<le> out_len"
proof -
  from assms(1) obtain len p where "mc_string_loop len (out_len - 1) 0 0 p [] = Some (Some s)"
    by (auto simp: read_mc_string_def Let_def split: option.splits prod.splits)
  from mc_string_loop_bound [OF this] assms(2) show ?thesis by simp
qed

theorem mc_string_in_bounds_witness: "int (length [0x68 :: byte]) + 1 \<le> 2"
proof -
  have "read_mc_string [1, 0x68] 2 = Some (Some [0x68], 2)"
    by code_simp
  from mc_string_in_bounds [OF this] show ?thesis by simp
qed

text \<open>
  A two-byte UTF-8 character loses its second byte when it ends the string, and makes
  \<open>read_mc_string\<close> reject the string when anything follows it.
\<close>

theorem mc_string_drops_continuation_bytes:
  "read_mc_string (write_mc_string [0xC3, 0xA9]) 16 = Some (Some [0xC3], 3)
   \<and> read_mc_string (write_mc_string [0xC3, 0xA9, 0x61]) 16 = Some (None, 4)"
  by code_simp

end
