(* ===== verification/Byte_Buffer.thy ===== *)
theory Byte_Buffer
  imports Byte_Cursor Binary
begin

text \<open>
  \<open>class byte_buffer\<close> of \<open>src/util/byte_buffer.cpp\<close>: a byte array that grows on demand. The
  block \<open>data\<close> is modelled cell by cell, an unwritten cell being \<open>None\<close>; a store outside the
  block makes the operation return \<open>None\<close>. Sizes are unsigned 32-bit numbers.
\<close>

record byte_buffer =
  bb_data :: "cell list"
  bb_len :: nat
  bb_cap :: nat
  bb_pos :: nat

definition byte_buffer_init :: "nat \<Rightarrow> byte_buffer" where
  "byte_buffer_init init_cap =
     \<lparr>bb_data = replicate init_cap None, bb_len = 0, bb_cap = init_cap, bb_pos = 0\<rparr>"

definition bb_seek :: "nat \<Rightarrow> byte_buffer \<Rightarrow> byte_buffer" where
  "bb_seek npos b = b\<lparr>bb_pos := npos\<rparr>"

definition bb_reset :: "byte_buffer \<Rightarrow> byte_buffer" where
  "bb_reset b = b\<lparr>bb_len := 0, bb_pos := 0\<rparr>"

definition bb_extend :: "nat \<Rightarrow> byte_buffer \<Rightarrow> byte_buffer" where
  "bb_extend new_cap b =
     (if bb_cap b \<ge> new_cap then b
      else b\<lparr>bb_data := blit (replicate new_cap None) 0 (take (bb_cap b) (bb_data b)),
             bb_cap := new_cap\<rparr>)"

text \<open>The macro \<open>ENSURE_CAP(N)\<close>.\<close>

definition bb_ensure_cap :: "nat \<Rightarrow> byte_buffer \<Rightarrow> byte_buffer" where
  "bb_ensure_cap n b =
     (if uadd (bb_len b) n > bb_cap b
      then bb_extend (uadd (umul (bb_cap b) 15 div 10) n) b else b)"

text \<open>The body the \<open>put\<close> functions share: store, advance, and raise the length.\<close>

definition bb_store :: "byte list \<Rightarrow> byte_buffer \<Rightarrow> byte_buffer option" where
  "bb_store bs b =
     (if bb_pos b + length bs \<le> length (bb_data b)
      then (let p = uadd (bb_pos b) (length bs)
            in Some (b\<lparr>bb_data := blit (bb_data b) (bb_pos b) (map Some bs), bb_pos := p,
                       bb_len := (if p > bb_len b then p else bb_len b)\<rparr>))
      else None)"

definition bb_put_bytes :: "byte list \<Rightarrow> byte_buffer \<Rightarrow> byte_buffer option" where
  "bb_put_bytes arr b = bb_store arr (bb_ensure_cap (length arr) b)"

definition bb_put_byte :: "byte \<Rightarrow> byte_buffer \<Rightarrow> byte_buffer option" where
  "bb_put_byte val b = bb_store [val] (bb_ensure_cap 1 b)"

definition bb_put_short_le :: "u16 \<Rightarrow> byte_buffer \<Rightarrow> byte_buffer option" where
  "bb_put_short_le val b =
     bb_store [ucast (val AND 0xFF), ucast (drop_bit 8 val)] (bb_ensure_cap 2 b)"

definition bb_put_short_be :: "u16 \<Rightarrow> byte_buffer \<Rightarrow> byte_buffer option" where
  "bb_put_short_be val b =
     bb_store [ucast (drop_bit 8 val), ucast (val AND 0xFF)] (bb_ensure_cap 2 b)"

definition bb_put_int_le :: "u32 \<Rightarrow> byte_buffer \<Rightarrow> byte_buffer option" where
  "bb_put_int_le val b =
     bb_store [ucast (val AND 0xFF), ucast (drop_bit 8 val AND 0xFF),
       ucast (drop_bit 16 val AND 0xFF), ucast (drop_bit 24 val)] (bb_ensure_cap 4 b)"

definition bb_put_int_be :: "u32 \<Rightarrow> byte_buffer \<Rightarrow> byte_buffer option" where
  "bb_put_int_be val b =
     bb_store [ucast (drop_bit 24 val), ucast (drop_bit 16 val AND 0xFF),
       ucast (drop_bit 8 val AND 0xFF), ucast (val AND 0xFF)] (bb_ensure_cap 4 b)"

definition bb_put_long_le :: "u64 \<Rightarrow> byte_buffer \<Rightarrow> byte_buffer option" where
  "bb_put_long_le val b =
     bb_store [ucast (val AND 0xFF), ucast (drop_bit 8 val AND 0xFF),
       ucast (drop_bit 16 val AND 0xFF), ucast (drop_bit 24 val AND 0xFF),
       ucast (drop_bit 32 val AND 0xFF), ucast (drop_bit 40 val AND 0xFF),
       ucast (drop_bit 48 val AND 0xFF), ucast (drop_bit 56 val)] (bb_ensure_cap 8 b)"

definition bb_put_long_be :: "u64 \<Rightarrow> byte_buffer \<Rightarrow> byte_buffer option" where
  "bb_put_long_be val b =
     bb_store [ucast (drop_bit 56 val), ucast (drop_bit 48 val AND 0xFF),
       ucast (drop_bit 40 val AND 0xFF), ucast (drop_bit 32 val AND 0xFF),
       ucast (drop_bit 24 val AND 0xFF), ucast (drop_bit 16 val AND 0xFF),
       ucast (drop_bit 8 val AND 0xFF), ucast (val AND 0xFF)] (bb_ensure_cap 8 b)"

definition bb_put_float_le :: "u32 \<Rightarrow> byte_buffer \<Rightarrow> byte_buffer option" where
  "bb_put_float_le val b = bb_put_int_le val b"

definition bb_put_float_be :: "u32 \<Rightarrow> byte_buffer \<Rightarrow> byte_buffer option" where
  "bb_put_float_be val b = bb_put_int_be val b"

definition bb_put_double_le :: "u64 \<Rightarrow> byte_buffer \<Rightarrow> byte_buffer option" where
  "bb_put_double_le val b = bb_put_long_le val b"

definition bb_put_double_be :: "u64 \<Rightarrow> byte_buffer \<Rightarrow> byte_buffer option" where
  "bb_put_double_be val b = bb_put_long_be val b"

text \<open>Every \<open>put\<close> is \<open>put_bytes\<close> of the encoding of its argument.\<close>

lemma bb_put_encodings:
  "bb_put_byte c b = bb_put_bytes [c] b"
  "bb_put_short_be s b = bb_put_bytes (write_short_be s) b"
  "bb_put_int_be i b = bb_put_bytes (write_int_be i) b"
  "bb_put_long_be l b = bb_put_bytes (write_long_be l) b"
  "bb_put_float_be i b = bb_put_bytes (write_float_be i) b"
  "bb_put_double_be l b = bb_put_bytes (write_double_be l) b"
  "bb_put_short_le s b = bb_put_bytes (write_short_le s) b"
  "bb_put_int_le i b = bb_put_bytes (write_int_le i) b"
  "bb_put_long_le l b = bb_put_bytes (write_long_le l) b"
  by (simp_all add: bb_put_byte_def bb_put_short_be_def bb_put_int_be_def bb_put_long_be_def
      bb_put_float_be_def bb_put_double_be_def bb_put_short_le_def bb_put_int_le_def
      bb_put_long_le_def bb_put_bytes_def write_short_be_def write_int_be_def write_long_be_def
      write_float_be_def write_double_be_def write_short_le_def write_int_le_def
      write_long_le_def ucast_and_FF eval_nat_numeral)

subsection \<open>The contents and the invariant\<close>

definition bb_contents :: "byte_buffer \<Rightarrow> byte list" where
  "bb_contents b = map the (take (bb_len b) (bb_data b))"

definition bb_ok :: "byte_buffer \<Rightarrow> bool" where
  "bb_ok b \<longleftrightarrow> length (bb_data b) = bb_cap b \<and> bb_pos b \<le> bb_len b \<and> bb_len b \<le> bb_cap b
     \<and> bb_cap b < 2 ^ 32 \<and> None \<notin> set (take (bb_len b) (bb_data b))"

definition bb_limit :: nat where
  "bb_limit = 2 ^ 28"

lemma bb_ok_init: "c < 2 ^ 32 \<Longrightarrow> bb_ok (byte_buffer_init c)"
  by (simp add: bb_ok_def byte_buffer_init_def)

lemma bb_contents_init [simp]: "bb_contents (byte_buffer_init c) = []"
  by (simp add: bb_contents_def byte_buffer_init_def)

lemma length_bb_contents: "bb_ok b \<Longrightarrow> length (bb_contents b) = bb_len b"
  by (simp add: bb_contents_def bb_ok_def)

lemma bb_cells: "bb_ok b \<Longrightarrow> take (bb_len b) (bb_data b) = map Some (bb_contents b)"
  unfolding bb_ok_def bb_contents_def map_map comp_def
  by (rule sym, rule map_idI) (metis option.collapse)

lemma bb_ensure_cap_ok:
  assumes "bb_ok b" "bb_len b + n \<le> bb_limit"
  shows "bb_ok (bb_ensure_cap n b) \<and> bb_len b + n \<le> bb_cap (bb_ensure_cap n b)
    \<and> bb_contents (bb_ensure_cap n b) = bb_contents b
    \<and> bb_len (bb_ensure_cap n b) = bb_len b \<and> bb_pos (bb_ensure_cap n b) = bb_pos b"
proof (cases "bb_len b + n > bb_cap b")
  case False
  with assms show ?thesis by (simp add: bb_ensure_cap_def bb_limit_def cpp_arith)
next
  case True
  with assms(2) have cap: "bb_cap b < 2 ^ 28" by (simp add: bb_limit_def)
  let ?c = "bb_cap b * 15 div 10 + n"
  have c: "uadd (umul (bb_cap b) 15 div 10) n = ?c" "?c < 2 ^ 32" "bb_cap b \<le> ?c"
    using cap assms(2) by (simp_all add: cpp_arith bb_limit_def)
  have "bb_len b \<le> bb_cap b" using assms(1) by (simp add: bb_ok_def)
  with c True assms show ?thesis
    by (auto simp: bb_ensure_cap_def bb_extend_def bb_limit_def cpp_arith bb_ok_def
        bb_contents_def blit_def min_def dest: in_set_takeD)
qed

lemma bb_store_ok:
  assumes "bb_ok b" "bb_pos b + length bs \<le> bb_cap b"
  shows "\<exists>b'. bb_store bs b = Some b' \<and> bb_ok b'
    \<and> bb_contents b' = blit (bb_contents b) (bb_pos b) bs \<and> bb_pos b' = bb_pos b + length bs"
proof -
  let ?p = "bb_pos b + length bs"
  let ?d = "blit (bb_data b) (bb_pos b) (map Some bs)"
  let ?l = "if ?p > bb_len b then ?p else bb_len b"
  from assms have len: "length (bb_data b) = bb_cap b" "bb_pos b \<le> bb_len b"
    "bb_len b \<le> bb_cap b" "?p < 2 ^ 32" "bb_cap b < 2 ^ 32"
    by (auto simp: bb_ok_def)
  have "take ?l ?d = blit (take (bb_len b) (bb_data b)) (bb_pos b) (map Some bs)"
    using take_blit_grow [of "bb_pos b" "bb_len b" "bb_data b" "map Some bs"] len assms(2)
    by (simp only: length_map)
  also have "\<dots> = map Some (blit (bb_contents b) (bb_pos b) bs)"
    by (simp add: bb_cells [OF assms(1)] blit_def take_map drop_map)
  finally have cells: "take ?l ?d = map Some (blit (bb_contents b) (bb_pos b) bs)" .
  let ?b = "b\<lparr>bb_data := ?d, bb_pos := ?p, bb_len := ?l\<rparr>"
  have "bb_store bs b = Some ?b"
    using len assms(2) by (simp add: bb_store_def Let_def cpp_arith)
  moreover have "bb_contents ?b = blit (bb_contents b) (bb_pos b) bs"
    by (simp add: bb_contents_def cells comp_def)
  moreover have "bb_ok ?b"
    using len assms(2) cells by (auto simp: bb_ok_def)
  ultimately show ?thesis by auto
qed

interpretation bb: byte_cursor bb_put_bytes bb_contents bb_pos bb_ok bb_limit
proof unfold_locales
  fix b :: byte_buffer and bs :: "byte list"
  show "bb_ok b \<Longrightarrow> bb_pos b \<le> length (bb_contents b)"
    by (simp add: length_bb_contents) (simp add: bb_ok_def)
  assume ok: "bb_ok b" and lim: "length (bb_contents b) + length bs \<le> bb_limit"
  note e = bb_ensure_cap_ok [OF ok lim [unfolded length_bb_contents [OF ok]]]
  moreover from ok have "bb_pos b \<le> bb_len b" by (simp add: bb_ok_def)
  ultimately show "\<exists>b'. bb_put_bytes bs b = Some b' \<and> bb_ok b'
      \<and> bb_contents b' = blit (bb_contents b) (bb_pos b) bs \<and> bb_pos b' = bb_pos b + length bs"
    using bb_store_ok [of "bb_ensure_cap (length bs) b" bs] by (simp add: bb_put_bytes_def)
qed

text \<open>
  C11: while the buffer holds less than \<open>2 ^ 28\<close> bytes, \<open>put_bytes\<close> never writes outside its
  block: it succeeds, keeps the invariant, overwrites exactly the bytes at the position (growing
  the contents when they pass the end) and advances the position.
\<close>

theorem byte_buffer_put_safe:
  assumes "bb_ok b" "bb_len b + length bs \<le> bb_limit"
  shows "\<exists>b'. bb_put_bytes bs b = Some b' \<and> bb_ok b'
    \<and> bb_contents b' = blit (bb_contents b) (bb_pos b) bs \<and> bb_pos b' = bb_pos b + length bs"
  using bb.put_law [of b bs] assms by (simp add: length_bb_contents)

theorem byte_buffer_put_safe_witness:
  "\<exists>b'. bb_put_bytes [1, 2] (byte_buffer_init 1) = Some b' \<and> bb_contents b' = [1, 2]"
proof -
  have "bb_ok (byte_buffer_init 1)" by (simp add: bb_ok_init)
  moreover have "bb_len (byte_buffer_init 1) + length [1, 2 :: byte] \<le> bb_limit"
    by (simp add: byte_buffer_init_def bb_limit_def)
  ultimately show ?thesis
    using byte_buffer_put_safe [of "byte_buffer_init 1" "[1, 2]"]
    by (auto simp: blit_def byte_buffer_init_def bb_contents_def)
qed

end
