(* ===== verification/Blocks.thy ===== *)
theory Blocks
  imports Hc_Prelude
begin

text \<open>
  The block table of \<open>src/world/blocks.cpp\<close> and \<open>include/world/blocks.hpp\<close>. Blast resistances
  are float bit patterns, \<open>char\<close> fields are bytes. An element \<open>{}\<close> of the vector is
  default-constructed; one of the name map is the empty name with id 0.
\<close>

datatype block_state = BS_SOLID | BS_FLUID

record block_info =
  bi_id :: u16
  bi_name :: string
  bi_blast_resistance :: u32
  bi_opacity :: byte
  bi_luminance :: byte
  bi_opaque :: bool
  bi_max_stack :: byte
  bi_state :: block_state

definition BT_INVALID :: u16 where
  "BT_INVALID = 0xFFFF"

definition BT_AIR :: u16 where "BT_AIR = 0"
definition BT_STONE :: u16 where "BT_STONE = 1"
definition BT_GRASS :: u16 where "BT_GRASS = 2"
definition BT_DIRT :: u16 where "BT_DIRT = 3"
definition BT_BEDROCK :: u16 where "BT_BEDROCK = 7"
definition BT_STILL_WATER :: u16 where "BT_STILL_WATER = 9"

text \<open>
  The default constructor leaves \<open>blast_resistance\<close> unset; the model fills it with zero, and
  nothing reads it.
\<close>

definition block_info_default :: block_info where
  "block_info_default = \<lparr>bi_id = BT_INVALID, bi_name = ''invalid'', bi_blast_resistance = 0,
     bi_opacity = 15, bi_luminance = 0, bi_opaque = True, bi_max_stack = 0, bi_state = BS_SOLID\<rparr>"

definition block_info_make ::
  "u16 \<Rightarrow> string \<Rightarrow> u32 \<Rightarrow> byte \<Rightarrow> byte \<Rightarrow> bool \<Rightarrow> byte \<Rightarrow> block_state \<Rightarrow> block_info" where
  "block_info_make id' name blast opacity luminance opaque max_stack state =
     \<lparr>bi_id = id', bi_name = name, bi_blast_resistance = blast, bi_opacity = opacity,
      bi_luminance = luminance, bi_opaque = opaque, bi_max_stack = max_stack, bi_state = state\<rparr>"

definition block_list_low :: "block_info list" where
  "block_list_low = [
     block_info_make 0x00 ''air'' 0x00000000 0 0 False 64 BS_SOLID,
     block_info_make 0x01 ''stone'' 0x41F00000 15 0 True 64 BS_SOLID,
     block_info_make 0x02 ''grass'' 0x40400000 15 0 True 64 BS_SOLID,
     block_info_make 0x03 ''dirt'' 0x40200000 15 0 True 64 BS_SOLID,
     block_info_make 0x04 ''cobble'' 0x41F00000 15 0 True 64 BS_SOLID,
     block_info_make 0x05 ''wood'' 0x41700000 15 0 True 64 BS_SOLID,
     block_info_make 0x06 ''sapling'' 0x00000000 0 0 False 64 BS_SOLID,
     block_info_make 0x07 ''bedrock'' 0x4B895440 15 0 True 64 BS_SOLID,
     block_info_make 0x08 ''water'' 0x43FA0000 3 0 True 64 BS_FLUID,
     block_info_make 0x09 ''still-water'' 0x43FA0000 3 0 True 64 BS_FLUID,
     block_info_make 0x0A ''lava'' 0x00000000 0 15 False 64 BS_FLUID,
     block_info_make 0x0B ''still-lava'' 0x43FA0000 0 15 False 64 BS_FLUID,
     block_info_make 0x0C ''sand'' 0x40200000 15 0 True 64 BS_SOLID,
     block_info_make 0x0D ''gravel'' 0x40400000 15 0 True 64 BS_SOLID,
     block_info_make 0x0E ''gold-ore'' 0x41700000 15 0 True 64 BS_SOLID,
     block_info_make 0x0F ''iron-ore'' 0x41700000 15 0 True 64 BS_SOLID,
     block_info_make 0x10 ''coal-ore'' 0x41700000 15 0 True 64 BS_SOLID,
     block_info_make 0x11 ''trunk'' 0x41200000 15 0 True 64 BS_SOLID,
     block_info_make 0x12 ''leaves'' 0x3F800000 1 0 True 64 BS_SOLID,
     block_info_make 0x13 ''sponge'' 0x40400000 15 0 True 64 BS_SOLID,
     block_info_make 0x14 ''glass'' 0x3FC00000 0 0 False 64 BS_SOLID,
     block_info_make 0x15 ''lapis-ore'' 0x41700000 15 0 True 64 BS_SOLID,
     block_info_make 0x16 ''lapis-block'' 0x41700000 15 0 True 64 BS_SOLID,
     block_info_make 0x17 ''dispenser'' 0x418C0000 15 0 True 64 BS_SOLID,
     block_info_make 0x18 ''sandstone'' 0x40800000 15 0 True 64 BS_SOLID,
     block_info_make 0x19 ''note-block'' 0x40800000 15 0 True 64 BS_SOLID,
     block_info_make 0x1A ''bed'' 0x3F800000 0 0 False 64 BS_SOLID,
     block_info_make 0x1B ''powered-rail'' 0x40600000 0 0 False 64 BS_SOLID,
     block_info_make 0x1C ''detector-rail'' 0x40600000 0 0 False 64 BS_SOLID,
     block_info_make 0x1D ''sticky-piston'' 0x40200000 0 0 True 64 BS_SOLID,
     block_info_make 0x1E ''cobweb'' 0x41A00000 0 0 False 64 BS_SOLID,
     block_info_make 0x1F ''tall-grass'' 0x00000000 0 0 False 64 BS_SOLID,
     block_info_make 0x20 ''dead-bush'' 0x00000000 0 0 False 64 BS_SOLID,
     block_info_make 0x21 ''piston'' 0x40200000 0 0 True 64 BS_SOLID,
     block_info_make 0x22 ''piston-extension'' 0x40200000 0 0 False 64 BS_SOLID,
     block_info_make 0x23 ''wool'' 0x40800000 15 0 True 64 BS_SOLID,
     block_info_make 0x24 ''piston-move'' 0x00000000 0 0 False 64 BS_SOLID,
     block_info_make 0x25 ''dandelion'' 0x00000000 0 0 False 64 BS_SOLID,
     block_info_make 0x26 ''rose'' 0x00000000 0 0 False 64 BS_SOLID,
     block_info_make 0x27 ''brown-mushroom'' 0x00000000 0 0 False 64 BS_SOLID,
     block_info_make 0x28 ''red-mushroom'' 0x00000000 0 0 False 64 BS_SOLID,
     block_info_make 0x29 ''gold-block'' 0x41F00000 15 0 True 64 BS_SOLID,
     block_info_make 0x2A ''iron-block'' 0x41F00000 15 0 True 64 BS_SOLID,
     block_info_make 0x2B ''dslab'' 0x41F00000 15 0 True 64 BS_SOLID,
     block_info_make 0x2C ''slab'' 0x41F00000 15 0 True 64 BS_SOLID,
     block_info_make 0x2D ''bricks'' 0x41F00000 15 0 True 64 BS_SOLID,
     block_info_make 0x2E ''tnt'' 0x00000000 15 0 True 64 BS_SOLID,
     block_info_make 0x2F ''bookshelf'' 0x40F00000 15 0 True 64 BS_SOLID,
     block_info_make 0x30 ''mossy-cobble'' 0x41F00000 15 0 True 64 BS_SOLID,
     block_info_make 0x31 ''obsidian'' 0x45BB8000 15 0 True 64 BS_SOLID,
     block_info_make 0x32 ''torch'' 0x00000000 0 14 False 64 BS_SOLID,
     block_info_make 0x33 ''fire'' 0x00000000 0 15 False 64 BS_SOLID,
     block_info_make 0x34 ''monster-spawner'' 0x41C80000 15 0 False 64 BS_SOLID,
     block_info_make 0x35 ''stairs'' 0x41F00000 15 0 True 64 BS_SOLID,
     block_info_make 0x36 ''chest'' 0x41480000 15 0 False 64 BS_SOLID,
     block_info_make 0x37 ''redstone-wire'' 0x00000000 0 0 False 64 BS_SOLID,
     block_info_make 0x38 ''diamond-ore'' 0x41700000 15 0 True 64 BS_SOLID,
     block_info_make 0x39 ''diamond-block'' 0x41F00000 15 0 True 64 BS_SOLID,
     block_info_make 0x3A ''workbench'' 0x41480000 15 0 True 64 BS_SOLID,
     block_info_make 0x3B ''wheat-block'' 0x00000000 0 0 False 64 BS_SOLID,
     block_info_make 0x3C ''farmland'' 0x40400000 15 0 True 64 BS_SOLID,
     block_info_make 0x3D ''furnace'' 0x418C0000 15 0 True 64 BS_SOLID,
     block_info_make 0x3E ''burning-furnace'' 0x418C0000 15 13 True 64 BS_SOLID,
     block_info_make 0x3F ''sign-post'' 0x40A00000 0 0 False 16 BS_SOLID,
     block_info_make 0x40 ''wooden-door'' 0x41700000 0 0 False 1 BS_SOLID,
     block_info_make 0x41 ''ladder'' 0x40000000 0 0 False 64 BS_SOLID,
     block_info_make 0x42 ''rail'' 0x40600000 0 0 False 64 BS_SOLID,
     block_info_make 0x43 ''cobble-stairs'' 0x41F00000 15 0 True 64 BS_SOLID,
     block_info_make 0x44 ''wall-sign'' 0x40A00000 0 0 False 16 BS_SOLID,
     block_info_make 0x45 ''lever'' 0x40200000 0 0 False 64 BS_SOLID,
     block_info_make 0x46 ''stone-pressure-plate'' 0x40200000 0 0 False 64 BS_SOLID,
     block_info_make 0x47 ''wooden-door'' 0x41C80000 0 0 True 0 BS_SOLID,
     block_info_make 0x48 ''wooden-pressure-plate'' 0x40200000 0 0 False 64 BS_SOLID,
     block_info_make 0x49 ''redstone-ore'' 0x41700000 15 0 True 64 BS_SOLID,
     block_info_make 0x4A ''glowing-redstone-ore'' 0x41700000 15 9 True 64 BS_SOLID,
     block_info_make 0x4B ''inactive-redstone-torch'' 0x00000000 0 0 False 64 BS_SOLID,
     block_info_make 0x4C ''redstone-torch'' 0x00000000 0 7 False 64 BS_SOLID,
     block_info_make 0x4D ''stone-button'' 0x40200000 0 0 False 64 BS_SOLID,
     block_info_make 0x4E ''snow-cover'' 0x3F000000 15 0 False 64 BS_SOLID,
     block_info_make 0x4F ''ice'' 0x40200000 15 0 True 64 BS_SOLID,
     block_info_make 0x50 ''snow-block'' 0x3F800000 15 0 True 64 BS_SOLID,
     block_info_make 0x51 ''cactus'' 0x40000000 0 0 False 64 BS_SOLID,
     block_info_make 0x52 ''clay-block'' 0x40400000 15 0 True 64 BS_SOLID,
     block_info_make 0x53 ''sugar-cane'' 0x00000000 0 0 False 64 BS_SOLID,
     block_info_make 0x54 ''jukebox'' 0x41F00000 15 0 True 64 BS_SOLID,
     block_info_make 0x55 ''fence'' 0x41700000 0 0 False 64 BS_SOLID,
     block_info_make 0x56 ''pumpkin'' 0x40A00000 15 0 True 64 BS_SOLID,
     block_info_make 0x57 ''netherrack'' 0x40000000 15 0 True 64 BS_SOLID,
     block_info_make 0x58 ''soulsand'' 0x40200000 15 0 True 64 BS_SOLID,
     block_info_make 0x59 ''glowstone'' 0x3FC00000 15 15 True 64 BS_SOLID]"

definition block_list_high :: "block_info list" where
  "block_list_high = [
     block_info_make 0x5A ''nether-portal'' 0x00000000 0 11 False 64 BS_SOLID,
     block_info_make 0x5B ''jack-o-lantern'' 0x41700000 15 15 True 64 BS_SOLID,
     block_info_make 0x5C ''cake-block'' 0x40200000 0 0 True 64 BS_SOLID,
     block_info_make 0x5D ''redstone-repeater'' 0x00000000 15 0 True 64 BS_SOLID,
     block_info_make 0x5E ''redstone-repeater-on'' 0x00000000 15 9 True 64 BS_SOLID,
     block_info_make 0x5F ''stained-glass'' 0x3FC00000 0 0 True 64 BS_SOLID,
     block_info_make 0x60 ''trapdoor'' 0x41700000 0 0 True 64 BS_SOLID,
     block_info_make 0x61 ''monster-egg'' 0x40700000 15 0 True 64 BS_SOLID,
     block_info_make 0x62 ''stone-brick'' 0x41F00000 15 0 True 64 BS_SOLID,
     block_info_make 0x63 ''huge-brown-mushroom'' 0x3F800000 15 0 True 64 BS_SOLID,
     block_info_make 0x64 ''huge-red-mushroom'' 0x3F800000 15 0 True 64 BS_SOLID,
     block_info_make 0x65 ''iron-bars'' 0x41F00000 0 0 True 64 BS_SOLID,
     block_info_make 0x66 ''glass-pane'' 0x3FC00000 0 0 True 64 BS_SOLID,
     block_info_make 0x67 ''melon-block'' 0x40A00000 15 0 True 64 BS_SOLID,
     block_info_make 0x68 ''pumpkin-stem'' 0x00000000 0 0 True 64 BS_SOLID,
     block_info_make 0x69 ''melon-stem'' 0x00000000 0 0 True 64 BS_SOLID,
     block_info_make 0x6A ''vines'' 0x3F800000 0 0 True 64 BS_SOLID,
     block_info_make 0x6B ''fence-gate'' 0x41700000 0 0 True 64 BS_SOLID,
     block_info_make 0x6C ''brick-stairs'' 0x41F00000 15 0 True 64 BS_SOLID,
     block_info_make 0x6D ''stone-brick-stairs'' 0x41F00000 15 0 True 64 BS_SOLID,
     block_info_make 0x6E ''mycelium'' 0x40200000 15 0 True 64 BS_SOLID,
     block_info_make 0x6F ''lily-pad'' 0x00000000 0 0 True 64 BS_SOLID,
     block_info_make 0x70 ''nether-brick'' 0x41F00000 15 0 True 64 BS_SOLID,
     block_info_make 0x71 ''nether-brick-fence'' 0x41F00000 0 0 True 64 BS_SOLID,
     block_info_make 0x72 ''nether-brick-stairs'' 0x41F00000 15 0 True 64 BS_SOLID,
     block_info_make 0x73 ''nether-wart'' 0x00000000 0 0 True 64 BS_SOLID,
     block_info_make 0x74 ''enchantment-table'' 0x45BB8000 0 0 True 64 BS_SOLID,
     block_info_make 0x75 ''brewing-stand'' 0x40200000 0 0 True 64 BS_SOLID,
     block_info_make 0x76 ''cauldron'' 0x41200000 0 0 True 64 BS_SOLID,
     block_info_make 0x77 ''end-portal'' 0x4B895440 0 15 True 64 BS_SOLID,
     block_info_make 0x78 ''end-portal-block'' 0x4B895440 15 1 True 64 BS_SOLID,
     block_info_make 0x79 ''endstone'' 0x42340000 15 0 True 64 BS_SOLID,
     block_info_make 0x7A ''dragon-egg'' 0x42340000 0 1 True 64 BS_SOLID,
     block_info_make 0x7B ''redstone-lamp'' 0x3FC00000 15 0 True 64 BS_SOLID,
     block_info_make 0x7C ''redstone-lamp-on'' 0x3FC00000 15 15 True 64 BS_SOLID,
     block_info_make 0x7D ''wooden-dslab'' 0x41F00000 15 0 True 64 BS_SOLID,
     block_info_make 0x7E ''wooden-slab'' 0x41700000 15 0 True 64 BS_SOLID,
     block_info_make 0x7F ''cocoa-block'' 0x41700000 0 0 True 64 BS_SOLID,
     block_info_make 0x80 ''sandstone-stairs'' 0x41F00000 15 0 True 64 BS_SOLID,
     block_info_make 0x81 ''emerald-ore'' 0x41700000 15 0 True 64 BS_SOLID,
     block_info_make 0x82 ''ender-chest'' 0x453B8000 0 7 True 64 BS_SOLID,
     block_info_make 0x83 ''tripwire-hook'' 0x40200000 0 0 True 64 BS_SOLID,
     block_info_make 0x84 ''tripwire'' 0x00000000 0 0 True 64 BS_SOLID,
     block_info_make 0x85 ''emerald-block'' 0x41F00000 15 0 True 64 BS_SOLID,
     block_info_make 0x86 ''spruce-stairs'' 0x41700000 15 0 True 64 BS_SOLID,
     block_info_make 0x87 ''birch-stairs'' 0x41700000 15 0 True 64 BS_SOLID,
     block_info_make 0x88 ''jungle-stairs'' 0x41700000 15 0 True 64 BS_SOLID,
     block_info_make 0x89 ''command-block'' 0x41F00000 15 0 True 64 BS_SOLID,
     block_info_make 0x8A ''beacon'' 0x41700000 0 15 True 64 BS_SOLID,
     block_info_make 0x8B ''cobble-wall'' 0x41F00000 0 0 True 64 BS_SOLID,
     block_info_make 0x8C ''flower-pot'' 0x00000000 0 0 True 64 BS_SOLID,
     block_info_make 0x8D ''carrot-block'' 0x00000000 0 0 True 64 BS_SOLID,
     block_info_make 0x8E ''potato-block'' 0x00000000 0 0 True 64 BS_SOLID,
     block_info_make 0x8F ''wooden-button'' 0x40200000 0 0 True 64 BS_SOLID,
     block_info_make 0x90 ''mob-head'' 0x40A00000 0 0 True 64 BS_SOLID,
     block_info_make 0x91 ''anvil'' 0x45BB8000 0 0 True 64 BS_SOLID,
     block_info_make 0x92 ''trapped-chest'' 0x41480000 0 0 True 64 BS_SOLID,
     block_info_make 0x93 ''light-weighted-pressure-plate'' 0x40200000 0 0 True 64 BS_SOLID,
     block_info_make 0x94 ''heavy-weighted-pressure-plate'' 0x40200000 0 0 True 64 BS_SOLID,
     block_info_make 0x95 ''redstone-comparator'' 0x00000000 0 0 True 64 BS_SOLID,
     block_info_make 0x96 ''redstone-comparator-on'' 0x00000000 0 9 True 64 BS_SOLID,
     block_info_make 0x97 ''daylight-sensor'' 0x3F800000 0 0 True 64 BS_SOLID,
     block_info_make 0x98 ''redstone-block'' 0x41F00000 15 0 True 64 BS_SOLID,
     block_info_make 0x99 ''quartz-ore'' 0x41700000 15 0 True 64 BS_SOLID,
     block_info_make 0x9A ''hopper'' 0x41700000 0 0 True 64 BS_SOLID,
     block_info_make 0x9B ''quartz-block'' 0x40800000 15 0 True 64 BS_SOLID,
     block_info_make 0x9C ''quartz-stairs'' 0x41F00000 15 0 True 64 BS_SOLID,
     block_info_make 0x9D ''activator-rail'' 0x40600000 0 0 True 64 BS_SOLID,
     block_info_make 0x9E ''dropper'' 0x41F00000 15 0 True 64 BS_SOLID,
     block_info_make 0x9F ''stained-clay'' 0x41F00000 15 0 True 64 BS_SOLID,
     block_info_make 0xA0 ''stained-glass-pane'' 0x3FC00000 0 0 True 64 BS_SOLID,
     block_info_make 0xA1 ''leaves2'' 0x3F800000 1 0 True 64 BS_SOLID,
     block_info_make 0xA2 ''trunk2'' 0x41200000 15 0 True 64 BS_SOLID,
     block_info_make 0xA3 ''acacia-stairs'' 0x41F00000 15 0 True 64 BS_SOLID,
     block_info_make 0xA4 ''dark-oak-stairs'' 0x41F00000 15 0 True 64 BS_SOLID,
     block_info_default,
     block_info_default,
     block_info_default,
     block_info_default,
     block_info_default,
     block_info_make 0xAA ''hay-bale'' 0x41200000 15 0 True 64 BS_SOLID,
     block_info_make 0xAB ''carpet'' 0x00000000 0 0 True 64 BS_SOLID,
     block_info_make 0xAC ''hardened-clay'' 0x41F00000 15 0 True 64 BS_SOLID,
     block_info_make 0xAD ''coal-block'' 0x41F00000 15 0 True 64 BS_SOLID,
     block_info_make 0xAE ''packed-ice'' 0x41200000 15 0 True 64 BS_SOLID]"

definition block_list :: "block_info list" where
  "block_list = block_list_low @ block_list_high"

definition name_map_low :: "(string \<times> u16) list" where
  "name_map_low = [
     (''air'', 0x00),
     (''stone'', 0x01),
     (''grass'', 0x02),
     (''dirt'', 0x03),
     (''cobble'', 0x04),
     (''wood'', 0x05),
     (''sapling'', 0x06),
     (''bedrock'', 0x07),
     (''water'', 0x08),
     (''still-water'', 0x09),
     (''lava'', 0x0A),
     (''still-lava'', 0x0B),
     (''sand'', 0x0C),
     (''gravel'', 0x0D),
     (''gold-ore'', 0x0E),
     (''iron-ore'', 0x0F),
     (''coal-ore'', 0x10),
     (''trunk'', 0x11),
     (''leaves'', 0x12),
     (''sponge'', 0x13),
     (''glass'', 0x14),
     (''lapis-ore'', 0x15),
     (''lapis-block'', 0x16),
     (''dispenser'', 0x17),
     (''sandstone'', 0x18),
     (''note-block'', 0x19),
     (''bed'', 0x1A),
     (''powered-rail'', 0x1B),
     (''detector-rail'', 0x1C),
     (''sticky-piston'', 0x1D),
     (''cobweb'', 0x1E),
     (''tall-grass'', 0x1F),
     (''dead-bush'', 0x20),
     (''piston'', 0x21),
     (''piston-extension'', 0x22),
     (''wool'', 0x23),
     (''piston-move'', 0x24),
     (''dandelion'', 0x25),
     (''rose'', 0x26),
     (''brown-mushroom'', 0x27),
     (''red-mushroom'', 0x28),
     (''gold-block'', 0x29),
     (''iron-block'', 0x2A),
     (''dslab'', 0x2B),
     (''slab'', 0x2C),
     (''bricks'', 0x2D),
     (''tnt'', 0x2E),
     (''bookshelf'', 0x2F),
     (''mossy-cobble'', 0x30),
     (''obsidian'', 0x31),
     (''torch'', 0x32),
     (''fire'', 0x33),
     (''monster-spawner'', 0x34),
     (''stairs'', 0x35),
     (''chest'', 0x36),
     (''redstone-wire'', 0x37),
     (''diamond-ore'', 0x38),
     (''diamond-block'', 0x39),
     (''workbench'', 0x3A),
     (''wheat-block'', 0x3B),
     (''farmland'', 0x3C),
     (''furnace'', 0x3D),
     (''burning-furnace'', 0x3E),
     (''sign-post'', 0x3F),
     (''wooden-door'', 0x40),
     (''ladder'', 0x41),
     (''rail'', 0x42),
     (''cobble-stairs'', 0x43),
     (''wall-sign'', 0x44),
     (''lever'', 0x45),
     (''stone-pressure-plate'', 0x46),
     (''iron-door'', 0x47),
     (''wooden-pressure-plate'', 0x48),
     (''redstone-ore'', 0x49),
     (''glowing-redstone-ore'', 0x4A),
     (''inactive-redstone-torch'', 0x4B),
     (''redstone-torch'', 0x4C),
     (''stone-button'', 0x4D),
     (''snow-cover'', 0x4E),
     (''ice'', 0x4F),
     (''snow-block'', 0x50),
     (''cactus'', 0x51),
     (''clay-block'', 0x52),
     (''sugar-cane'', 0x53),
     (''jukebox'', 0x54),
     (''fence'', 0x55),
     (''pumpkin'', 0x56),
     (''netherrack'', 0x57),
     (''soulsand'', 0x58),
     (''glowstone'', 0x59)]"

definition name_map_high :: "(string \<times> u16) list" where
  "name_map_high = [
     (''nether-portal'', 0x5A),
     (''jack-o-lantern'', 0x5B),
     (''cake-block'', 0x5C),
     (''redstone-repeater'', 0x5D),
     (''redstone-repeater-on'', 0x5E),
     (''stained-glass'', 0x5F),
     (''trapdoor'', 0x60),
     (''mosnter-egg'', 0x61),
     (''stone-bricks'', 0x62),
     (''huge-brown-mushroom'', 0x63),
     (''huge-red-mushroom'', 0x64),
     (''iron-bars'', 0x65),
     (''glass-pane'', 0x66),
     (''melon-block'', 0x67),
     (''pumpkin-stem'', 0x68),
     (''melon-stem'', 0x69),
     (''vines'', 0x6A),
     (''fence-gate'', 0x6B),
     (''brick-stairs'', 0x6C),
     (''stone-brick-stairs'', 0x6D),
     (''mycelium'', 0x6E),
     (''lily-pad'', 0x6F),
     (''nether-brick'', 0x70),
     (''nether-brick-fence'', 0x71),
     (''nether-brick-stairs'', 0x72),
     (''nether-wart'', 0x73),
     (''enchantment-table'', 0x74),
     (''brewing-stand'', 0x75),
     (''cauldron'', 0x76),
     (''end-portal'', 0x77),
     (''end-porta-block'', 0x78),
     (''endstone'', 0x79),
     (''dragon-egg'', 0x7A),
     (''redstone-lamp'', 0x7B),
     (''redstone-lamp-on'', 0x7C),
     (''wooden-dslab'', 0x7D),
     (''wooden-slab'', 0x7E),
     (''cocoa-block'', 0x7F),
     (''sandstone-stairs'', 0x80),
     (''emerald-ore'', 0x81),
     (''ender-chest'', 0x82),
     (''tripwire-hook'', 0x83),
     (''tripwire'', 0x84),
     (''emerald-block'', 0x85),
     (''spruce-stairs'', 0x86),
     (''birch-stairs'', 0x87),
     (''jungle-stairs'', 0x88),
     (''command-block'', 0x89),
     (''beacon'', 0x8A),
     (''cobble-wall'', 0x8B),
     (''flower-pot'', 0x8C),
     (''carrot-block'', 0x8D),
     (''potato-block'', 0x8E),
     (''wooden-button'', 0x8F),
     (''mob-head'', 0x90),
     (''anvil'', 0x91),
     (''trapped-chest'', 0x92),
     (''light-weighted-pressure-plate'', 0x93),
     (''heavy-weighted-pressure-plate'', 0x94),
     (''redstone-comparator'', 0x95),
     (''redstone-comparator-on'', 0x96),
     (''daylight-sensor'', 0x97),
     (''redstone-block'', 0x98),
     (''quartz-ore'', 0x99),
     (''hopper'', 0x9A),
     (''quartz-block'', 0x9B),
     (''quartz-stairs'', 0x9C),
     (''activator-rail'', 0x9D),
     (''dropper'', 0x9E),
     (''stained-clay'', 0x9F),
     (''stained-glass-pane'', 0xA0),
     (''leaves2'', 0xA1),
     (''trunk2'', 0xA2),
     (''acacia-stairs'', 0xA3),
     (''dark-oak-stairs'', 0xA4),
     ('''', 0),
     ('''', 0),
     ('''', 0),
     ('''', 0),
     ('''', 0),
     (''hay-block'', 0xAA),
     (''carpet'', 0xAB),
     (''hardened-clay'', 0xAC),
     (''coal-block'', 0xAD),
     (''packed-ice'', 0xAE)]"

definition name_map :: "(string \<times> u16) list" where
  "name_map = name_map_low @ name_map_high"

definition block_from_id :: "u16 \<Rightarrow> block_info option" where
  "block_from_id id' =
     (if unat id' \<ge> length block_list then None
      else let binf = block_list ! unat id'
           in if bi_id binf = BT_INVALID then None else Some binf)"

fun rows_right :: "u16 \<Rightarrow> block_info list \<Rightarrow> bool" where
  "rows_right i [] = True"
| "rows_right i (b # bs) = ((bi_id b = BT_INVALID \<or> bi_id b = i \<and> length (bi_name b) \<le> 32) \<and> rows_right (i + 1) bs)"

lemma rows_right_append:
  "rows_right i (xs @ ys) \<longleftrightarrow> rows_right i xs \<and> rows_right (i + of_nat (length xs)) ys"
  by (induction i xs rule: rows_right.induct) (simp_all add: algebra_simps)

lemma block_lists_right:
  "length block_list_low = 90" "length block_list_high = 85"
  "rows_right 0 block_list_low" "rows_right 90 block_list_high"
  by code_simp+

lemma length_block_list: "length block_list = 175"
  by (simp add: block_list_def block_lists_right)

lemma rows_right_nth:
  "rows_right i bs \<Longrightarrow> k < length bs \<Longrightarrow>
   bi_id (bs ! k) = BT_INVALID \<or> bi_id (bs ! k) = i + of_nat k \<and> length (bi_name (bs ! k)) \<le> 32"
proof (induction i bs arbitrary: k rule: rows_right.induct)
  case (2 i b bs)
  then show ?case by (cases k) (auto simp: algebra_simps)
qed simp

lemma block_list_ids:
  "i < 175 \<Longrightarrow> bi_id (block_list ! i) = BT_INVALID \<or>
     bi_id (block_list ! i) = of_nat i \<and> length (bi_name (block_list ! i)) \<le> 32"
  using rows_right_nth [of 0 block_list i]
  by (simp add: length_block_list) (simp add: block_list_def rows_right_append block_lists_right)

text \<open>
  The information found for an id is that of the block with this id, and its name fits the
  33 characters of the field it was copied into.
\<close>

theorem block_from_id_sound:
  assumes "block_from_id i = Some b"
  shows "bi_id b = i \<and> length (bi_name b) \<le> 32 \<and> unat i < 175"
proof -
  from assms have i: "unat i < 175" and b: "b = block_list ! unat i" "bi_id b \<noteq> BT_INVALID"
    by (auto simp: block_from_id_def length_block_list Let_def split: if_splits)
  with block_list_ids [OF i] have "bi_id b = of_nat (unat i) \<and> length (bi_name b) \<le> 32"
    by auto
  with i show ?thesis by simp
qed

theorem block_from_id_sound_witness: "bi_id (block_list ! 2) = 2"
proof -
  have "block_from_id 2 = Some (block_list ! 2)" by code_simp
  from block_from_id_sound [OF this] show ?thesis by simp
qed

text \<open>
  The entry of the iron door (0x47) is a second wooden door whose arguments are shifted: it
  is opaque and stacks to 0, unlike the wooden door 0x40; and the name map resolves the name
  \<open>hay-block\<close> that no block has, but not \<open>hay-bale\<close>.
\<close>

theorem block_table_slips:
  "bi_name (block_list ! 0x47) = bi_name (block_list ! 0x40)
   \<and> bi_opaque (block_list ! 0x47) \<and> bi_max_stack (block_list ! 0x47) = 0
   \<and> \<not> bi_opaque (block_list ! 0x40)
   \<and> bi_name (block_list ! 0xAA) = ''hay-bale'' \<and> map_of name_map ''hay-bale'' = None
   \<and> map_of name_map ''hay-block'' = Some 0xAA"
  by code_simp

end
