(* ===== verification/Position.thy ===== *)
theory Position
  imports Hc_Prelude
begin

text \<open>
  Block, chunk and entity positions: \<open>src/util/position.cpp\<close>. Integers are 32-bit words read as
  signed; \<open>>> 4\<close> is the arithmetic shift. Doubles are their IEEE 754 bit patterns, with the two
  conversions the code uses written out on them.
\<close>

subsection \<open>Conversions between int and double\<close>

text \<open>
  \<open>(int)(d * 2 ^ s)\<close>: the product only raises the exponent, and the conversion drops the
  fraction. The result is undefined (\<open>None\<close>) when it does not fit an \<open>int\<close>.
\<close>

definition double_trunc :: "nat \<Rightarrow> u64 \<Rightarrow> u32 option" where
  "double_trunc s d =
     (let e = uint (drop_bit 52 d AND 0x7FF) + int s - 1023;
          m = uint (d AND 0xFFFFFFFFFFFFF) + 2 ^ 52
      in if e < 0 then Some 0
         else if e > 31 then None
         else let n = m div 2 ^ (52 - nat e);
                  v = (if bit d 63 then - n else n)
              in if - (2 ^ 31) \<le> v \<and> v < 2 ^ 31 then Some (word_of_int v) else None)"

text \<open>\<open>(double)i\<close> for an integer of less than 53 bits: exact.\<close>

fun top_bit :: "nat \<Rightarrow> nat" where
  "top_bit n = (if n \<le> 1 then 0 else Suc (top_bit (n div 2)))"

declare top_bit.simps [simp del]

definition double_of_int :: "int \<Rightarrow> u64" where
  "double_of_int i =
     (if i = 0 then 0
      else let n = nat (abs i); k = top_bit n
           in (if i < 0 then 0x8000000000000000 else 0)
              OR of_nat ((1023 + k) * 2 ^ 52 + (n - 2 ^ k) * 2 ^ (52 - k)))"

subsection \<open>Positions\<close>

record block_pos =
  bp_x :: u32
  bp_y :: u32
  bp_z :: u32

record chunk_pos =
  cp_x :: u32
  cp_z :: u32

record entity_pos =
  ep_x :: u64
  ep_y :: u64
  ep_z :: u64
  ep_yaw :: u32
  ep_pitch :: u32
  ep_on_ground :: bool

record vector3 =
  v3_x :: u64
  v3_y :: u64
  v3_z :: u64

definition block_pos_make :: "u32 \<Rightarrow> u32 \<Rightarrow> u32 \<Rightarrow> block_pos" where
  "block_pos_make x y z = \<lparr>bp_x = x, bp_y = y, bp_z = z\<rparr>"

definition block_pos_zero :: block_pos where
  "block_pos_zero = \<lparr>bp_x = 0, bp_y = 0, bp_z = 0\<rparr>"

definition block_pos_of_chunk :: "chunk_pos \<Rightarrow> block_pos" where
  "block_pos_of_chunk pos = \<lparr>bp_x = push_bit 4 (cp_x pos), bp_y = 0, bp_z = push_bit 4 (cp_z pos)\<rparr>"

definition block_pos_of_block :: "block_pos \<Rightarrow> block_pos" where
  "block_pos_of_block pos = \<lparr>bp_x = bp_x pos, bp_y = bp_y pos, bp_z = bp_z pos\<rparr>"

definition block_pos_of_entity :: "entity_pos \<Rightarrow> block_pos option" where
  "block_pos_of_entity pos =
     (case (double_trunc 0 (ep_x pos), double_trunc 0 (ep_y pos), double_trunc 0 (ep_z pos)) of
        (Some x, Some y, Some z) \<Rightarrow> Some \<lparr>bp_x = x, bp_y = y, bp_z = z\<rparr>
      | _ \<Rightarrow> None)"

definition block_pos_eq :: "block_pos \<Rightarrow> block_pos \<Rightarrow> bool" where
  "block_pos_eq a b \<longleftrightarrow> bp_x a = bp_x b \<and> bp_y a = bp_y b \<and> bp_z a = bp_z b"

definition chunk_pos_make :: "u32 \<Rightarrow> u32 \<Rightarrow> chunk_pos" where
  "chunk_pos_make x z = \<lparr>cp_x = x, cp_z = z\<rparr>"

definition chunk_pos_zero :: chunk_pos where
  "chunk_pos_zero = \<lparr>cp_x = 0, cp_z = 0\<rparr>"

definition chunk_pos_of_chunk :: "chunk_pos \<Rightarrow> chunk_pos" where
  "chunk_pos_of_chunk pos = \<lparr>cp_x = cp_x pos, cp_z = cp_z pos\<rparr>"

definition chunk_pos_of_block :: "block_pos \<Rightarrow> chunk_pos" where
  "chunk_pos_of_block pos =
     \<lparr>cp_x = signed_drop_bit 4 (bp_x pos), cp_z = signed_drop_bit 4 (bp_z pos)\<rparr>"

definition chunk_pos_of_entity :: "entity_pos \<Rightarrow> chunk_pos option" where
  "chunk_pos_of_entity pos =
     (case (double_trunc 0 (ep_x pos), double_trunc 0 (ep_z pos)) of
        (Some x, Some z) \<Rightarrow> Some \<lparr>cp_x = signed_drop_bit 4 x, cp_z = signed_drop_bit 4 z\<rparr>
      | _ \<Rightarrow> None)"

definition chunk_pos_eq :: "chunk_pos \<Rightarrow> chunk_pos \<Rightarrow> bool" where
  "chunk_pos_eq a b \<longleftrightarrow> cp_x a = cp_x b \<and> cp_z a = cp_z b"

definition chunk_pos_ne :: "chunk_pos \<Rightarrow> chunk_pos \<Rightarrow> bool" where
  "chunk_pos_ne a b \<longleftrightarrow> \<not> chunk_pos_eq a b"

definition entity_pos_of_chunk :: "chunk_pos \<Rightarrow> entity_pos" where
  "entity_pos_of_chunk pos =
     \<lparr>ep_x = double_of_int (sint (cp_x pos) * 16), ep_y = 0, ep_z = double_of_int (sint (cp_z pos) * 16),
      ep_yaw = 0, ep_pitch = 0, ep_on_ground = False\<rparr>"

definition entity_pos_of_block :: "block_pos \<Rightarrow> entity_pos" where
  "entity_pos_of_block pos =
     \<lparr>ep_x = double_of_int (sint (bp_x pos)), ep_y = double_of_int (sint (bp_y pos)),
      ep_z = double_of_int (sint (bp_z pos)), ep_yaw = 0, ep_pitch = 0, ep_on_ground = False\<rparr>"

definition entity_pos_of_entity :: "entity_pos \<Rightarrow> entity_pos" where
  "entity_pos_of_entity pos =
     \<lparr>ep_x = ep_x pos, ep_y = ep_y pos, ep_z = ep_z pos, ep_yaw = ep_yaw pos,
      ep_pitch = ep_pitch pos, ep_on_ground = ep_on_ground pos\<rparr>"

definition entity_pos_make :: "u64 \<Rightarrow> u64 \<Rightarrow> u64 \<Rightarrow> u32 \<Rightarrow> u32 \<Rightarrow> bool \<Rightarrow> entity_pos" where
  "entity_pos_make x y z yaw pitch on_ground =
     \<lparr>ep_x = x, ep_y = y, ep_z = z, ep_yaw = yaw, ep_pitch = pitch, ep_on_ground = on_ground\<rparr>"

definition entity_pos_zero :: entity_pos where
  "entity_pos_zero = \<lparr>ep_x = 0, ep_y = 0, ep_z = 0, ep_yaw = 0, ep_pitch = 0, ep_on_ground = False\<rparr>"

definition vector3_zero :: vector3 where
  "vector3_zero = \<lparr>v3_x = 0, v3_y = 0, v3_z = 0\<rparr>"

definition vector3_make :: "u64 \<Rightarrow> u64 \<Rightarrow> u64 \<Rightarrow> vector3" where
  "vector3_make x y z = \<lparr>v3_x = x, v3_y = y, v3_z = z\<rparr>"

text \<open>\<open>std::hash<chunk_pos>\<close>: 32-bit products, wrapped.\<close>

definition chunk_pos_hash :: "chunk_pos \<Rightarrow> u64" where
  "chunk_pos_hash pos = scast (cp_x pos * 65531 + cp_z pos * 31)"

subsection \<open>Properties\<close>

lemma top_bit_bounds: "0 < n \<Longrightarrow> 2 ^ top_bit n \<le> n \<and> n < 2 ^ Suc (top_bit n)"
proof (induction n rule: top_bit.induct)
  case (1 n)
  show ?case
  proof (cases "n \<le> 1")
    case True
    with 1 show ?thesis by (simp add: top_bit.simps [of n])
  next
    case False
    with 1 have "2 ^ top_bit (n div 2) \<le> n div 2 \<and> n div 2 < 2 ^ Suc (top_bit (n div 2))" by simp
    with False show ?thesis by (subst (1 2) top_bit.simps) auto
  qed
qed

lemma chunk_pos_eq_iff [simp]: "chunk_pos_eq a b \<longleftrightarrow> a = b"
  by (cases a; cases b) (simp add: chunk_pos_eq_def)

lemma block_pos_eq_iff [simp]: "block_pos_eq a b \<longleftrightarrow> a = b"
  by (cases a; cases b) (simp add: block_pos_eq_def)

lemma sint_asr4: "sint (signed_drop_bit 4 (v :: u32)) = sint v div 16"
  by (simp add: sint_signed_drop_bit_eq drop_bit_eq_div)

text \<open>
  The chunk of a block is the floor of its coordinates divided by 16, negative coordinates
  included, so every block lies in the sixteen columns that start at its chunk's corner.
\<close>

theorem chunk_of_block_floor:
  "sint (cp_x (chunk_pos_of_block b)) = sint (bp_x b) div 16
   \<and> sint (cp_z (chunk_pos_of_block b)) = sint (bp_z b) div 16
   \<and> sint (bp_x b) - sint (bp_x (block_pos_of_chunk (chunk_pos_of_block b))) \<in> {0..15}
   \<and> sint (bp_z b) - sint (bp_z (block_pos_of_chunk (chunk_pos_of_block b))) \<in> {0..15}"
proof -
  have corner: "sint (push_bit 4 (signed_drop_bit 4 v)) = sint v div 16 * 16" for v :: u32
  proof -
    let ?k = "sint v div 16 * 16"
    have v: "- 2147483648 \<le> sint v" "sint v < 2147483648"
      using sint_greater_eq [of v] sint_less [of v] by simp_all
    have "- 2147483648 \<le> ?k" "?k < 2147483648" using v by presburger+
    then have "sint (word_of_int ?k :: u32) = ?k"
      using signed_take_bit_int_eq_self [of 31 ?k] by (simp add: sint_sbintrunc' del: of_int_mult)
    moreover have "push_bit 4 (signed_drop_bit 4 v) = word_of_int ?k"
      by (simp add: push_bit_eq_mult flip: sint_asr4)
    ultimately show ?thesis by simp
  qed
  show ?thesis
    by (simp add: chunk_pos_of_block_def block_pos_of_chunk_def sint_asr4 corner) presburger
qed

text \<open>
  For an entity the conversion to \<open>int\<close> rounds towards zero before the shift, so an entity
  at x = z = -0.5 is counted into chunk (0, 0), although the block it stands in is in
  chunk (-1, -1).
\<close>

theorem chunk_of_entity_rounds_to_zero:
  "chunk_pos_of_entity (entity_pos_make 0xBFE0000000000000 0 0xBFE0000000000000 0 0 False)
     = Some (chunk_pos_make 0 0)
   \<and> chunk_pos_of_block (block_pos_make (- 1) 0 (- 1)) = chunk_pos_make (- 1) (- 1)"
  by (simp add: chunk_pos_of_entity_def entity_pos_make_def chunk_pos_make_def double_trunc_def
      chunk_pos_of_block_def block_pos_make_def)

end
