(* ===== verification/Block_Grid.thy ===== *)
theory Block_Grid
  imports Hc_Prelude
begin

text \<open>
  The contract of a per-block field of a chunk: ids, metadata, sky light and block light all
  behave like arrays over the positions of a chunk. The generators and the lighting loops fill
  regions position by position and need nothing else.
\<close>

text \<open>A position in a chunk.\<close>

definition in_chunk :: "nat \<Rightarrow> nat \<Rightarrow> nat \<Rightarrow> bool" where
  "in_chunk x y z \<longleftrightarrow> x < 16 \<and> y < 256 \<and> z < 16"

text \<open>A loop that sets one value at a list of positions.\<close>

fun fill_with ::
  "(nat \<Rightarrow> nat \<Rightarrow> nat \<Rightarrow> 'v \<Rightarrow> 'c \<Rightarrow> 'c option) \<Rightarrow> (nat \<times> nat \<times> nat) list \<Rightarrow> 'v \<Rightarrow> 'c \<Rightarrow> 'c option" where
  "fill_with set_at [] v c = Some c"
| "fill_with set_at ((x, y, z) # ps) v c = Option.bind (set_at x y z v c) (fill_with set_at ps v)"

locale block_grid =
  fixes get_at :: "'c \<Rightarrow> nat \<Rightarrow> nat \<Rightarrow> nat \<Rightarrow> 'v"
    and set_at :: "nat \<Rightarrow> nat \<Rightarrow> nat \<Rightarrow> 'v \<Rightarrow> 'c \<Rightarrow> 'c option"
    and ok :: "'c \<Rightarrow> bool"
    and valid :: "'v \<Rightarrow> bool"
  assumes set_law: "ok c \<Longrightarrow> in_chunk x y z \<Longrightarrow> valid v \<Longrightarrow>
    \<exists>c'. set_at x y z v c = Some c' \<and> ok c' \<and>
      (\<forall>x' y' z'. in_chunk x' y' z' \<longrightarrow>
         get_at c' x' y' z' = (if x' = x \<and> y' = y \<and> z' = z then v else get_at c x' y' z'))"
begin

lemma set_get:
  assumes "ok c" "in_chunk x y z" "valid v"
  obtains c' where "set_at x y z v c = Some c'" "ok c'" "get_at c' x y z = v"
    "\<And>x' y' z'. in_chunk x' y' z' \<Longrightarrow> \<not> (x' = x \<and> y' = y \<and> z' = z) \<Longrightarrow> get_at c' x' y' z' = get_at c x' y' z'"
  using set_law [OF assms] assms(2) that by metis

lemma fill_law:
  assumes "\<forall>(x, y, z) \<in> set ps. in_chunk x y z" "valid v" "ok c"
  shows "\<exists>c'. fill_with set_at ps v c = Some c' \<and> ok c' \<and>
    (\<forall>x y z. in_chunk x y z \<longrightarrow>
       get_at c' x y z = (if (x, y, z) \<in> set ps then v else get_at c x y z))"
  using assms
proof (induction ps arbitrary: c)
  case (Cons p ps)
  obtain x y z where p: "p = (x, y, z)" by (cases p)
  with Cons.prems obtain c1 where c1: "set_at x y z v c = Some c1" "ok c1"
    "\<And>x' y' z'. in_chunk x' y' z' \<Longrightarrow>
       get_at c1 x' y' z' = (if x' = x \<and> y' = y \<and> z' = z then v else get_at c x' y' z')"
    using set_law [of c x y z v] by auto
  from Cons.IH [OF _ Cons.prems(2) c1(2)] Cons.prems(1) obtain c2 where
    c2: "fill_with set_at ps v c1 = Some c2" "ok c2"
    "\<forall>x y z. in_chunk x y z \<longrightarrow> get_at c2 x y z = (if (x, y, z) \<in> set ps then v else get_at c1 x y z)"
    by auto
  then show ?case using c1 by (intro exI [of _ c2]) (auto simp: p)
qed simp

end

text \<open>The order of the loops of the generators: \<open>y\<close> outermost, then \<open>x\<close>, then \<open>z\<close>.\<close>

definition layer_positions :: "nat \<Rightarrow> nat \<Rightarrow> (nat \<times> nat \<times> nat) list" where
  "layer_positions lo hi = [(x, y, z). y \<leftarrow> [lo..<hi], x \<leftarrow> [0..<16], z \<leftarrow> [0..<16]]"

lemma set_layer_positions [simp]:
  "(x, y, z) \<in> set (layer_positions lo hi) \<longleftrightarrow> lo \<le> y \<and> y < hi \<and> x < 16 \<and> z < 16"
  by (fastforce simp: layer_positions_def)

lemma layer_positions_in: "hi \<le> 256 \<Longrightarrow> \<forall>(x, y, z) \<in> set (layer_positions lo hi). in_chunk x y z"
  by (auto simp: in_chunk_def)

end
