(* ===== verification/Chunk.thy ===== *)
theory Chunk
  imports Blocks Position Block_Grid
begin

text \<open>
  Chunks of \<open>src/world/chunk.cpp\<close>: sixteen sub-chunks of 4096 blocks, created on demand, with the
  block ids and metadata packed into 16-bit words, the light levels packed two to a byte, and
  a height map.

  Coordinates are natural numbers; the code masks them before it calls a chunk. An access
  outside one of the arrays is the result \<open>None\<close>. Neighbours are addresses of chunks and
  entities are identities; the stores they refer to belong to the world.
\<close>

record sub_chunk =
  sc_types :: "u16 list"
  sc_sl :: "byte list"
  sc_bl :: "byte list"

definition sub_chunk_init :: sub_chunk where
  "sub_chunk_init = \<lparr>sc_types = replicate 4096 0, sc_sl = replicate 2048 0, sc_bl = replicate 2048 0\<rparr>"

record chunk =
  ch_pos :: chunk_pos
  ch_subs :: "sub_chunk option list"
  ch_biomes :: "byte list"
  ch_hmap :: "int list"
  ch_neighbours :: "nat option list"
  ch_ents :: "nat list"

datatype direction = DIR_NORTH | DIR_WEST | DIR_SOUTH | DIR_EAST

fun dir_index :: "direction \<Rightarrow> nat" where
  "dir_index DIR_NORTH = 0" | "dir_index DIR_WEST = 1" | "dir_index DIR_SOUTH = 2" | "dir_index DIR_EAST = 3"

definition chunk_init :: "u32 \<Rightarrow> u32 \<Rightarrow> chunk" where
  "chunk_init x z = \<lparr>ch_pos = chunk_pos_make x z, ch_subs = replicate 16 None,
     ch_biomes = replicate 256 1, ch_hmap = replicate 256 0, ch_neighbours = replicate 4 None,
     ch_ents = []\<rparr>"

definition get_neighbour :: "direction \<Rightarrow> chunk \<Rightarrow> nat option" where
  "get_neighbour dir c = ch_neighbours c ! dir_index dir"

definition set_neighbour :: "direction \<Rightarrow> nat option \<Rightarrow> chunk \<Rightarrow> chunk" where
  "set_neighbour dir ch c = c\<lparr>ch_neighbours := (ch_neighbours c)[dir_index dir := ch]\<rparr>"

subsection \<open>Indices and sub-chunks\<close>

definition ch_index :: "nat \<Rightarrow> nat \<Rightarrow> nat \<Rightarrow> nat" where
  "ch_index x y z = push_bit 8 (y AND 0xF) OR push_bit 4 z OR x"

definition col_index :: "nat \<Rightarrow> nat \<Rightarrow> nat" where
  "col_index x z = push_bit 4 z OR x"

text \<open>The pointer \<open>subs[y >> 4]\<close>; and the sub-chunk behind it, made when it is null.\<close>

definition sub_at :: "nat \<Rightarrow> chunk \<Rightarrow> sub_chunk option option" where
  "sub_at y c = (let sy = drop_bit 4 y in if sy < 16 then Some (ch_subs c ! sy) else None)"

definition sub_made :: "sub_chunk option \<Rightarrow> sub_chunk" where
  "sub_made s = (case s of None \<Rightarrow> sub_chunk_init | Some s \<Rightarrow> s)"

definition put_sub :: "nat \<Rightarrow> sub_chunk \<Rightarrow> chunk \<Rightarrow> chunk" where
  "put_sub y s c = c\<lparr>ch_subs := (ch_subs c)[drop_bit 4 y := Some s]\<rparr>"

subsection \<open>Block ids and the height map\<close>

definition chunk_get_id :: "nat \<Rightarrow> nat \<Rightarrow> nat \<Rightarrow> chunk \<Rightarrow> u16 option" where
  "chunk_get_id x y z c = (case sub_at y c of
     None \<Rightarrow> None
   | Some None \<Rightarrow> Some 0
   | Some (Some sub) \<Rightarrow>
       let index = ch_index x y z
       in if index < 4096 then Some (drop_bit 4 (sc_types sub ! index)) else None)"

definition blocks_height :: "u16 \<Rightarrow> bool" where
  "blocks_height id' = (case block_from_id id' of
     Some binf \<Rightarrow> bi_opaque binf \<and> bi_state binf = BS_SOLID
   | None \<Rightarrow> False)"

text \<open>The loop of \<open>recalc_height_at\<close>, counted in levels still to look at: \<open>h + 1\<close>.\<close>

fun height_scan :: "chunk \<Rightarrow> nat \<Rightarrow> nat \<Rightarrow> nat \<Rightarrow> int option" where
  "height_scan c x z 0 = Some 0"
| "height_scan c x z (Suc h) = (case chunk_get_id x h z c of
     None \<Rightarrow> None
   | Some id' \<Rightarrow> if blocks_height id' then Some (int h + 1) else height_scan c x z h)"

definition recalc_height_at :: "nat \<Rightarrow> nat \<Rightarrow> int \<Rightarrow> chunk \<Rightarrow> chunk option" where
  "recalc_height_at x z from' c = (case height_scan c x z (nat (from' + 1)) of
     None \<Rightarrow> None
   | Some h \<Rightarrow> if col_index x z < 256
       then Some (c\<lparr>ch_hmap := (ch_hmap c)[col_index x z := h]\<rparr>) else None)"

definition update_height :: "nat \<Rightarrow> nat \<Rightarrow> nat \<Rightarrow> u16 \<Rightarrow> chunk \<Rightarrow> chunk option" where
  "update_height x y z id' c =
     (let hind = col_index x z in
      if hind < 256 then
        (if blocks_height id' then
           (if int y \<ge> ch_hmap c ! hind
            then Some (c\<lparr>ch_hmap := (ch_hmap c)[hind := int y + 1]\<rparr>) else Some c)
         else if ch_hmap c ! hind = int y + 1 then recalc_height_at x z (int y - 1) c
         else Some c)
      else None)"

definition chunk_set_id :: "nat \<Rightarrow> nat \<Rightarrow> nat \<Rightarrow> u16 \<Rightarrow> chunk \<Rightarrow> chunk option" where
  "chunk_set_id x y z id' c = (case sub_at y c of
     None \<Rightarrow> None
   | Some s \<Rightarrow>
       let sub = sub_made s; index = ch_index x y z
       in if index < 4096
          then let t = (sc_types sub ! index AND 0x000F) OR push_bit 4 id'
               in update_height x y z id' (put_sub y (sub\<lparr>sc_types := (sc_types sub)[index := t]\<rparr>) c)
          else None)"

definition chunk_set_id_and_meta :: "nat \<Rightarrow> nat \<Rightarrow> nat \<Rightarrow> u16 \<Rightarrow> byte \<Rightarrow> chunk \<Rightarrow> chunk option" where
  "chunk_set_id_and_meta x y z id' meta c = (case sub_at y c of
     None \<Rightarrow> None
   | Some s \<Rightarrow>
       let sub = sub_made s; index = ch_index x y z
       in if index < 4096
          then let t = push_bit 4 id' OR ucast meta
               in update_height x y z id' (put_sub y (sub\<lparr>sc_types := (sc_types sub)[index := t]\<rparr>) c)
          else None)"

subsection \<open>Metadata\<close>

definition chunk_set_meta :: "nat \<Rightarrow> nat \<Rightarrow> nat \<Rightarrow> byte \<Rightarrow> chunk \<Rightarrow> chunk option" where
  "chunk_set_meta x y z meta c = (case sub_at y c of
     None \<Rightarrow> None
   | Some s \<Rightarrow>
       let sub = sub_made s; index = ch_index x y z
       in if index < 4096
          then let t = (sc_types sub ! index AND 0xFFF0) OR ucast meta
               in Some (put_sub y (sub\<lparr>sc_types := (sc_types sub)[index := t]\<rparr>) c)
          else None)"

definition chunk_get_meta :: "nat \<Rightarrow> nat \<Rightarrow> nat \<Rightarrow> chunk \<Rightarrow> (byte \<times> chunk) option" where
  "chunk_get_meta x y z c = (case sub_at y c of
     None \<Rightarrow> None
   | Some s \<Rightarrow>
       let sub = sub_made s; index = ch_index x y z
       in if index < 4096
          then Some (ucast (sc_types sub ! index AND 0xF), put_sub y sub c) else None)"

subsection \<open>Light\<close>

text \<open>Storing a level into its half of the byte, and reading it.\<close>

definition nibble_put :: "nat \<Rightarrow> byte \<Rightarrow> byte list \<Rightarrow> byte list" where
  "nibble_put index v bs =
     (let si = drop_bit 1 index in
      if index AND 1 \<noteq> 0 then bs[si := (bs ! si AND 0x0F) OR push_bit 4 v]
      else bs[si := (bs ! si AND 0xF0) OR v])"

definition nibble_get :: "nat \<Rightarrow> byte list \<Rightarrow> byte" where
  "nibble_get index bs =
     (if index AND 1 \<noteq> 0 then drop_bit 4 (bs ! drop_bit 1 index) else bs ! drop_bit 1 index AND 0x0F)"

definition chunk_set_sky_light :: "nat \<Rightarrow> nat \<Rightarrow> nat \<Rightarrow> byte \<Rightarrow> chunk \<Rightarrow> chunk option" where
  "chunk_set_sky_light x y z sl c = (case sub_at y c of
     None \<Rightarrow> None
   | Some s \<Rightarrow>
       let sub = sub_made s; index = ch_index x y z
       in if index < 4096
          then Some (put_sub y (sub\<lparr>sc_sl := nibble_put index sl (sc_sl sub)\<rparr>) c) else None)"

definition chunk_get_sky_light :: "nat \<Rightarrow> nat \<Rightarrow> nat \<Rightarrow> chunk \<Rightarrow> (byte \<times> chunk) option" where
  "chunk_get_sky_light x y z c = (case sub_at y c of
     None \<Rightarrow> None
   | Some s \<Rightarrow>
       let sub = sub_made s; index = ch_index x y z
       in if index < 4096 then Some (nibble_get index (sc_sl sub), put_sub y sub c) else None)"

definition chunk_set_block_light :: "nat \<Rightarrow> nat \<Rightarrow> nat \<Rightarrow> byte \<Rightarrow> chunk \<Rightarrow> chunk option" where
  "chunk_set_block_light x y z bl c = (case sub_at y c of
     None \<Rightarrow> None
   | Some s \<Rightarrow>
       let sub = sub_made s; index = ch_index x y z
       in if index < 4096
          then Some (put_sub y (sub\<lparr>sc_bl := nibble_put index bl (sc_bl sub)\<rparr>) c) else None)"

definition chunk_get_block_light :: "nat \<Rightarrow> nat \<Rightarrow> nat \<Rightarrow> chunk \<Rightarrow> (byte \<times> chunk) option" where
  "chunk_get_block_light x y z c = (case sub_at y c of
     None \<Rightarrow> None
   | Some s \<Rightarrow>
       let sub = sub_made s; index = ch_index x y z
       in if index < 4096 then Some (nibble_get index (sc_bl sub), put_sub y sub c) else None)"

definition get_height :: "nat \<Rightarrow> nat \<Rightarrow> chunk \<Rightarrow> int option" where
  "get_height x z c = (if col_index x z < 256 then Some (ch_hmap c ! col_index x z) else None)"

subsection \<open>Entities\<close>

definition register_entity :: "nat \<Rightarrow> chunk \<Rightarrow> chunk" where
  "register_entity ent c = c\<lparr>ch_ents := ch_ents c @ [ent]\<rparr>"

definition deregister_entity :: "nat \<Rightarrow> chunk \<Rightarrow> chunk" where
  "deregister_entity ent c = c\<lparr>ch_ents := filter (\<lambda>e. e \<noteq> ent) (ch_ents c)\<rparr>"

text \<open>The callback threads a state of its own through the entities.\<close>

definition all_entities :: "(nat \<Rightarrow> 's \<Rightarrow> 's) \<Rightarrow> chunk \<Rightarrow> 's \<Rightarrow> 's" where
  "all_entities cb c s = fold cb (ch_ents c) s"

subsection \<open>Index arithmetic\<close>

lemma or_shift: "(b :: nat) < 2 ^ n \<Longrightarrow> push_bit n a OR b = a * 2 ^ n + b"
proof -
  assume "b < 2 ^ n"
  then have "take_bit n b = b" by (simp add: take_bit_nat_eq_self)
  then have "\<not> bit b k" if "n \<le> k" for k
    using that by (metis bit_take_bit_iff not_less)
  then have "push_bit n a OR b = push_bit n a + b"
    by (intro disjunctive_add [symmetric]) (auto simp: bit_simps)
  then show ?thesis by (simp add: push_bit_eq_mult)
qed

lemma col_index_eq: "x < 16 \<Longrightarrow> col_index x z = z * 16 + x"
  using or_shift [of x 4 z] by (simp add: col_index_def)

lemma ch_index_eq: "x < 16 \<Longrightarrow> z < 16 \<Longrightarrow> ch_index x y z = (y mod 16) * 256 + z * 16 + x"
proof -
  assume a: "x < 16" "z < 16"
  have "(y AND 0xF :: nat) = y mod 16"
    using take_bit_eq_mask [of 4 y] by (simp add: take_bit_eq_mod mask_eq_exp_minus_1)
  moreover have "push_bit 4 z OR x = z * 16 + x" using a or_shift [of x 4 z] by simp
  moreover have "z * 16 + x < 2 ^ 8" using a by simp
  ultimately show ?thesis
    using or_shift [of "z * 16 + x" 8 "y mod 16"] by (simp add: ch_index_def or.assoc)
qed

lemma in_chunk_index: "in_chunk x y z \<Longrightarrow> ch_index x y z < 4096 \<and> col_index x z < 256"
  by (auto simp: in_chunk_def ch_index_eq col_index_eq)

lemma digit16:
  fixes a b x x' :: nat
  assumes "a * 16 + x = b * 16 + x'" "x < 16" "x' < 16"
  shows "x = x' \<and> a = b"
proof -
  have "(a * 16 + x) mod 16 = x" "(b * 16 + x') mod 16 = x'" using assms(2,3) by simp_all
  with assms(1) have "x = x'" by metis
  with assms(1) show ?thesis by simp
qed

lemma digits:
  fixes a b x x' z z' :: nat
  assumes "a * 256 + z * 16 + x = b * 256 + z' * 16 + x'" "x < 16" "x' < 16" "z < 16" "z' < 16"
  shows "x = x' \<and> z = z' \<and> a = b"
proof -
  have "(a * 16 + z) * 16 + x = (b * 16 + z') * 16 + x'" using assms(1) by simp
  with assms have "x = x' \<and> a * 16 + z = b * 16 + z'" by (intro digit16)
  with assms digit16 show ?thesis by blast
qed

lemma ch_index_inj:
  assumes "in_chunk x y z" "in_chunk x' y' z'"
  shows "drop_bit 4 y = drop_bit 4 y' \<and> ch_index x y z = ch_index x' y' z' \<longleftrightarrow> x = x' \<and> y = y' \<and> z = z'"
proof
  assume e: "drop_bit 4 y = drop_bit 4 y' \<and> ch_index x y z = ch_index x' y' z'"
  with assms have "x = x' \<and> z = z' \<and> y mod 16 = y' mod 16"
    by (intro digits) (simp_all add: in_chunk_def ch_index_eq)
  moreover from e have "y div 16 = y' div 16" by (simp add: drop_bit_eq_div)
  moreover have "y = y div 16 * 16 + y mod 16" "y' = y' div 16 * 16 + y' mod 16" by simp_all
  ultimately show "x = x' \<and> y = y' \<and> z = z'" by metis
qed simp

lemma col_index_inj:
  "x < 16 \<Longrightarrow> x' < 16 \<Longrightarrow> col_index x z = col_index x' z' \<longleftrightarrow> x = x' \<and> z = z'"
  using digit16 [of z x z' x'] by (auto simp: col_index_eq)

subsection \<open>Cells\<close>

definition sub_ok :: "sub_chunk \<Rightarrow> bool" where
  "sub_ok s \<longleftrightarrow> length (sc_types s) = 4096 \<and> length (sc_sl s) = 2048 \<and> length (sc_bl s) = 2048"

definition chunk_ok :: "chunk \<Rightarrow> bool" where
  "chunk_ok c \<longleftrightarrow> length (ch_subs c) = 16 \<and> (\<forall>s \<in> set (ch_subs c). sub_ok (sub_made s))
     \<and> length (ch_biomes c) = 256 \<and> length (ch_hmap c) = 256 \<and> length (ch_neighbours c) = 4"

text \<open>A field of the sub-chunks, read at a position; an absent sub-chunk reads as a fresh one.\<close>

definition chunk_cell :: "(sub_chunk \<Rightarrow> nat \<Rightarrow> 'v) \<Rightarrow> chunk \<Rightarrow> nat \<Rightarrow> nat \<Rightarrow> nat \<Rightarrow> 'v" where
  "chunk_cell f c x y z = f (sub_made (ch_subs c ! drop_bit 4 y)) (ch_index x y z)"

abbreviation raw_type :: "chunk \<Rightarrow> nat \<Rightarrow> nat \<Rightarrow> nat \<Rightarrow> u16" where
  "raw_type \<equiv> chunk_cell (\<lambda>s i. sc_types s ! i)"

abbreviation sky_at :: "chunk \<Rightarrow> nat \<Rightarrow> nat \<Rightarrow> nat \<Rightarrow> byte" where
  "sky_at \<equiv> chunk_cell (\<lambda>s i. nibble_get i (sc_sl s))"

abbreviation light_at :: "chunk \<Rightarrow> nat \<Rightarrow> nat \<Rightarrow> nat \<Rightarrow> byte" where
  "light_at \<equiv> chunk_cell (\<lambda>s i. nibble_get i (sc_bl s))"

definition id_at :: "chunk \<Rightarrow> nat \<Rightarrow> nat \<Rightarrow> nat \<Rightarrow> u16" where
  "id_at c x y z = drop_bit 4 (raw_type c x y z)"

definition meta_at :: "chunk \<Rightarrow> nat \<Rightarrow> nat \<Rightarrow> nat \<Rightarrow> byte" where
  "meta_at c x y z = ucast (raw_type c x y z AND 0xF)"

lemma sub_ok_init [simp]: "sub_ok sub_chunk_init"
  by (simp add: sub_ok_def sub_chunk_init_def)

lemma in_chunk_sub: "in_chunk x y z \<Longrightarrow> drop_bit 4 y < 16"
  by (simp add: in_chunk_def drop_bit_eq_div less_mult_imp_div_less)

lemma sub_at_in: "in_chunk x y z \<Longrightarrow> sub_at y c = Some (ch_subs c ! drop_bit 4 y)"
  using in_chunk_sub by (simp add: sub_at_def Let_def)

lemma chunk_sub_ok: "chunk_ok c \<Longrightarrow> in_chunk x y z \<Longrightarrow> sub_ok (sub_made (ch_subs c ! drop_bit 4 y))"
  using in_chunk_sub by (simp add: chunk_ok_def)

lemma chunk_ok_put_sub: "chunk_ok c \<Longrightarrow> sub_ok s \<Longrightarrow> chunk_ok (put_sub y s c)"
  by (auto simp: chunk_ok_def put_sub_def sub_made_def dest!: set_update_subset_insert [THEN subsetD])

lemma chunk_cell_put_sub:
  assumes "chunk_ok c" "in_chunk x y z" "in_chunk x' y' z'"
  shows "chunk_cell f (put_sub y s c) x' y' z' =
    (if drop_bit 4 y' = drop_bit 4 y then f s (ch_index x' y' z') else chunk_cell f c x' y' z')"
  using assms in_chunk_sub [of x y z] in_chunk_sub [of x' y' z']
  by (simp add: chunk_cell_def put_sub_def chunk_ok_def sub_made_def nth_list_update)

lemma chunk_cell_same:
  assumes "chunk_ok c" "in_chunk x y z" "in_chunk x' y' z'"
    "\<And>i. i < 4096 \<Longrightarrow> f s i = f (sub_made (ch_subs c ! drop_bit 4 y)) i"
  shows "chunk_cell f (put_sub y s c) x' y' z' = chunk_cell f c x' y' z'"
  using assms in_chunk_index [OF assms(3)]
  by (simp add: chunk_cell_put_sub [OF assms(1-3)]) (simp add: chunk_cell_def)

lemma chunk_cell_update:
  assumes "chunk_ok c" "in_chunk x y z" "in_chunk x' y' z'"
    "\<And>i. i < 4096 \<Longrightarrow> f s i = (if i = ch_index x y z then v else f (sub_made (ch_subs c ! drop_bit 4 y)) i)"
  shows "chunk_cell f (put_sub y s c) x' y' z' =
    (if x' = x \<and> y' = y \<and> z' = z then v else chunk_cell f c x' y' z')"
  using assms in_chunk_index [OF assms(3)] ch_index_inj [OF assms(3,2)]
  by (auto simp: chunk_cell_put_sub [OF assms(1-3)]) (auto simp: chunk_cell_def)

lemma put_sub_fields [simp]:
  "ch_hmap (put_sub y s c) = ch_hmap c" "ch_pos (put_sub y s c) = ch_pos c"
  "ch_biomes (put_sub y s c) = ch_biomes c" "ch_neighbours (put_sub y s c) = ch_neighbours c"
  "ch_ents (put_sub y s c) = ch_ents c"
  by (simp_all add: put_sub_def)

lemma nibble_get_put:
  assumes "i < 4096" "j < 4096" "length bs = 2048" "unat v < 16"
  shows "nibble_get j (nibble_put i v bs) = (if j = i then v else nibble_get j bs)"
proof -
  have v: "n < 4" if "bit v n" for n using word_bit_less [of v 4 n] assms(4) that by simp
  have m: "(0x0F :: byte) = mask 4" "(0xF0 :: byte) = NOT (mask 4)"
    by (simp_all add: mask_eq_exp_minus_1)
  have hi: "drop_bit 4 ((b AND mask 4) OR push_bit 4 v) = v" "((b AND mask 4) OR push_bit 4 v) AND mask 4 = b AND mask 4"
    "drop_bit 4 ((b AND NOT (mask 4)) OR v) = drop_bit 4 b" "((b AND NOT (mask 4)) OR v) AND mask 4 = v" for b :: byte
    by (rule bit_word_eqI, auto simp: bit_simps dest: v bit_imp_le_length)+
  have s: "drop_bit 1 i < 2048" "drop_bit 1 j < 2048"
    using assms(1,2) by (simp_all add: drop_bit_eq_div)
  have eq: "i = j \<longleftrightarrow> drop_bit 1 i = drop_bit 1 j \<and> i AND 1 = j AND 1"
    unfolding drop_bit_eq_div and_one_eq power_one_right by (metis div_mult_mod_eq)
  have 01: "i AND 1 = 0 \<or> i AND 1 = 1" "j AND 1 = 0 \<or> j AND 1 = 1" unfolding and_one_eq by auto
  define k l where "k = drop_bit 1 i" and "l = drop_bit 1 j"
  have get: "nibble_get j bs = (if j AND 1 \<noteq> 0 then drop_bit 4 (bs ! l) else bs ! l AND mask 4)" for bs
    by (simp add: nibble_get_def l_def m(1))
  have put: "nibble_put i v bs = bs[k := if i AND 1 \<noteq> 0 then (bs ! k AND mask 4) OR push_bit 4 v
      else (bs ! k AND NOT (mask 4)) OR v]"
    unfolding nibble_put_def Let_def k_def m by simp
  show ?thesis
  proof (cases "k = l")
    case False
    with eq show ?thesis unfolding get put by (auto simp: k_def l_def)
  next
    case True
    with eq have ij: "j = i \<longleftrightarrow> i AND 1 = j AND 1" by (auto simp: k_def l_def)
    have "l < length bs" using s assms(3) by (simp add: l_def)
    then show ?thesis
      using 01 unfolding get put ij True
      by (elim disjE) (simp_all only: nth_list_update_eq if_True if_False hi simp_thms one_neq_zero zero_neq_one)
  qed
qed

lemma length_nibble_put [simp]: "length (nibble_put i v bs) = length bs"
  by (simp add: nibble_put_def Let_def)

subsection \<open>Heights\<close>

text \<open>
  A height is right for a column when it is one above its highest block that is opaque and
  solid, or zero when it has none.
\<close>

definition height_right :: "(nat \<Rightarrow> u16) \<Rightarrow> nat \<Rightarrow> int \<Rightarrow> bool" where
  "height_right ids n h \<longleftrightarrow> (\<forall>y < n. h \<le> int y \<longrightarrow> \<not> blocks_height (ids y))
     \<and> (h = 0 \<or> (\<exists>y < n. h = int y + 1 \<and> blocks_height (ids y)))"

definition heights_ok :: "chunk \<Rightarrow> bool" where
  "heights_ok c \<longleftrightarrow> (\<forall>x < 16. \<forall>z < 16.
     height_right (\<lambda>y. id_at c x y z) 256 (ch_hmap c ! col_index x z))"

definition chunk_wf :: "chunk \<Rightarrow> bool" where
  "chunk_wf c \<longleftrightarrow> chunk_ok c \<and> heights_ok c"

lemma blocks_height_air [simp]: "\<not> blocks_height 0"
  by code_simp

lemma chunk_get_id_at: "chunk_ok c \<Longrightarrow> in_chunk x y z \<Longrightarrow> chunk_get_id x y z c = Some (id_at c x y z)"
  using in_chunk_index [of x y z]
  by (auto simp: chunk_get_id_def sub_at_in id_at_def chunk_cell_def sub_made_def Let_def
      sub_chunk_init_def split: option.split)

lemma height_right_0: "height_right ids 0 0"
  by (simp add: height_right_def)

lemma height_right_Suc:
  "blocks_height (ids n) \<Longrightarrow> height_right ids (Suc n) (int n + 1)"
  "\<not> blocks_height (ids n) \<Longrightarrow> height_right ids n h \<Longrightarrow> height_right ids (Suc n) h"
  by (auto simp: height_right_def less_Suc_eq)

lemma height_scan_right:
  assumes "chunk_ok c" "x < 16" "z < 16"
  shows "n \<le> 256 \<Longrightarrow> \<exists>h. height_scan c x z n = Some h \<and> height_right (\<lambda>y. id_at c x y z) n h"
proof (induction n)
  case 0
  show ?case by (simp add: height_right_0)
next
  case (Suc n)
  with assms have "chunk_get_id x n z c = Some (id_at c x n z)"
    by (intro chunk_get_id_at) (simp_all add: in_chunk_def)
  with Suc height_right_Suc [of "\<lambda>y. id_at c x y z" n] show ?case by auto
qed

text \<open>One block of the column changes; the height is brought up to date.\<close>

lemma height_right_raise:
  assumes "height_right ids n h" "y < n" "blocks_height i" "h \<le> int y"
  shows "height_right (ids(y := i)) n (int y + 1)"
  using assms by (auto simp: height_right_def intro!: exI [of _ y])

lemma height_right_keep:
  assumes "height_right ids n h" "y < n"
    "blocks_height i \<and> int y < h \<or> \<not> blocks_height i \<and> h \<noteq> int y + 1"
  shows "height_right (ids(y := i)) n h"
  using assms by (auto simp: height_right_def)

lemma height_right_lower:
  assumes "height_right ids n (int y + 1)" "y < n" "\<not> blocks_height i" "height_right (ids(y := i)) y h"
  shows "height_right (ids(y := i)) n h"
proof -
  have above: "\<not> blocks_height ((ids(y := i)) k)" if "y \<le> k" "k < n" for k
    using assms(1,3) that by (cases "k = y") (auto simp: height_right_def)
  let ?ids = "ids(y := i)"
  from assms(4) have low: "\<And>k. k < y \<Longrightarrow> h \<le> int k \<Longrightarrow> \<not> blocks_height (?ids k)"
    "h = 0 \<or> (\<exists>k < y. h = int k + 1 \<and> blocks_height (?ids k))"
    unfolding height_right_def by blast+
  have "\<not> blocks_height (?ids k)" if "k < n" "h \<le> int k" for k
    using above [of k] low(1) [of k] that by (meson not_le)
  moreover have "h = 0 \<or> (\<exists>k < n. h = int k + 1 \<and> blocks_height (?ids k))"
    using low(2) assms(2) less_trans by blast
  ultimately show ?thesis unfolding height_right_def by blast
qed

subsection \<open>The setters\<close>

definition chunk_frame :: "chunk \<Rightarrow> chunk \<Rightarrow> bool" where
  "chunk_frame c c' \<longleftrightarrow> ch_pos c' = ch_pos c \<and> ch_biomes c' = ch_biomes c
     \<and> ch_neighbours c' = ch_neighbours c \<and> ch_ents c' = ch_ents c"

text \<open>The sub-chunks of two chunks hold the same cells.\<close>

definition same_subs :: "chunk \<Rightarrow> chunk \<Rightarrow> bool" where
  "same_subs c c' \<longleftrightarrow> ch_subs c' = ch_subs c"

lemma same_subs_cell: "same_subs c c' \<Longrightarrow> chunk_cell f c' x y z = chunk_cell f c x y z"
  by (simp add: same_subs_def chunk_cell_def)

lemma chunk_ok_hmap: "chunk_ok c \<Longrightarrow> length h = 256 \<Longrightarrow> chunk_ok (c\<lparr>ch_hmap := h\<rparr>)"
  by (simp add: chunk_ok_def)

lemma heights_ok_update:
  assumes "chunk_ok c" "x < 16" "z < 16"
    and "\<And>x' z'. x' < 16 \<Longrightarrow> z' < 16 \<Longrightarrow> \<not> (x' = x \<and> z' = z) \<Longrightarrow>
      height_right (\<lambda>y. id_at c x' y z') 256 (ch_hmap c ! col_index x' z')"
    and "height_right (\<lambda>y. id_at c x y z) 256 h"
  shows "chunk_wf (c\<lparr>ch_hmap := (ch_hmap c)[col_index x z := h]\<rparr>)"
proof -
  let ?c = "c\<lparr>ch_hmap := (ch_hmap c)[col_index x z := h]\<rparr>"
  have len: "length (ch_hmap c) = 256" using assms(1) by (simp add: chunk_ok_def)
  have i: "col_index x z < 256" using assms(2,3) by (simp add: col_index_eq)
  have ids: "id_at ?c x' y z' = id_at c x' y z'" for x' y z'
    by (simp add: id_at_def chunk_cell_def)
  have "height_right (\<lambda>y. id_at ?c x' y z') 256 (ch_hmap ?c ! col_index x' z')"
    if "x' < 16" "z' < 16" for x' z'
    using assms(4) [OF that] assms(5) col_index_inj [OF that(1) assms(2), of z' z] i len
    by (cases "x' = x \<and> z' = z") (simp_all add: ids nth_list_update_neq)
  with assms(1) len show ?thesis by (simp add: chunk_wf_def heights_ok_def chunk_ok_hmap)
qed

lemma height_right_cong:
  "(\<And>k. k < n \<Longrightarrow> ids k = ids' k) \<Longrightarrow> height_right ids n h \<longleftrightarrow> height_right ids' n h"
  by (auto simp: height_right_def)

lemma update_height_wf:
  assumes ok: "chunk_ok c" and pos: "in_chunk x y z"
    and old: "\<And>x' z'. x' < 16 \<Longrightarrow> z' < 16 \<Longrightarrow>
      height_right (\<lambda>y'. id_at cold x' y' z') 256 (ch_hmap c ! col_index x' z')"
    and upd: "\<And>x' y' z'. in_chunk x' y' z' \<Longrightarrow>
      id_at c x' y' z' = (if x' = x \<and> y' = y \<and> z' = z then i else id_at cold x' y' z')"
  shows "\<exists>c'. update_height x y z i c = Some c' \<and> chunk_wf c' \<and> same_subs c c' \<and> chunk_frame c c'"
proof -
  from pos have xyz: "x < 16" "y < 256" "z < 16" by (simp_all add: in_chunk_def)
  let ?h = "ch_hmap c ! col_index x z" and ?ids = "\<lambda>y'. id_at cold x y' z"
  have col: "col_index x z < 256" using in_chunk_index [OF pos] by simp
  have here: "height_right (\<lambda>y'. id_at c x y' z) n h \<longleftrightarrow> height_right (?ids(y := i)) n h" if "n \<le> 256" for n h
    by (rule height_right_cong) (use that xyz upd in \<open>simp add: in_chunk_def\<close>)
  have there: "height_right (\<lambda>y'. id_at c x' y' z') 256 (ch_hmap c ! col_index x' z')"
    if "x' < 16" "z' < 16" "\<not> (x' = x \<and> z' = z)" for x' z'
    using old [OF that(1,2)] height_right_cong [of 256 "\<lambda>y'. id_at c x' y' z'" "\<lambda>y'. id_at cold x' y' z'"]
      upd that by (auto simp: in_chunk_def)
  have set_h: "chunk_wf (c\<lparr>ch_hmap := (ch_hmap c)[col_index x z := h]\<rparr>)"
    if "height_right (?ids(y := i)) 256 h" for h
    by (rule heights_ok_update [OF ok xyz(1,3)]) (use there that here in simp_all)
  have keep: "chunk_wf c" if "height_right (?ids(y := i)) 256 ?h"
    using set_h [OF that] by simp
  note right = old [OF xyz(1,3)]
  have same: "same_subs c c" "chunk_frame c c"
    "same_subs c (c\<lparr>ch_hmap := hm\<rparr>)" "chunk_frame c (c\<lparr>ch_hmap := hm\<rparr>)" for hm
    by (simp_all add: same_subs_def chunk_frame_def)
  consider (raise) "blocks_height i" "?h \<le> int y" | (lower) "\<not> blocks_height i" "?h = int y + 1"
    | (keep) "blocks_height i \<and> int y < ?h \<or> \<not> blocks_height i \<and> ?h \<noteq> int y + 1" by linarith
  then show ?thesis
  proof cases
    case raise
    with set_h [OF height_right_raise [OF right xyz(2) raise]] col same show ?thesis
      by (simp add: update_height_def)
  next
    case lower
    from height_scan_right [OF ok xyz(1,3), of y] xyz(2) obtain h where
      h: "height_scan c x z y = Some h" "height_right (\<lambda>y'. id_at c x y' z) y h" by auto
    with here [of y] xyz(2) have "height_right (?ids(y := i)) y h" by simp
    from set_h [OF height_right_lower [OF right [unfolded lower(2)] xyz(2) lower(1) this]] h(1) lower col same
    show ?thesis by (simp add: update_height_def recalc_height_at_def)
  next
    case k: keep
    with keep [OF height_right_keep [OF right xyz(2) k]] col same show ?thesis
      by (auto simp: update_height_def)
  qed
qed

text \<open>
  The meaning of every setter: it succeeds inside the chunk, keeps the invariant and the frame,
  and changes one cell of one field.
\<close>

definition cells_after ::
  "chunk \<Rightarrow> chunk \<Rightarrow> (nat \<Rightarrow> nat \<Rightarrow> nat \<Rightarrow> u16) \<Rightarrow> (nat \<Rightarrow> nat \<Rightarrow> nat \<Rightarrow> byte) \<Rightarrow> (nat \<Rightarrow> nat \<Rightarrow> nat \<Rightarrow> byte) \<Rightarrow> bool" where
  "cells_after c c' types sl bl \<longleftrightarrow> chunk_wf c' \<and> chunk_frame c c' \<and>
     (\<forall>x y z. in_chunk x y z \<longrightarrow>
        raw_type c' x y z = types x y z \<and> sky_at c' x y z = sl x y z \<and> light_at c' x y z = bl x y z)"

definition upd3 :: "(nat \<Rightarrow> nat \<Rightarrow> nat \<Rightarrow> 'v) \<Rightarrow> nat \<Rightarrow> nat \<Rightarrow> nat \<Rightarrow> 'v \<Rightarrow> nat \<Rightarrow> nat \<Rightarrow> nat \<Rightarrow> 'v" where
  "upd3 f x y z v = (\<lambda>x' y' z'. if x' = x \<and> y' = y \<and> z' = z then v else f x' y' z')"

lemma u16_parts:
  assumes "unat i < 4096"
  shows "drop_bit 4 ((t AND 0x000F) OR push_bit 4 i) = (i :: u16)"
    "((t AND 0x000F) OR push_bit 4 i) AND 0xF = t AND 0xF"
proof -
  have m: "(0x000F :: u16) = mask 4" by (simp add: mask_eq_exp_minus_1)
  have i: "n < 12" if "bit i n" for n using word_bit_less [of i 12 n] assms that by simp
  show "drop_bit 4 ((t AND 0x000F) OR push_bit 4 i) = i"
    unfolding m by (rule bit_word_eqI) (auto simp: bit_simps dest: i)
  show "((t AND 0x000F) OR push_bit 4 i) AND 0xF = t AND 0xF"
    unfolding m by (rule bit_word_eqI) (auto simp: bit_simps)
qed

lemma put_types_cells:
  assumes ok: "chunk_ok c" and pos: "in_chunk x y z"
    and c1: "c1 = put_sub y (s\<lparr>sc_types := (sc_types s)[ch_index x y z := t]\<rparr>) c"
    and s: "s = sub_made (ch_subs c ! drop_bit 4 y)"
  shows "chunk_ok c1" "in_chunk x' y' z' \<Longrightarrow> raw_type c1 x' y' z' = upd3 (raw_type c) x y z t x' y' z'"
    "in_chunk x' y' z' \<Longrightarrow> sky_at c1 x' y' z' = sky_at c x' y' z'"
    "in_chunk x' y' z' \<Longrightarrow> light_at c1 x' y' z' = light_at c x' y' z'"
proof -
  let ?s = "s\<lparr>sc_types := (sc_types s)[ch_index x y z := t]\<rparr>"
  have so: "sub_ok s" using chunk_sub_ok [OF ok pos] s by simp
  then show "chunk_ok c1" unfolding c1 by (intro chunk_ok_put_sub [OF ok]) (simp add: sub_ok_def)
  assume pos': "in_chunk x' y' z'"
  have "chunk_cell (\<lambda>s i. sc_types s ! i) c1 x' y' z' =
      (if x' = x \<and> y' = y \<and> z' = z then t else raw_type c x' y' z')"
    unfolding c1 by (rule chunk_cell_update [OF ok pos pos'])
      (use so s in \<open>simp add: sub_ok_def nth_list_update\<close>)
  then show "raw_type c1 x' y' z' = upd3 (raw_type c) x y z t x' y' z'" by (simp add: upd3_def)
  show "sky_at c1 x' y' z' = sky_at c x' y' z'"
    unfolding c1 by (rule chunk_cell_same [OF ok pos pos']) (simp add: s)
  show "light_at c1 x' y' z' = light_at c x' y' z'"
    unfolding c1 by (rule chunk_cell_same [OF ok pos pos']) (simp add: s)
qed

lemma put_types_update_height:
  assumes wf: "chunk_wf c" and pos: "in_chunk x y z"
    and c1: "c1 = put_sub y (s\<lparr>sc_types := (sc_types s)[ch_index x y z := t]\<rparr>) c"
    and s: "s = sub_made (ch_subs c ! drop_bit 4 y)" and t: "drop_bit 4 t = i"
  shows "\<exists>c'. update_height x y z i c1 = Some c'
    \<and> cells_after c c' (upd3 (raw_type c) x y z t) (sky_at c) (light_at c)"
proof -
  have ok: "chunk_ok c" using wf by (simp add: chunk_wf_def)
  note cells = put_types_cells [OF ok pos c1 s]
  have hm: "ch_hmap c1 = ch_hmap c" "chunk_frame c c1" by (simp_all add: c1 chunk_frame_def)
  have "\<exists>c'. update_height x y z i c1 = Some c' \<and> chunk_wf c' \<and> same_subs c1 c' \<and> chunk_frame c1 c'"
  proof (rule update_height_wf [OF cells(1) pos, where cold = c])
    fix x' z' :: nat assume "x' < 16" "z' < 16"
    then show "height_right (\<lambda>y'. id_at c x' y' z') 256 (ch_hmap c1 ! col_index x' z')"
      using wf by (simp add: chunk_wf_def heights_ok_def hm)
  next
    fix x' y' z' :: nat assume "in_chunk x' y' z'"
    then show "id_at c1 x' y' z' = (if x' = x \<and> y' = y \<and> z' = z then i else id_at c x' y' z')"
      using cells(2) t by (simp add: id_at_def upd3_def)
  qed
  then obtain c' where c': "update_height x y z i c1 = Some c'" "chunk_wf c'" "same_subs c1 c'"
    "chunk_frame c1 c'" by blast
  with hm cells show ?thesis
    by (intro exI [of _ c']) (auto simp: cells_after_def chunk_frame_def same_subs_cell [OF c'(3)])
qed

lemma chunk_set_id_cells:
  assumes "chunk_wf c" "in_chunk x y z" "unat i < 4096"
  shows "\<exists>c'. chunk_set_id x y z i c = Some c' \<and> cells_after c c'
    (upd3 (raw_type c) x y z ((raw_type c x y z AND 0x000F) OR push_bit 4 i)) (sky_at c) (light_at c)"
  using put_types_update_height [OF assms(1,2) refl refl u16_parts(1) [OF assms(3)]]
    in_chunk_index [OF assms(2)] sub_at_in [OF assms(2)]
  by (simp add: chunk_set_id_def Let_def chunk_cell_def)

lemma u16_id_meta:
  assumes "unat i < 4096" "unat m < 16"
  shows "drop_bit 4 (push_bit 4 i OR ucast (m :: byte)) = (i :: u16)"
proof -
  have "(0x000F :: u16) = mask 4" by (simp add: mask_eq_exp_minus_1)
  moreover have "n < 4" if "bit m n" for n using word_bit_less [of m 4 n] assms(2) that by simp
  then have "(ucast m :: u16) = ucast m AND mask 4"
    by (intro bit_word_eqI) (auto simp: bit_simps)
  ultimately have m: "(ucast m :: u16) = ucast m AND 0x000F" by metis
  show ?thesis
    using u16_parts(1) [OF assms(1), of "ucast m"] by (simp only: m [symmetric] or.commute)
qed

lemma chunk_set_id_and_meta_cells:
  assumes "chunk_wf c" "in_chunk x y z" "unat i < 4096" "unat m < 16"
  shows "\<exists>c'. chunk_set_id_and_meta x y z i m c = Some c' \<and> cells_after c c'
    (upd3 (raw_type c) x y z (push_bit 4 i OR ucast m)) (sky_at c) (light_at c)"
  using put_types_update_height [OF assms(1,2) refl refl u16_id_meta [OF assms(3,4)]]
    in_chunk_index [OF assms(2)] sub_at_in [OF assms(2)]
  by (simp add: chunk_set_id_and_meta_def Let_def)

lemma chunk_wf_types:
  assumes "chunk_wf c" "chunk_ok c1" "ch_hmap c1 = ch_hmap c"
    "\<And>x y z. in_chunk x y z \<Longrightarrow> id_at c1 x y z = id_at c x y z"
  shows "chunk_wf c1"
proof -
  have "height_right (\<lambda>y. id_at c1 x y z) 256 (ch_hmap c1 ! col_index x z)" if "x < 16" "z < 16" for x z
  proof -
    have "height_right (\<lambda>y. id_at c x y z) 256 (ch_hmap c ! col_index x z)"
      using assms(1) that by (simp add: chunk_wf_def heights_ok_def)
    then show ?thesis
      using height_right_cong [of 256 "\<lambda>y. id_at c1 x y z" "\<lambda>y. id_at c x y z"] assms(3,4) that
      by (simp add: in_chunk_def)
  qed
  with assms(2) show ?thesis by (simp add: chunk_wf_def heights_ok_def)
qed

lemma u16_meta_parts:
  assumes "unat m < 16"
  shows "drop_bit 4 ((t AND 0xFFF0) OR ucast (m :: byte)) = drop_bit 4 (t :: u16)"
    "ucast (((t AND 0xFFF0) OR ucast m) AND 0xF) = m"
proof -
  have k: "(0xFFF0 :: u16) = NOT (mask 4)" "(0xF :: u16) = mask 4" by (simp_all add: mask_eq_exp_minus_1)
  have b: "n < 4" if "bit m n" for n using word_bit_less [of m 4 n] assms that by simp
  show "drop_bit 4 ((t AND 0xFFF0) OR ucast m) = drop_bit 4 t"
    unfolding k by (rule bit_word_eqI) (auto simp: bit_simps dest: b bit_imp_le_length)
  show "ucast (((t AND 0xFFF0) OR ucast m) AND 0xF) = m"
    unfolding k by (rule bit_word_eqI) (auto simp: bit_simps dest: b)
qed

lemma chunk_set_meta_cells:
  assumes "chunk_wf c" "in_chunk x y z" "unat m < 16"
  shows "\<exists>c'. chunk_set_meta x y z m c = Some c' \<and> cells_after c c'
    (upd3 (raw_type c) x y z ((raw_type c x y z AND 0xFFF0) OR ucast m)) (sky_at c) (light_at c)"
proof -
  let ?s = "sub_made (ch_subs c ! drop_bit 4 y)"
  let ?t = "(raw_type c x y z AND 0xFFF0) OR ucast m"
  let ?c = "put_sub y (?s\<lparr>sc_types := (sc_types ?s)[ch_index x y z := ?t]\<rparr>) c"
  have ok: "chunk_ok c" using assms(1) by (simp add: chunk_wf_def)
  note cells = put_types_cells [OF ok assms(2) refl refl]
  have "id_at ?c x' y' z' = id_at c x' y' z'" if "in_chunk x' y' z'" for x' y' z'
    unfolding id_at_def cells(2) [OF that] upd3_def
    by (cases "x' = x \<and> y' = y \<and> z' = z") (simp_all only: u16_meta_parts(1) [OF assms(3)] if_True if_False simp_thms)
  then have "chunk_wf ?c" by (intro chunk_wf_types [OF assms(1) cells(1)]) simp_all
  moreover have "chunk_set_meta x y z m c = Some ?c"
    using in_chunk_index [OF assms(2)] sub_at_in [OF assms(2)]
    by (simp add: chunk_set_meta_def Let_def chunk_cell_def)
  ultimately show ?thesis using cells
    by (intro exI [of _ ?c]) (simp add: cells_after_def chunk_frame_def)
qed

lemma put_light_cells:
  assumes wf: "chunk_wf c" and pos: "in_chunk x y z" and v: "unat v < 16"
    and s: "s = sub_made (ch_subs c ! drop_bit 4 y)"
  shows "cells_after c (put_sub y (s\<lparr>sc_sl := nibble_put (ch_index x y z) v (sc_sl s)\<rparr>) c)
      (raw_type c) (upd3 (sky_at c) x y z v) (light_at c)" (is "cells_after c ?a _ _ _")
    and "cells_after c (put_sub y (s\<lparr>sc_bl := nibble_put (ch_index x y z) v (sc_bl s)\<rparr>) c)
      (raw_type c) (sky_at c) (upd3 (light_at c) x y z v)" (is "cells_after c ?b _ _ _")
proof -
  have ok: "chunk_ok c" using wf by (simp add: chunk_wf_def)
  have so: "sub_ok s" using chunk_sub_ok [OF ok pos] s by simp
  have i: "ch_index x y z < 4096" using in_chunk_index [OF pos] by simp
  have oks: "chunk_ok ?a" "chunk_ok ?b"
    by (rule chunk_ok_put_sub [OF ok], use so in \<open>simp add: sub_ok_def\<close>)+
  have same: "in_chunk x' y' z' \<Longrightarrow> raw_type ?a x' y' z' = raw_type c x' y' z'"
    "in_chunk x' y' z' \<Longrightarrow> light_at ?a x' y' z' = light_at c x' y' z'"
    "in_chunk x' y' z' \<Longrightarrow> raw_type ?b x' y' z' = raw_type c x' y' z'"
    "in_chunk x' y' z' \<Longrightarrow> sky_at ?b x' y' z' = sky_at c x' y' z'" for x' y' z'
    by (rule chunk_cell_same [OF ok pos]; simp add: s)+
  have upd: "sky_at ?a x' y' z' = upd3 (sky_at c) x y z v x' y' z'"
    "light_at ?b x' y' z' = upd3 (light_at c) x y z v x' y' z'" if p: "in_chunk x' y' z'" for x' y' z'
    unfolding upd3_def
    by (rule chunk_cell_update [OF ok pos p], use so i v s in \<open>simp add: sub_ok_def nibble_get_put\<close>)+
  have "chunk_wf ?a" "chunk_wf ?b"
    by (rule chunk_wf_types [OF wf oks(1)], simp, simp add: id_at_def same,
        rule chunk_wf_types [OF wf oks(2)], simp, simp add: id_at_def same)
  then show "cells_after c ?a (raw_type c) (upd3 (sky_at c) x y z v) (light_at c)"
    "cells_after c ?b (raw_type c) (sky_at c) (upd3 (light_at c) x y z v)"
    using same upd by (simp_all add: cells_after_def chunk_frame_def)
qed

lemma chunk_set_sky_light_cells:
  assumes "chunk_wf c" "in_chunk x y z" "unat v < 16"
  shows "\<exists>c'. chunk_set_sky_light x y z v c = Some c' \<and>
    cells_after c c' (raw_type c) (upd3 (sky_at c) x y z v) (light_at c)"
  using put_light_cells(1) [OF assms refl] in_chunk_index [OF assms(2)] sub_at_in [OF assms(2)]
  by (simp add: chunk_set_sky_light_def Let_def)

lemma chunk_set_block_light_cells:
  assumes "chunk_wf c" "in_chunk x y z" "unat v < 16"
  shows "\<exists>c'. chunk_set_block_light x y z v c = Some c' \<and>
    cells_after c c' (raw_type c) (sky_at c) (upd3 (light_at c) x y z v)"
  using put_light_cells(2) [OF assms refl] in_chunk_index [OF assms(2)] sub_at_in [OF assms(2)]
  by (simp add: chunk_set_block_light_def Let_def)

text \<open>A getter that makes a missing sub-chunk leaves every cell as it was.\<close>

lemma touch_cells:
  assumes "chunk_wf c" "in_chunk x y z"
  shows "cells_after c (put_sub y (sub_made (ch_subs c ! drop_bit 4 y)) c) (raw_type c) (sky_at c) (light_at c)"
proof -
  let ?c = "put_sub y (sub_made (ch_subs c ! drop_bit 4 y)) c"
  have ok: "chunk_ok c" using assms(1) by (simp add: chunk_wf_def)
  have okc: "chunk_ok ?c" by (rule chunk_ok_put_sub [OF ok chunk_sub_ok [OF ok assms(2)]])
  have same: "chunk_cell f ?c x' y' z' = chunk_cell f c x' y' z'" if "in_chunk x' y' z'"
    for f :: "sub_chunk \<Rightarrow> nat \<Rightarrow> 'v" and x' y' z'
    by (rule chunk_cell_same [OF ok assms(2) that]) simp
  have "chunk_wf ?c"
    by (rule chunk_wf_types [OF assms(1) okc]) (simp_all add: id_at_def same)
  then show ?thesis by (simp add: cells_after_def chunk_frame_def same)
qed

lemma chunk_get_light_cells:
  assumes "chunk_wf c" "in_chunk x y z"
  shows "\<exists>c'. chunk_get_sky_light x y z c = Some (sky_at c x y z, c')
      \<and> cells_after c c' (raw_type c) (sky_at c) (light_at c)"
    and "\<exists>c'. chunk_get_block_light x y z c = Some (light_at c x y z, c')
      \<and> cells_after c c' (raw_type c) (sky_at c) (light_at c)"
    and "\<exists>c'. chunk_get_meta x y z c = Some (meta_at c x y z, c')
      \<and> cells_after c c' (raw_type c) (sky_at c) (light_at c)"
  using touch_cells [OF assms] in_chunk_index [OF assms(2)] sub_at_in [OF assms(2)]
  by (simp_all add: chunk_get_sky_light_def chunk_get_block_light_def chunk_get_meta_def meta_at_def
      Let_def chunk_cell_def)

subsection \<open>The four fields as grids\<close>

lemma id_at_set:
  assumes "unat i < 4096" "cells_after c c'
    (upd3 (raw_type c) x y z ((raw_type c x y z AND 0x000F) OR push_bit 4 i)) sl bl" "in_chunk x' y' z'"
  shows "id_at c' x' y' z' = (if x' = x \<and> y' = y \<and> z' = z then i else id_at c x' y' z')"
    "meta_at c' x' y' z' = meta_at c x' y' z'"
proof -
  have r: "raw_type c' x' y' z' =
      (if x' = x \<and> y' = y \<and> z' = z then (raw_type c x y z AND 0x000F) OR push_bit 4 i else raw_type c x' y' z')"
    using assms(2,3) by (simp add: cells_after_def upd3_def)
  show "id_at c' x' y' z' = (if x' = x \<and> y' = y \<and> z' = z then i else id_at c x' y' z')"
    unfolding id_at_def r
    by (cases "x' = x \<and> y' = y \<and> z' = z") (simp_all only: u16_parts(1) [OF assms(1)] if_True if_False simp_thms)
  show "meta_at c' x' y' z' = meta_at c x' y' z'"
    unfolding meta_at_def r
    by (cases "x' = x \<and> y' = y \<and> z' = z") (simp_all only: u16_parts(2) [OF assms(1)] if_True if_False simp_thms)
qed

lemma meta_at_set:
  assumes "unat m < 16" "cells_after c c'
    (upd3 (raw_type c) x y z ((raw_type c x y z AND 0xFFF0) OR ucast m)) sl bl" "in_chunk x' y' z'"
  shows "meta_at c' x' y' z' = (if x' = x \<and> y' = y \<and> z' = z then m else meta_at c x' y' z')"
    "id_at c' x' y' z' = id_at c x' y' z'"
proof -
  have r: "raw_type c' x' y' z' =
      (if x' = x \<and> y' = y \<and> z' = z then (raw_type c x y z AND 0xFFF0) OR ucast m else raw_type c x' y' z')"
    using assms(2,3) by (simp add: cells_after_def upd3_def)
  show "meta_at c' x' y' z' = (if x' = x \<and> y' = y \<and> z' = z then m else meta_at c x' y' z')"
    unfolding meta_at_def r
    by (cases "x' = x \<and> y' = y \<and> z' = z") (simp_all only: u16_meta_parts(2) [OF assms(1)] if_True if_False simp_thms)
  show "id_at c' x' y' z' = id_at c x' y' z'"
    unfolding id_at_def r
    by (cases "x' = x \<and> y' = y \<and> z' = z") (simp_all only: u16_meta_parts(1) [OF assms(1)] if_True if_False simp_thms)
qed

lemma cells_after_wf: "cells_after c c' t s b \<Longrightarrow> chunk_wf c'"
  by (simp add: cells_after_def)

interpretation ids: block_grid id_at chunk_set_id chunk_wf "\<lambda>i. unat i < 4096"
proof
  fix c x y z and v :: u16
  assume a: "chunk_wf c" "in_chunk x y z" "unat v < 4096"
  from chunk_set_id_cells [OF a] obtain c' where c': "chunk_set_id x y z v c = Some c'"
    "cells_after c c' (upd3 (raw_type c) x y z ((raw_type c x y z AND 0x000F) OR push_bit 4 v)) (sky_at c) (light_at c)"
    by blast
  with id_at_set(1) [OF a(3) c'(2)] cells_after_wf [OF c'(2)]
  show "\<exists>c'. chunk_set_id x y z v c = Some c' \<and> chunk_wf c' \<and> (\<forall>x' y' z'. in_chunk x' y' z' \<longrightarrow>
      id_at c' x' y' z' = (if x' = x \<and> y' = y \<and> z' = z then v else id_at c x' y' z'))"
    by blast
qed

interpretation metas: block_grid meta_at chunk_set_meta chunk_wf "\<lambda>m. unat m < 16"
proof
  fix c x y z and v :: byte
  assume a: "chunk_wf c" "in_chunk x y z" "unat v < 16"
  from chunk_set_meta_cells [OF a] obtain c' where c': "chunk_set_meta x y z v c = Some c'"
    "cells_after c c' (upd3 (raw_type c) x y z ((raw_type c x y z AND 0xFFF0) OR ucast v)) (sky_at c) (light_at c)"
    by blast
  with meta_at_set(1) [OF a(3) c'(2)] cells_after_wf [OF c'(2)]
  show "\<exists>c'. chunk_set_meta x y z v c = Some c' \<and> chunk_wf c' \<and> (\<forall>x' y' z'. in_chunk x' y' z' \<longrightarrow>
      meta_at c' x' y' z' = (if x' = x \<and> y' = y \<and> z' = z then v else meta_at c x' y' z'))"
    by blast
qed

interpretation sky: block_grid sky_at chunk_set_sky_light chunk_wf "\<lambda>v. unat v < 16"
proof
  fix c x y z and v :: byte
  assume a: "chunk_wf c" "in_chunk x y z" "unat v < 16"
  from chunk_set_sky_light_cells [OF a] obtain c' where c': "chunk_set_sky_light x y z v c = Some c'"
    "cells_after c c' (raw_type c) (upd3 (sky_at c) x y z v) (light_at c)" by blast
  then show "\<exists>c'. chunk_set_sky_light x y z v c = Some c' \<and> chunk_wf c' \<and> (\<forall>x' y' z'. in_chunk x' y' z' \<longrightarrow>
      sky_at c' x' y' z' = (if x' = x \<and> y' = y \<and> z' = z then v else sky_at c x' y' z'))"
    by (auto simp: cells_after_def upd3_def)
qed

interpretation lights: block_grid light_at chunk_set_block_light chunk_wf "\<lambda>v. unat v < 16"
proof
  fix c x y z and v :: byte
  assume a: "chunk_wf c" "in_chunk x y z" "unat v < 16"
  from chunk_set_block_light_cells [OF a] obtain c' where c': "chunk_set_block_light x y z v c = Some c'"
    "cells_after c c' (raw_type c) (sky_at c) (upd3 (light_at c) x y z v)" by blast
  then show "\<exists>c'. chunk_set_block_light x y z v c = Some c' \<and> chunk_wf c' \<and> (\<forall>x' y' z'. in_chunk x' y' z' \<longrightarrow>
      light_at c' x' y' z' = (if x' = x \<and> y' = y \<and> z' = z then v else light_at c x' y' z'))"
    by (auto simp: cells_after_def upd3_def)
qed

lemma chunk_init_cell [simp]:
  "in_chunk x y z \<Longrightarrow> raw_type (chunk_init cx cz) x y z = 0"
  "in_chunk x y z \<Longrightarrow> sky_at (chunk_init cx cz) x y z = 0"
  "in_chunk x y z \<Longrightarrow> light_at (chunk_init cx cz) x y z = 0"
  using in_chunk_sub [of x y z] in_chunk_index [of x y z]
  by (simp_all add: chunk_cell_def chunk_init_def sub_made_def sub_chunk_init_def nibble_get_def
      drop_bit_eq_div less_mult_imp_div_less)

lemma chunk_init_wf: "chunk_wf (chunk_init cx cz)"
proof -
  have "chunk_ok (chunk_init cx cz)"
    by (simp add: chunk_ok_def chunk_init_def sub_made_def)
  moreover have "height_right (\<lambda>y. id_at (chunk_init cx cz) x y z) 256 0" if "x < 16" "z < 16" for x z
    using that by (simp add: height_right_def id_at_def in_chunk_def)
  ultimately show ?thesis
    by (simp add: chunk_wf_def heights_ok_def) (simp add: chunk_init_def col_index_eq)
qed

subsection \<open>Properties\<close>

text \<open>
  C14: setting a block's id succeeds everywhere in a chunk; afterwards exactly this block has
  the new id, and the metadata and the light levels of all blocks are what they were.
\<close>

theorem chunk_set_id_correct:
  assumes "chunk_wf c" "in_chunk x y z" "unat i < 4096"
  shows "\<exists>c'. chunk_set_id x y z i c = Some c' \<and> chunk_wf c' \<and> chunk_frame c c' \<and>
    (\<forall>x' y' z'. in_chunk x' y' z' \<longrightarrow>
       chunk_get_id x' y' z' c' = Some (if x' = x \<and> y' = y \<and> z' = z then i else id_at c x' y' z') \<and>
       meta_at c' x' y' z' = meta_at c x' y' z' \<and>
       sky_at c' x' y' z' = sky_at c x' y' z' \<and> light_at c' x' y' z' = light_at c x' y' z')"
proof -
  from chunk_set_id_cells [OF assms] obtain c' where c': "chunk_set_id x y z i c = Some c'"
    "cells_after c c' (upd3 (raw_type c) x y z ((raw_type c x y z AND 0x000F) OR push_bit 4 i)) (sky_at c) (light_at c)"
    by blast
  from c'(2) have "chunk_wf c'" "chunk_ok c'" "chunk_frame c c'"
    by (simp_all add: cells_after_def chunk_wf_def)
  with c' id_at_set [OF assms(3) c'(2)] show ?thesis
    by (intro exI [of _ c']) (simp add: chunk_get_id_at cells_after_def)
qed

theorem chunk_set_id_correct_witness:
  "\<exists>c'. chunk_set_id 1 200 3 7 (chunk_init 0 0) = Some c' \<and> chunk_get_id 1 200 3 c' = Some 7"
proof -
  have p: "in_chunk 1 200 3" "unat (7 :: u16) < 4096" by (simp_all add: in_chunk_def)
  from chunk_set_id_correct [OF chunk_init_wf p, of 0 0] p(1) show ?thesis by auto
qed

text \<open>Sequences of the operations that change blocks.\<close>

datatype chunk_op =
    Op_set_id nat nat nat u16
  | Op_set_id_and_meta nat nat nat u16 byte
  | Op_set_meta nat nat nat byte
  | Op_set_sky_light nat nat nat byte
  | Op_set_block_light nat nat nat byte

fun chunk_op_ok :: "chunk_op \<Rightarrow> bool" where
  "chunk_op_ok (Op_set_id x y z i) \<longleftrightarrow> in_chunk x y z \<and> unat i < 4096"
| "chunk_op_ok (Op_set_id_and_meta x y z i m) \<longleftrightarrow> in_chunk x y z \<and> unat i < 4096 \<and> unat m < 16"
| "chunk_op_ok (Op_set_meta x y z m) \<longleftrightarrow> in_chunk x y z \<and> unat m < 16"
| "chunk_op_ok (Op_set_sky_light x y z v) \<longleftrightarrow> in_chunk x y z \<and> unat v < 16"
| "chunk_op_ok (Op_set_block_light x y z v) \<longleftrightarrow> in_chunk x y z \<and> unat v < 16"

fun chunk_op_run :: "chunk_op \<Rightarrow> chunk \<Rightarrow> chunk option" where
  "chunk_op_run (Op_set_id x y z i) c = chunk_set_id x y z i c"
| "chunk_op_run (Op_set_id_and_meta x y z i m) c = chunk_set_id_and_meta x y z i m c"
| "chunk_op_run (Op_set_meta x y z m) c = chunk_set_meta x y z m c"
| "chunk_op_run (Op_set_sky_light x y z v) c = chunk_set_sky_light x y z v c"
| "chunk_op_run (Op_set_block_light x y z v) c = chunk_set_block_light x y z v c"

fun chunk_ops_run :: "chunk_op list \<Rightarrow> chunk \<Rightarrow> chunk option" where
  "chunk_ops_run [] c = Some c"
| "chunk_ops_run (a # as) c = Option.bind (chunk_op_run a c) (chunk_ops_run as)"

lemma chunk_op_wf:
  assumes "chunk_wf c" "chunk_op_ok a"
  shows "\<exists>c'. chunk_op_run a c = Some c' \<and> chunk_wf c'"
proof (cases a)
  case (Op_set_id x y z i)
  then show ?thesis using chunk_set_id_cells [OF assms(1), of x y z i] assms(2) cells_after_wf by auto
next
  case (Op_set_id_and_meta x y z i m)
  then show ?thesis using chunk_set_id_and_meta_cells [OF assms(1), of x y z i m] assms(2) cells_after_wf by auto
next
  case (Op_set_meta x y z m)
  then show ?thesis using chunk_set_meta_cells [OF assms(1), of x y z m] assms(2) cells_after_wf by auto
next
  case (Op_set_sky_light x y z v)
  then show ?thesis using chunk_set_sky_light_cells [OF assms(1), of x y z v] assms(2) cells_after_wf by auto
next
  case (Op_set_block_light x y z v)
  then show ?thesis using chunk_set_block_light_cells [OF assms(1), of x y z v] assms(2) cells_after_wf by auto
qed

lemma chunk_ops_wf:
  "chunk_wf c \<Longrightarrow> list_all chunk_op_ok as \<Longrightarrow> \<exists>c'. chunk_ops_run as c = Some c' \<and> chunk_wf c'"
proof (induction as arbitrary: c)
  case (Cons a as)
  from chunk_op_wf [OF Cons.prems(1), of a] Cons.prems(2) obtain c1 where
    "chunk_op_run a c = Some c1" "chunk_wf c1" by auto
  with Cons.IH [of c1] Cons.prems(2) show ?case by simp
qed simp

text \<open>
  C15: after any sequence of block, metadata and light updates inside a fresh chunk, all of them
  succeed and the height map is right in every column: its entry is one above the highest block
  that is opaque and solid, or zero if there is none.
\<close>

theorem chunk_heights_invariant:
  assumes "list_all chunk_op_ok as"
  shows "\<exists>c. chunk_ops_run as (chunk_init cx cz) = Some c \<and>
    (\<forall>x < 16. \<forall>z < 16. \<exists>h. get_height x z c = Some h \<and>
       (\<forall>y < 256. h \<le> int y \<longrightarrow> \<not> blocks_height (id_at c x y z)) \<and>
       (h = 0 \<or> (\<exists>y < 256. h = int y + 1 \<and> blocks_height (id_at c x y z))))"
proof -
  from chunk_ops_wf [OF chunk_init_wf assms] obtain c where
    c: "chunk_ops_run as (chunk_init cx cz) = Some c" "chunk_wf c" by blast
  then have "height_right (\<lambda>y. id_at c x y z) 256 (ch_hmap c ! col_index x z)" if "x < 16" "z < 16" for x z
    using that by (simp add: chunk_wf_def heights_ok_def)
  with c(1) show ?thesis
    by (intro exI [of _ c]) (simp add: get_height_def col_index_eq height_right_def)
qed

theorem chunk_heights_invariant_witness:
  "\<exists>c h. chunk_ops_run [Op_set_id 0 9 0 1, Op_set_id 0 4 0 1, Op_set_id 0 9 0 0] (chunk_init 0 0) = Some c
     \<and> get_height 0 0 c = Some h"
  using chunk_heights_invariant [of "[Op_set_id 0 9 0 1, Op_set_id 0 4 0 1, Op_set_id 0 9 0 0]" 0 0]
  by (fastforce simp: in_chunk_def)

text \<open>
  C16: the two sky light levels that share a byte do not disturb each other: after a level below
  16 is stored, it is read back at its position and every other position reads as before.
\<close>

theorem sky_light_store:
  assumes "chunk_wf c" "in_chunk x y z" "unat v < 16" "in_chunk x' y' z'"
  shows "\<exists>c' c''. chunk_set_sky_light x y z v c = Some c' \<and>
    chunk_get_sky_light x' y' z' c' = Some (if x' = x \<and> y' = y \<and> z' = z then v else sky_at c x' y' z', c'')"
proof -
  from sky.set_law [OF assms(1-3)] assms(4) obtain c' where "chunk_set_sky_light x y z v c = Some c'"
    "chunk_wf c'" "sky_at c' x' y' z' = (if x' = x \<and> y' = y \<and> z' = z then v else sky_at c x' y' z')" by blast
  with chunk_get_light_cells(1) [OF _ assms(4)] show ?thesis by fastforce
qed

theorem sky_light_store_witness:
  "\<exists>c' c''. chunk_set_sky_light 0 0 0 15 (chunk_init 0 0) = Some c' \<and> chunk_get_sky_light 1 0 0 c' = Some (0, c'')"
  using sky_light_store [OF chunk_init_wf, of 0 0 0 15 1 0 0 0 0] by (simp add: in_chunk_def)

end
