(* ===== verification/Generators.thy ===== *)
theory Generators
  imports Chunk
begin

text \<open>
  The world generators (\<open>src/world/world_generator.cpp\<close>, \<open>src/world/generators/flatgrass.cpp\<close>)
  and the first lighting of a chunk (\<open>light_chunk\<close> of \<open>src/world/lighting.cpp\<close>).
\<close>

subsection \<open>Generators\<close>

definition generate_edge :: "chunk \<Rightarrow> chunk option" where
  "generate_edge ch = do {
     ch \<leftarrow> fill_with chunk_set_id (layer_positions 0 64) BT_BEDROCK ch;
     fill_with chunk_set_id (layer_positions 64 65) BT_STILL_WATER ch }"

definition flatgrass_generate :: "chunk \<Rightarrow> chunk option" where
  "flatgrass_generate ch = do {
     ch \<leftarrow> fill_with chunk_set_id (layer_positions 0 58) BT_STONE ch;
     ch \<leftarrow> fill_with chunk_set_id (layer_positions 58 64) BT_DIRT ch;
     fill_with chunk_set_id (layer_positions 64 65) BT_GRASS ch }"

definition flatgrass_find_spawn :: entity_pos where
  "flatgrass_find_spawn = entity_pos_make (double_of_int 0) (double_of_int 66) (double_of_int 0) 0 0 False"

text \<open>A generator is known by its name; the map holds one.\<close>

datatype generator = Flatgrass

definition world_generator_create :: "string \<Rightarrow> generator option" where
  "world_generator_create name = (if name = ''flatgrass'' then Some Flatgrass else None)"

fun generator_name :: "generator \<Rightarrow> string" where
  "generator_name Flatgrass = ''flatgrass''"

fun generator_generate :: "generator \<Rightarrow> chunk \<Rightarrow> chunk option" where
  "generator_generate Flatgrass ch = flatgrass_generate ch"

fun generator_find_spawn :: "generator \<Rightarrow> entity_pos" where
  "generator_find_spawn Flatgrass = flatgrass_find_spawn"

text \<open>Setting types keeps the position, the biomes, the neighbours and the entities as well.\<close>

interpretation framed_ids: block_grid id_at chunk_set_id "\<lambda>c. chunk_wf c \<and> chunk_frame c0 c" "\<lambda>i. unat i < 4096"
  for c0
proof
  fix c x y z and v :: u16
  assume a: "chunk_wf c \<and> chunk_frame c0 c" "in_chunk x y z" "unat v < 4096"
  from chunk_set_id_cells [OF _ a(2,3)] a(1) obtain c' where c': "chunk_set_id x y z v c = Some c'"
    "cells_after c c' (upd3 (raw_type c) x y z ((raw_type c x y z AND 0x000F) OR push_bit 4 v)) (sky_at c) (light_at c)"
    by blast
  moreover from c'(2) a(1) have "chunk_wf c' \<and> chunk_frame c0 c'"
    by (simp add: cells_after_def chunk_frame_def)
  ultimately show "\<exists>c'. chunk_set_id x y z v c = Some c' \<and> (chunk_wf c' \<and> chunk_frame c0 c') \<and>
      (\<forall>x' y' z'. in_chunk x' y' z' \<longrightarrow> id_at c' x' y' z' = (if x' = x \<and> y' = y \<and> z' = z then v else id_at c x' y' z'))"
    using id_at_set(1) [OF a(3) c'(2)] by blast
qed

lemma chunk_frame_refl [simp]: "chunk_frame c c"
  by (simp add: chunk_frame_def)

lemma chunk_frame_trans: "chunk_frame a b \<Longrightarrow> chunk_frame b c \<Longrightarrow> chunk_frame a c"
  by (simp add: chunk_frame_def)

lemma fill_ids:
  assumes "chunk_wf c" "hi \<le> 256" "unat i < 4096"
  obtains c' where "fill_with chunk_set_id (layer_positions lo hi) i c = Some c'" "chunk_wf c'" "chunk_frame c c'"
    "\<And>x y z. in_chunk x y z \<Longrightarrow> id_at c' x y z = (if lo \<le> y \<and> y < hi then i else id_at c x y z)"
proof -
  from framed_ids.fill_law [OF layer_positions_in [OF assms(2)] assms(3), of c c] assms(1) obtain c' where
    c': "fill_with chunk_set_id (layer_positions lo hi) i c = Some c'" "chunk_wf c'" "chunk_frame c c'"
    "\<forall>x y z. in_chunk x y z \<longrightarrow>
      id_at c' x y z = (if (x, y, z) \<in> set (layer_positions lo hi) then i else id_at c x y z)" by (metis chunk_frame_refl)
  show thesis
    by (rule that [OF c'(1-3)]) (use c'(4) in \<open>simp add: in_chunk_def\<close>)
qed

lemma height_right_unique:
  "height_right ids n h \<Longrightarrow> height_right ids n h' \<Longrightarrow> h = h'"
proof -
  assume a: "height_right ids n h" "height_right ids n h'"
  show "h = h'"
  proof (rule ccontr)
    assume "h \<noteq> h'"
    then have "h < h' \<or> h' < h" by linarith
    with a show False by (auto simp: height_right_def)
  qed
qed

lemma get_height_unique:
  assumes "chunk_wf c" "x < 16" "z < 16" "height_right (\<lambda>y. id_at c x y z) 256 h"
  shows "get_height x z c = Some h"
proof -
  have "height_right (\<lambda>y. id_at c x y z) 256 (ch_hmap c ! col_index x z)"
    using assms(1-3) by (simp add: chunk_wf_def heights_ok_def)
  from height_right_unique [OF this assms(4)] assms(2,3) show ?thesis
    by (simp add: get_height_def col_index_eq)
qed

lemma blocks_height_layers:
  "blocks_height BT_GRASS" "blocks_height BT_STONE" "blocks_height BT_DIRT" "blocks_height BT_BEDROCK"
  "\<not> blocks_height BT_STILL_WATER"
  by code_simp+

lemma id_at_init [simp]: "in_chunk x y z \<Longrightarrow> id_at (chunk_init cx cz) x y z = 0"
  by (simp add: id_at_def)

definition flatgrass_id :: "nat \<Rightarrow> u16" where
  "flatgrass_id y = (if y < 58 then BT_STONE else if y < 64 then BT_DIRT else if y = 64 then BT_GRASS else 0)"

lemma flatgrass_height: "height_right (\<lambda>y. flatgrass_id y) 256 65"
  by (auto simp: height_right_def flatgrass_id_def blocks_height_layers intro!: exI [of _ 64])

lemma height_right_in_chunk:
  "(\<And>y. in_chunk x y z \<Longrightarrow> id_at c x y z = ids y) \<Longrightarrow> x < 16 \<Longrightarrow> z < 16 \<Longrightarrow>
   height_right ids 256 h \<Longrightarrow> height_right (\<lambda>y. id_at c x y z) 256 h"
  using height_right_cong [of 256 "\<lambda>y. id_at c x y z" ids h] by (simp add: in_chunk_def)

lemma flatgrass_cells:
  assumes "chunk_wf c"
  shows "\<exists>c'. flatgrass_generate c = Some c' \<and> chunk_wf c' \<and> chunk_frame c c' \<and>
    (\<forall>x y z. in_chunk x y z \<longrightarrow> id_at c' x y z = (if y < 65 then flatgrass_id y else id_at c x y z))"
proof -
  have small: "unat BT_STONE < 4096" "unat BT_DIRT < 4096" "unat BT_GRASS < 4096"
    by (simp_all add: BT_STONE_def BT_DIRT_def BT_GRASS_def)
  obtain c1 where c1: "fill_with chunk_set_id (layer_positions 0 58) BT_STONE c = Some c1" "chunk_wf c1" "chunk_frame c c1"
    "\<And>x y z. in_chunk x y z \<Longrightarrow> id_at c1 x y z = (if 0 \<le> y \<and> y < 58 then BT_STONE else id_at c x y z)"
    using fill_ids [OF assms _ small(1), of 58 0] by auto
  obtain c2 where c2: "fill_with chunk_set_id (layer_positions 58 64) BT_DIRT c1 = Some c2" "chunk_wf c2" "chunk_frame c1 c2"
    "\<And>x y z. in_chunk x y z \<Longrightarrow> id_at c2 x y z = (if 58 \<le> y \<and> y < 64 then BT_DIRT else id_at c1 x y z)"
    using fill_ids [OF c1(2) _ small(2), of 64 58] by auto
  obtain c3 where c3: "fill_with chunk_set_id (layer_positions 64 65) BT_GRASS c2 = Some c3" "chunk_wf c3" "chunk_frame c2 c3"
    "\<And>x y z. in_chunk x y z \<Longrightarrow> id_at c3 x y z = (if 64 \<le> y \<and> y < 65 then BT_GRASS else id_at c2 x y z)"
    using fill_ids [OF c2(2) _ small(3), of 65 64] by auto
  have "id_at c3 x y z = (if y < 65 then flatgrass_id y else id_at c x y z)" if p: "in_chunk x y z" for x y z
    using c1(4) [OF p] c2(4) [OF p] c3(4) [OF p] by (auto simp: flatgrass_id_def)
  moreover have "chunk_frame c c3" using c1(3) c2(3) c3(3) by (simp add: chunk_frame_def)
  ultimately show ?thesis
    using c1(1) c2(1) c3(1,2) by (intro exI [of _ c3]) (simp add: flatgrass_generate_def)
qed

text \<open>
  The flatgrass generator turns a fresh chunk into exactly 58 layers of stone, six of dirt
  and one of grass under air, and leaves the height map at 65 everywhere.
\<close>

theorem flatgrass_generate_correct:
  "\<exists>c. flatgrass_generate (chunk_init cx cz) = Some c \<and> chunk_wf c \<and>
     (\<forall>x \<in> {..<16}. \<forall>z \<in> {..<16}. get_height x z c = Some 65 \<and>
        (\<forall>y \<in> {..<256}. chunk_get_id x y z c = Some (flatgrass_id y)))"
proof -
  obtain c where c: "flatgrass_generate (chunk_init cx cz) = Some c" "chunk_wf c" "chunk_frame (chunk_init cx cz) c"
    "\<And>x y z. in_chunk x y z \<Longrightarrow> id_at c x y z = (if y < 65 then flatgrass_id y else id_at (chunk_init cx cz) x y z)"
    using flatgrass_cells [OF chunk_init_wf [of cx cz]] by blast
  have ids: "id_at c x y z = flatgrass_id y" if "in_chunk x y z" for x y z
    using c(4) [OF that] that by (simp add: flatgrass_id_def)
  have "get_height x z c = Some 65" if "x < 16" "z < 16" for x z
    by (rule get_height_unique [OF c(2) that], rule height_right_in_chunk [OF ids that flatgrass_height])
  moreover have "chunk_get_id x y z c = Some (flatgrass_id y)" if "in_chunk x y z" for x y z
    using chunk_get_id_at [OF _ that, of c] c(2) ids [OF that] by (simp add: chunk_wf_def)
  ultimately show ?thesis using c(1,2) by (intro exI [of _ c]) (simp add: in_chunk_def)
qed

theorem flatgrass_generate_correct_witness:
  "case flatgrass_generate (chunk_init 0 0) of None \<Rightarrow> False
   | Some c \<Rightarrow> get_height 3 5 c = Some 65 \<and> chunk_get_id 3 64 5 c = Some BT_GRASS"
proof -
  obtain c where "flatgrass_generate (chunk_init 0 0) = Some c" "get_height 3 5 c = Some 65"
    "chunk_get_id 3 64 5 c = Some (flatgrass_id 64)"
    using flatgrass_generate_correct [of 0 0] by auto
  then show ?thesis by (simp add: flatgrass_id_def)
qed

definition edge_id :: "nat \<Rightarrow> u16" where
  "edge_id y = (if y < 64 then BT_BEDROCK else if y = 64 then BT_STILL_WATER else 0)"

lemma generate_edge_cells:
  "\<exists>c. generate_edge (chunk_init cx cz) = Some c \<and> chunk_wf c \<and>
     (\<forall>x y z. in_chunk x y z \<longrightarrow> id_at c x y z = edge_id y)"
proof -
  have small: "unat BT_BEDROCK < 4096" "unat BT_STILL_WATER < 4096"
    by (simp_all add: BT_BEDROCK_def BT_STILL_WATER_def)
  obtain c1 where c1: "fill_with chunk_set_id (layer_positions 0 64) BT_BEDROCK (chunk_init cx cz) = Some c1"
    "chunk_wf c1" "chunk_frame (chunk_init cx cz) c1" "\<And>x y z. in_chunk x y z \<Longrightarrow> id_at c1 x y z = (if 0 \<le> y \<and> y < 64 then BT_BEDROCK else id_at (chunk_init cx cz) x y z)"
    using fill_ids [OF chunk_init_wf _ small(1), of 64 0] by auto
  obtain c2 where c2: "fill_with chunk_set_id (layer_positions 64 65) BT_STILL_WATER c1 = Some c2"
    "chunk_wf c2" "chunk_frame c1 c2" "\<And>x y z. in_chunk x y z \<Longrightarrow> id_at c2 x y z = (if 64 \<le> y \<and> y < 65 then BT_STILL_WATER else id_at c1 x y z)"
    using fill_ids [OF c1(2) _ small(2), of 65 64] by auto
  have "id_at c2 x y z = edge_id y" if "in_chunk x y z" for x y z
    using c1(4) [OF that] c2(4) [OF that] that by (auto simp: edge_id_def)
  with c1(1) c2(1,2) show ?thesis by (intro exI [of _ c2]) (simp add: generate_edge_def)
qed

subsection \<open>Lighting a chunk\<close>

text \<open>
  The inner loops of \<open>light_chunk\<close>. The first counts \<open>y\<close> down from 254 to the height; its
  argument is the number of levels left, \<open>y + 1\<close>. The queue of positions the function builds is
  never read.
\<close>

definition dim :: "u16 \<Rightarrow> int \<Rightarrow> int" where
  "dim i sl = (case block_from_id i of
     None \<Rightarrow> sl
   | Some binf \<Rightarrow> let sl = sl - sint (bi_opacity binf) in if sl < 0 then 0 else sl)"

fun light_above :: "nat \<Rightarrow> nat \<Rightarrow> nat \<Rightarrow> int \<Rightarrow> int \<Rightarrow> chunk \<Rightarrow> chunk option" where
  "light_above x z 0 h sl ch = Some ch"
| "light_above x z (Suc y) h sl ch =
     (if int y \<ge> h then do {
        i \<leftarrow> chunk_get_id x y z ch;
        let sl = dim i sl;
        ch \<leftarrow> chunk_set_sky_light x y z (word_of_int sl) ch;
        light_above x z y h sl ch }
      else Some ch)"

definition light_column :: "nat \<Rightarrow> nat \<Rightarrow> chunk \<Rightarrow> chunk option" where
  "light_column x z ch = do {
     ch \<leftarrow> chunk_set_sky_light x 255 z 15 ch;
     h \<leftarrow> get_height x z ch;
     ch \<leftarrow> light_above x z 255 h 15 ch;
     fill_with chunk_set_sky_light (map (\<lambda>y. (x, y, z)) (rev [0..<nat h])) 0 ch }"

fun light_columns :: "(nat \<times> nat) list \<Rightarrow> chunk \<Rightarrow> chunk option" where
  "light_columns [] ch = Some ch"
| "light_columns ((x, z) # cols) ch = Option.bind (light_column x z ch) (light_columns cols)"

definition light_chunk :: "chunk \<Rightarrow> chunk option" where
  "light_chunk ch = light_columns (List.product [0..<16] [0..<16]) ch"

text \<open>The level that falls from the sky on the block at \<open>y\<close> of a column, past the blocks above.\<close>

definition column_light :: "(nat \<Rightarrow> u16) \<Rightarrow> nat \<Rightarrow> int" where
  "column_light ids y = foldl (\<lambda>sl k. dim (ids k) sl) 15 (rev [y..<255])"

lemma column_light_255 [simp]: "column_light ids 255 = 15"
  by (simp add: column_light_def)

lemma column_light_step: "y < 255 \<Longrightarrow> column_light ids y = dim (ids y) (column_light ids (Suc y))"
  by (simp add: column_light_def upt_rec)

lemma opacities: "list_all (\<lambda>b. 0 \<le> sint (bi_opacity b) \<and> sint (bi_opacity b) \<le> 15) block_list"
  by code_simp

lemma dim_range: "0 \<le> sl \<Longrightarrow> sl \<le> 15 \<Longrightarrow> 0 \<le> dim i sl \<and> dim i sl \<le> 15"
proof -
  assume sl: "0 \<le> sl" "sl \<le> 15"
  show ?thesis
  proof (cases "block_from_id i")
    case None
    then show ?thesis using sl by (simp add: dim_def)
  next
    case (Some b)
    then have "b \<in> set block_list" by (auto simp: block_from_id_def Let_def split: if_splits)
    with opacities have "0 \<le> sint (bi_opacity b)" by (auto simp: list_all_iff)
    with Some sl show ?thesis by (simp add: dim_def Let_def)
  qed
qed

lemma column_light_range: "y \<le> 255 \<Longrightarrow> 0 \<le> column_light ids y \<and> column_light ids y \<le> 15"
proof (induction "255 - y" arbitrary: y)
  case 0
  then show ?case by simp
next
  case (Suc n)
  then have "0 \<le> column_light ids (Suc y) \<and> column_light ids (Suc y) \<le> 15" by simp
  with Suc.hyps(2) dim_range show ?case by (simp add: column_light_step)
qed

lemma level_word: "0 \<le> sl \<Longrightarrow> sl \<le> 15 \<Longrightarrow> unat (word_of_int sl :: byte) < 16"
proof -
  assume "0 \<le> sl" "sl \<le> 15"
  then have "(word_of_int sl :: byte) = of_nat (nat sl)" "nat sl < 16" by simp_all
  then show ?thesis by (simp add: unat_of_nat)
qed

text \<open>What a lighting step may change: sky light only.\<close>

definition sky_only :: "chunk \<Rightarrow> chunk \<Rightarrow> (nat \<Rightarrow> nat \<Rightarrow> nat \<Rightarrow> byte) \<Rightarrow> bool" where
  "sky_only c c' sl \<longleftrightarrow> chunk_wf c' \<and> chunk_frame c c' \<and> (\<forall>x y z. in_chunk x y z \<longrightarrow>
     raw_type c' x y z = raw_type c x y z \<and> light_at c' x y z = light_at c x y z \<and> sky_at c' x y z = sl x y z)"

lemma sky_only_refl: "chunk_wf c \<Longrightarrow> sky_only c c (sky_at c)"
  by (simp add: sky_only_def chunk_frame_def)

lemma sky_only_trans: "sky_only c c1 f \<Longrightarrow> sky_only c1 c2 g \<Longrightarrow> sky_only c c2 g"
  by (auto simp: sky_only_def chunk_frame_def)

lemma sky_only_cong:
  "sky_only c c' f \<Longrightarrow> (\<And>x y z. in_chunk x y z \<Longrightarrow> f x y z = g x y z) \<Longrightarrow> sky_only c c' g"
  by (simp add: sky_only_def)

lemma set_sky_only:
  assumes "chunk_wf c" "in_chunk x y z" "unat v < 16"
  obtains c' where "chunk_set_sky_light x y z v c = Some c'" "sky_only c c' (upd3 (sky_at c) x y z v)"
  using chunk_set_sky_light_cells [OF assms] that by (auto simp: sky_only_def cells_after_def)

lemma light_above_sky:
  assumes "chunk_wf c" "x < 16" "z < 16" "n \<le> 255" "0 \<le> h"
    "\<And>y. y < 256 \<Longrightarrow> id_at c x y z = ids y"
  shows "\<exists>c'. light_above x z n h (column_light ids n) c = Some c' \<and> sky_only c c'
    (\<lambda>x' y' z'. if x' = x \<and> z' = z \<and> h \<le> int y' \<and> y' < n then word_of_int (column_light ids y') else sky_at c x' y' z')"
  using assms
proof (induction n arbitrary: c)
  case 0
  then show ?case using sky_only_refl [of c] by simp
next
  case (Suc n)
  show ?case
  proof (cases "h \<le> int n")
    case False
    then have n: "\<not> (h \<le> int y' \<and> y' < Suc n)" for y' by linarith
    have "sky_only c c (\<lambda>x' y' z'. if x' = x \<and> z' = z \<and> h \<le> int y' \<and> y' < Suc n
        then word_of_int (column_light ids y') else sky_at c x' y' z')"
      by (rule sky_only_cong [OF sky_only_refl [OF Suc.prems(1)]]) (use n in auto)
    with False show ?thesis by simp
  next
    case True
    have pos: "in_chunk x n z" using Suc.prems by (simp add: in_chunk_def)
    have get: "chunk_get_id x n z c = Some (ids n)"
      using chunk_get_id_at [OF _ pos, of c] Suc.prems by (simp add: chunk_wf_def)
    have lvl: "dim (ids n) (column_light ids (Suc n)) = column_light ids n"
      using column_light_step [of n ids] Suc.prems(4) by simp
    have small: "unat (word_of_int (column_light ids n) :: byte) < 16"
      using column_light_range [of n ids] Suc.prems(4) by (intro level_word) simp_all
    from set_sky_only [OF Suc.prems(1) pos small] obtain c1 where
      c1: "chunk_set_sky_light x n z (word_of_int (column_light ids n)) c = Some c1"
        "sky_only c c1 (upd3 (sky_at c) x n z (word_of_int (column_light ids n)))" .
    then have "chunk_wf c1" "\<And>y. y < 256 \<Longrightarrow> id_at c1 x y z = ids y"
      using Suc.prems by (simp_all add: sky_only_def id_at_def in_chunk_def)
    with Suc.IH [of c1] Suc.prems obtain c2 where
      c2: "light_above x z n h (column_light ids n) c1 = Some c2" "sky_only c1 c2
        (\<lambda>x' y' z'. if x' = x \<and> z' = z \<and> h \<le> int y' \<and> y' < n then word_of_int (column_light ids y') else sky_at c1 x' y' z')"
      by auto
    have "sky_only c c2 (\<lambda>x' y' z'. if x' = x \<and> z' = z \<and> h \<le> int y' \<and> y' < Suc n
        then word_of_int (column_light ids y') else sky_at c x' y' z')"
      by (rule sky_only_cong [OF sky_only_trans [OF c1(2) c2(2)]])
         (use c1(2) True in \<open>auto simp: sky_only_def upd3_def less_Suc_eq\<close>)
    with True get lvl c1(1) c2(1) show ?thesis by (simp add: Let_def)
  qed
qed

text \<open>The sky light a chunk gets: none below the height, the level of the column from there up.\<close>

definition lit :: "chunk \<Rightarrow> nat \<Rightarrow> nat \<Rightarrow> nat \<Rightarrow> byte" where
  "lit c x y z = (if int y < ch_hmap c ! col_index x z then 0
     else word_of_int (column_light (\<lambda>k. id_at c x k z) y))"

lemma fill_sky_only:
  assumes "chunk_wf c" "\<forall>(x, y, z) \<in> set ps. in_chunk x y z"
  shows "\<exists>c'. fill_with chunk_set_sky_light ps 0 c = Some c' \<and>
    sky_only c c' (\<lambda>x y z. if (x, y, z) \<in> set ps then 0 else sky_at c x y z)"
  using assms
proof (induction ps arbitrary: c)
  case Nil
  then show ?case using sky_only_refl by simp
next
  case (Cons p ps)
  obtain x y z where p: "p = (x, y, z)" by (cases p)
  have "unat (0 :: byte) < 16" by simp
  with Cons.prems obtain c1 where c1: "chunk_set_sky_light x y z 0 c = Some c1"
    "sky_only c c1 (upd3 (sky_at c) x y z 0)"
    using set_sky_only [of c x y z 0] by (auto simp: p)
  with Cons.IH [of c1] Cons.prems obtain c2 where c2: "fill_with chunk_set_sky_light ps 0 c1 = Some c2"
    "sky_only c1 c2 (\<lambda>x y z. if (x, y, z) \<in> set ps then 0 else sky_at c1 x y z)"
    by (auto simp: sky_only_def)
  have "sky_only c c2 (\<lambda>x' y' z'. if (x', y', z') \<in> set (p # ps) then 0 else sky_at c x' y' z')"
    by (rule sky_only_cong [OF sky_only_trans [OF c1(2) c2(2)]])
       (use c1(2) in \<open>auto simp: sky_only_def upd3_def p\<close>)
  with c1(1) c2(1) show ?case by (simp add: p)
qed

lemma sky_only_same:
  assumes "sky_only c c' f" "x < 16" "z < 16" "chunk_wf c"
  shows "y < 256 \<Longrightarrow> id_at c' x y z = id_at c x y z" "ch_hmap c' ! col_index x z = ch_hmap c ! col_index x z"
proof -
  have ids: "id_at c' x y z = id_at c x y z" if "y < 256" for y
    using assms(1-3) that by (simp add: sky_only_def id_at_def in_chunk_def)
  then show "y < 256 \<Longrightarrow> id_at c' x y z = id_at c x y z" .
  have "height_right (\<lambda>y. id_at c' x y z) 256 (ch_hmap c' ! col_index x z)"
    "height_right (\<lambda>y. id_at c x y z) 256 (ch_hmap c ! col_index x z)"
    using assms by (simp_all add: sky_only_def chunk_wf_def heights_ok_def)
  moreover have "height_right (\<lambda>y. id_at c' x y z) 256 h = height_right (\<lambda>y. id_at c x y z) 256 h" for h
    by (rule height_right_cong) (rule ids)
  ultimately show "ch_hmap c' ! col_index x z = ch_hmap c ! col_index x z"
    using height_right_unique by blast
qed

lemma height_range:
  assumes "chunk_wf c" "x < 16" "z < 16"
  shows "0 \<le> ch_hmap c ! col_index x z \<and> ch_hmap c ! col_index x z \<le> 256"
proof -
  have "height_right (\<lambda>y. id_at c x y z) 256 (ch_hmap c ! col_index x z)"
    using assms by (simp add: chunk_wf_def heights_ok_def)
  then show ?thesis by (auto simp: height_right_def)
qed

lemma light_column_sky:
  assumes wf: "chunk_wf c" and xz: "x < 16" "z < 16"
  shows "\<exists>c'. light_column x z c = Some c' \<and> sky_only c c'
    (\<lambda>x' y' z'. if x' = x \<and> z' = z then lit c x y' z else sky_at c x' y' z')"
proof -
  let ?h = "ch_hmap c ! col_index x z" and ?ids = "\<lambda>y. id_at c x y z"
  have pos: "in_chunk x 255 z" using xz by (simp add: in_chunk_def)
  obtain c1 where c1: "chunk_set_sky_light x 255 z 15 c = Some c1" "sky_only c c1 (upd3 (sky_at c) x 255 z 15)"
    by (rule set_sky_only [OF wf pos, of 15]) simp_all
  note same1 = sky_only_same [OF c1(2) xz wf] and h = height_range [OF wf xz]
  have h1: "get_height x z c1 = Some ?h" using same1(2) xz by (simp add: get_height_def col_index_eq)
  have wf1: "chunk_wf c1" using c1(2) by (simp add: sky_only_def)
  from light_above_sky [OF wf1 xz, of 255 ?h ?ids] same1(1) h obtain c2 where
    c2: "light_above x z 255 ?h 15 c1 = Some c2" "sky_only c1 c2
      (\<lambda>x' y' z'. if x' = x \<and> z' = z \<and> ?h \<le> int y' \<and> y' < 255 then word_of_int (column_light ?ids y') else sky_at c1 x' y' z')"
    by auto
  let ?ps = "map (\<lambda>y. (x, y, z)) (rev [0..<nat ?h])"
  have "\<forall>(x, y, z) \<in> set ?ps. in_chunk x y z" using h xz by (auto simp: in_chunk_def)
  moreover have "chunk_wf c2" using c2(2) by (simp add: sky_only_def)
  ultimately obtain c3 where c3: "fill_with chunk_set_sky_light ?ps 0 c2 = Some c3"
    "sky_only c2 c3 (\<lambda>x' y' z'. if (x', y', z') \<in> set ?ps then 0 else sky_at c2 x' y' z')"
    using fill_sky_only by blast
  have "sky_only c c3 (\<lambda>x' y' z'. if x' = x \<and> z' = z then lit c x y' z else sky_at c x' y' z')"
  proof (rule sky_only_cong [OF sky_only_trans [OF sky_only_trans [OF c1(2) c2(2)] c3(2)]])
    fix x' y' z' assume p: "in_chunk x' y' z'"
    have ps: "(x', y', z') \<in> set ?ps \<longleftrightarrow> x' = x \<and> z' = z \<and> int y' < ?h"
      using h by (auto simp: in_chunk_def)
    have s2: "sky_at c2 x' y' z' = (if x' = x \<and> z' = z \<and> ?h \<le> int y' \<and> y' < 255
        then word_of_int (column_light ?ids y') else upd3 (sky_at c) x 255 z 15 x' y' z')"
      using c1(2) c2(2) p by (simp add: sky_only_def)
    have "y' = 255 \<or> y' < 255" using p by (auto simp: in_chunk_def)
    then show "(if (x', y', z') \<in> set ?ps then 0 else sky_at c2 x' y' z') =
        (if x' = x \<and> z' = z then lit c x y' z else sky_at c x' y' z')"
      unfolding ps s2 by (auto simp: lit_def upd3_def)
  qed
  with c1(1) h1 c2(1) c3(1) show ?thesis by (simp add: light_column_def)
qed

lemma light_columns_sky:
  assumes "chunk_wf c" "\<forall>(x, z) \<in> set cols. x < 16 \<and> z < 16" "distinct cols"
  shows "\<exists>c'. light_columns cols c = Some c' \<and> sky_only c c'
    (\<lambda>x y z. if (x, z) \<in> set cols then lit c x y z else sky_at c x y z)"
  using assms
proof (induction cols arbitrary: c)
  case Nil
  then show ?case using sky_only_refl by simp
next
  case (Cons p cols)
  obtain x z where p: "p = (x, z)" by fastforce
  with Cons.prems obtain c1 where c1: "light_column x z c = Some c1"
    "sky_only c c1 (\<lambda>x' y' z'. if x' = x \<and> z' = z then lit c x y' z else sky_at c x' y' z')"
    using light_column_sky [of c x z] by auto
  with Cons.IH [of c1] Cons.prems obtain c2 where c2: "light_columns cols c1 = Some c2"
    "sky_only c1 c2 (\<lambda>x y z. if (x, z) \<in> set cols then lit c1 x y z else sky_at c1 x y z)"
    by (auto simp: sky_only_def)
  have lit1: "lit c1 x' y' z' = lit c x' y' z'" if "in_chunk x' y' z'" for x' y' z'
  proof -
    have xz: "x' < 16" "z' < 16" using that by (simp_all add: in_chunk_def)
    note same = sky_only_same [OF c1(2) xz Cons.prems(1)]
    have "column_light (\<lambda>k. id_at c1 x' k z') y' = column_light (\<lambda>k. id_at c x' k z') y'"
      unfolding column_light_def by (rule foldl_cong) (simp_all add: same(1))
    then show ?thesis by (simp add: lit_def same(2))
  qed
  have "sky_only c c2 (\<lambda>x' y' z'. if (x', z') \<in> set (p # cols) then lit c x' y' z' else sky_at c x' y' z')"
    by (rule sky_only_cong [OF sky_only_trans [OF c1(2) c2(2)]])
       (use c1(2) lit1 in \<open>auto simp: sky_only_def p\<close>)
  with c1(1) c2(1) show ?case by (simp add: p)
qed

lemma light_chunk_sky:
  assumes "chunk_wf c"
  obtains c' where "light_chunk c = Some c'" "sky_only c c' (lit c)"
proof -
  let ?cols = "List.product [0..<16] [0..<16] :: (nat \<times> nat) list"
  have cols: "(x, z) \<in> set ?cols \<longleftrightarrow> x < 16 \<and> z < 16" for x z :: nat by auto
  then have "\<forall>(x, z) \<in> set ?cols. x < 16 \<and> z < 16" by blast
  moreover have "distinct ?cols" by (rule distinct_product) simp_all
  ultimately obtain c' where c': "light_columns ?cols c = Some c'" "sky_only c c'
    (\<lambda>x y z. if (x, z) \<in> set ?cols then lit c x y z else sky_at c x y z)"
    using light_columns_sky [OF assms] by blast
  have "sky_only c c' (lit c)" by (rule sky_only_cong [OF c'(2)]) (simp add: cols in_chunk_def)
  with c'(1) that show thesis by (simp add: light_chunk_def)
qed

text \<open>
  C17: \<open>light_chunk\<close> succeeds on every well-formed chunk and changes nothing but its sky light:
  below the height of a column it is dark, and from there up each block gets the 15 of the sky
  less the opacities of the blocks from the one below the top down to it, never below zero.
\<close>

theorem light_chunk_correct:
  assumes "chunk_wf c"
  shows "\<exists>c'. light_chunk c = Some c' \<and> chunk_wf c' \<and> (\<forall>x y z. in_chunk x y z \<longrightarrow>
     id_at c' x y z = id_at c x y z \<and> light_at c' x y z = light_at c x y z \<and>
     sky_at c' x y z = (if int y < ch_hmap c ! col_index x z then 0
        else word_of_int (column_light (\<lambda>k. id_at c x k z) y)))"
proof -
  obtain c' where "light_chunk c = Some c'" "sky_only c c' (lit c)" by (rule light_chunk_sky [OF assms])
  then show ?thesis
    by (intro exI [of _ c']) (simp add: sky_only_def id_at_def in_chunk_def lit_def)
qed

theorem light_chunk_correct_witness:
  "\<exists>c'. light_chunk (chunk_init 0 0) = Some c' \<and> chunk_wf c'"
  using light_chunk_correct [OF chunk_init_wf] by blast

end
