(* ===== verification/Inventory.thy ===== *)
theory Inventory
  imports Hc_Prelude
begin

text \<open>
  Windows and inventories: \<open>src/inv/slot.cpp\<close>, \<open>src/inv/window.cpp\<close>, \<open>src/inv/inventory.cpp\<close>.
  The vector of slot pointers is a list of options (a null pointer is \<open>None\<close>), indexed without
  a check: an index out of range is the outer result \<open>None\<close>. Amounts are \<open>int\<close>s.
\<close>

record slot_item =
  si_id :: u16
  si_damage :: u16
  si_amount :: int

definition EMPTY_SLOT_VALUE :: u16 where
  "EMPTY_SLOT_VALUE = - 1"

definition slot_item_make :: "u16 \<Rightarrow> u16 \<Rightarrow> int \<Rightarrow> slot_item" where
  "slot_item_make id' damage amount = \<lparr>si_id = id', si_damage = damage, si_amount = amount\<rparr>"

record window =
  w_wid :: byte
  w_slots :: "slot_item option list"
  w_add_ranges :: "(nat \<times> nat) list"

definition window_init :: "byte \<Rightarrow> nat \<Rightarrow> window" where
  "window_init wid slot_count =
     \<lparr>w_wid = wid, w_slots = replicate slot_count None, w_add_ranges = []\<rparr>"

definition window_get :: "nat \<Rightarrow> window \<Rightarrow> slot_item option option" where
  "window_get i w = (if i < length (w_slots w) then Some (w_slots w ! i) else None)"

definition items_compatible :: "slot_item option \<Rightarrow> slot_item option \<Rightarrow> bool" where
  "items_compatible a b = (case (a, b) of
     (Some a, Some b) \<Rightarrow>
       if si_id a \<noteq> si_id b then False
       else if si_damage a \<noteq> si_damage b then False
       else True
   | _ \<Rightarrow> True)"

definition push_add_range :: "nat \<Rightarrow> nat \<Rightarrow> window \<Rightarrow> window" where
  "push_add_range start end' w = w\<lparr>w_add_ranges := w_add_ranges w @ [(start, end')]\<rparr>"

definition try_add :: "nat \<Rightarrow> slot_item \<Rightarrow> int \<Rightarrow> window \<Rightarrow> (int \<times> window) option" where
  "try_add index it count w = (case window_get index w of
     None \<Rightarrow> None
   | Some None \<Rightarrow> Some (count, w\<lparr>w_slots := (w_slots w)[index := Some (it\<lparr>si_amount := count\<rparr>)]\<rparr>)
   | Some (Some slot) \<Rightarrow>
       if \<not> items_compatible (Some slot) (Some it) then Some (0, w)
       else let max_stack = 64;
                room = max_stack - si_amount slot;
                to_add = (if count > room then count else room)
            in Some (to_add,
                 w\<lparr>w_slots := (w_slots w)[index := Some (slot\<lparr>si_amount := si_amount slot + to_add\<rparr>)]\<rparr>))"

text \<open>The slots the two nested loops of \<open>add\<close> visit, in order, until \<open>goto done\<close>.\<close>

definition add_order :: "window \<Rightarrow> nat list" where
  "add_order w = concat (map (\<lambda>(start, end'). [start..<Suc end']) (w_add_ranges w))"

fun window_add_loop :: "slot_item \<Rightarrow> nat list \<Rightarrow> int \<Rightarrow> window \<Rightarrow> (int \<times> window) option" where
  "window_add_loop it [] left w = Some (left, w)"
| "window_add_loop it (i # is) left w = (case try_add i it left w of
     None \<Rightarrow> None
   | Some (n, w') \<Rightarrow>
       if left - n = 0 then Some (left - n, w') else window_add_loop it is (left - n) w')"

definition window_add :: "slot_item \<Rightarrow> window \<Rightarrow> (int \<times> window) option" where
  "window_add it w = window_add_loop it (add_order w) (si_amount it) w"

definition window_set :: "nat \<Rightarrow> slot_item option \<Rightarrow> window \<Rightarrow> window option" where
  "window_set index item w =
     (if index < length (w_slots w) then Some (w\<lparr>w_slots := (w_slots w)[index := item]\<rparr>) else None)"

definition inventory_init :: window where
  "inventory_init = push_add_range 9 35 (push_add_range 36 44 (window_init 0 45))"

subsection \<open>Conservation\<close>

definition slot_amount :: "slot_item option \<Rightarrow> int" where
  "slot_amount s = (case s of None \<Rightarrow> 0 | Some it \<Rightarrow> si_amount it)"

definition window_total :: "window \<Rightarrow> int" where
  "window_total w = sum_list (map slot_amount (w_slots w))"

definition window_wf :: "window \<Rightarrow> bool" where
  "window_wf w \<longleftrightarrow> (\<forall>i \<in> set (add_order w). i < length (w_slots w))"

text \<open>What an addition may touch: amounts and empty slots, only at the given indices.\<close>

definition window_grown :: "nat set \<Rightarrow> window \<Rightarrow> window \<Rightarrow> bool" where
  "window_grown I w w' \<longleftrightarrow> w_wid w' = w_wid w \<and> w_add_ranges w' = w_add_ranges w
     \<and> length (w_slots w') = length (w_slots w)
     \<and> (\<forall>i < length (w_slots w). i \<notin> I \<longrightarrow> w_slots w' ! i = w_slots w ! i)"

lemma sum_list_update_int:
  "i < length xs \<Longrightarrow> sum_list (xs[i := (x :: int)]) = sum_list xs - xs ! i + x"
  by (induction xs arbitrary: i) (auto split: nat.split)

lemma window_total_update:
  "i < length (w_slots w) \<Longrightarrow>
   window_total (w\<lparr>w_slots := (w_slots w)[i := s]\<rparr>) = window_total w - slot_amount (w_slots w ! i) + slot_amount s"
  by (simp add: window_total_def map_update sum_list_update_int)

lemma window_grown_refl [simp]: "window_grown I w w"
  by (simp add: window_grown_def)

lemma window_grown_update:
  "i \<in> I \<Longrightarrow> window_grown I w (w\<lparr>w_slots := (w_slots w)[i := s]\<rparr>)"
  by (auto simp: window_grown_def intro!: nth_list_update_neq)

lemma window_grown_trans: "window_grown I w w1 \<Longrightarrow> window_grown I w1 w2 \<Longrightarrow> window_grown I w w2"
  by (auto simp: window_grown_def)

lemma try_add_spec:
  assumes "i < length (w_slots w)" "i \<in> I"
  obtains n w' where "try_add i it count w = Some (n, w')" "window_total w' = window_total w + n"
    "window_grown I w w'"
proof (cases "w_slots w ! i")
  case None
  show thesis
    by (rule that, use assms None in \<open>simp add: try_add_def window_get_def\<close>)
       (use assms None in \<open>simp_all add: window_total_update window_grown_update slot_amount_def\<close>)
next
  case (Some slot)
  show thesis
  proof (cases "items_compatible (Some slot) (Some it)")
    case False
    then show thesis
      by (intro that [of 0 w]) (use assms Some in \<open>simp_all add: try_add_def window_get_def\<close>)
  next
    case True
    show thesis
      by (rule that, use True assms Some in \<open>simp add: try_add_def window_get_def Let_def\<close>)
         (use assms Some in \<open>simp_all add: window_total_update window_grown_update slot_amount_def\<close>)
  qed
qed

lemma window_add_loop_spec:
  "\<forall>i \<in> set is. i < length (w_slots w) \<Longrightarrow> set is \<subseteq> I \<Longrightarrow>
   \<exists>l w'. window_add_loop it is left w = Some (l, w') \<and> window_total w' + l = window_total w + left
     \<and> window_grown I w w'"
proof (induction "is" arbitrary: left w)
  case (Cons i "is")
  then have "i < length (w_slots w)" "i \<in> I" by simp_all
  then obtain n w1 where t: "try_add i it left w = Some (n, w1)"
    "window_total w1 = window_total w + n" "window_grown I w w1"
    by (rule try_add_spec)
  then have "length (w_slots w1) = length (w_slots w)" by (simp add: window_grown_def)
  with Cons.IH [of w1 "left - n"] Cons.prems obtain l w2 where
    "window_add_loop it is (left - n) w1 = Some (l, w2)"
    "window_total w2 + l = window_total w1 + (left - n)" "window_grown I w1 w2" by auto
  with t show ?case using window_grown_trans by fastforce
qed simp


lemma inventory_wf: "window_wf inventory_init"
  by (auto simp: window_wf_def inventory_init_def add_order_def push_add_range_def window_init_def)


text \<open>
  Adding one item to an inventory that holds ten of its kind fills that stack to 64, more
  than was added, and leaves a stack with the negative amount -53 in the next slot, because
  \<open>try_add\<close> takes the larger of the count and the room.
\<close>

theorem window_add_overfills:
  "let w = inventory_init\<lparr>w_slots := (w_slots inventory_init)[36 := Some (slot_item_make 1 0 10)]\<rparr>
   in case window_add (slot_item_make 1 0 1) w of
        Some (l, w') \<Rightarrow> l = 0 \<and> w_slots w' ! 36 = Some (slot_item_make 1 0 64)
          \<and> w_slots w' ! 37 = Some (slot_item_make 1 0 (- 53))
      | None \<Rightarrow> False"
  by code_simp

end
