(* ===== verification/Packet.thy ===== *)
theory Packet
  imports Byte_Cursor Binary
begin

text \<open>
  \<open>class packet_reader\<close> and \<open>class packet\<close> of \<open>src/network/packet.cpp\<close>.

  The reader does not check bounds, so a read out of its array is the result \<open>None\<close>. A packet
  under construction owns one block of memory, of which the first \<open>rbeg\<close> bytes are reserved for
  the length field; its array pointer is always \<open>rbeg\<close> bytes into the block. \<open>None\<close> is the
  result of an operation that would leave the block.
\<close>

subsection \<open>Reading\<close>

record packet_reader =
  pr_arr :: "byte list"
  pr_len :: nat
  pr_pos :: nat

definition packet_reader_init :: "byte list \<Rightarrow> packet_reader" where
  "packet_reader_init arr = \<lparr>pr_arr = arr, pr_len = length arr, pr_pos = 0\<rparr>"

definition pr_rewind :: "packet_reader \<Rightarrow> packet_reader" where
  "pr_rewind r = r\<lparr>pr_pos := 0\<rparr>"

text \<open>The bytes from \<open>arr + pos\<close> on, and the reader with its position moved.\<close>

definition pr_rest :: "packet_reader \<Rightarrow> byte list" where
  "pr_rest r = drop (pr_pos r) (pr_arr r)"

definition pr_advance :: "int \<Rightarrow> packet_reader \<Rightarrow> packet_reader" where
  "pr_advance n r = r\<lparr>pr_pos := nat ((int (pr_pos r) + n) mod 2 ^ 32)\<rparr>"

definition pr_read_bool :: "packet_reader \<Rightarrow> (bool \<times> packet_reader) option" where
  "pr_read_bool r = (case pr_rest r of
     [] \<Rightarrow> None | b # _ \<Rightarrow> Some (if b \<noteq> 0 then True else False, pr_advance 1 r))"

definition pr_read_byte :: "packet_reader \<Rightarrow> (byte \<times> packet_reader) option" where
  "pr_read_byte r = (case pr_rest r of [] \<Rightarrow> None | b # _ \<Rightarrow> Some (b, pr_advance 1 r))"

definition pr_read_short :: "packet_reader \<Rightarrow> (u16 \<times> packet_reader) option" where
  "pr_read_short r = map_option (\<lambda>v. (v, pr_advance 2 r)) (read_short_be (pr_rest r))"

definition pr_read_int :: "packet_reader \<Rightarrow> (u32 \<times> packet_reader) option" where
  "pr_read_int r = map_option (\<lambda>v. (v, pr_advance 4 r)) (read_int_be (pr_rest r))"

definition pr_read_long :: "packet_reader \<Rightarrow> (u64 \<times> packet_reader) option" where
  "pr_read_long r = map_option (\<lambda>v. (v, pr_advance 8 r)) (read_long_be (pr_rest r))"

definition pr_read_float :: "packet_reader \<Rightarrow> (u32 \<times> packet_reader) option" where
  "pr_read_float r = map_option (\<lambda>v. (v, pr_advance 4 r)) (read_float_be (pr_rest r))"

definition pr_read_double :: "packet_reader \<Rightarrow> (u64 \<times> packet_reader) option" where
  "pr_read_double r = map_option (\<lambda>v. (v, pr_advance 8 r)) (read_double_be (pr_rest r))"

text \<open>
  The length of an overlong varint is never stored, so the position would move by an
  indeterminate amount: \<open>None\<close>.
\<close>

definition pr_read_varint :: "packet_reader \<Rightarrow> (u32 \<times> packet_reader) option" where
  "pr_read_varint r = (case read_varint (pr_rest r) of
     Some (v, Some vl) \<Rightarrow> Some (v, pr_advance (int vl) r)
   | _ \<Rightarrow> None)"

definition pr_read_varlong :: "packet_reader \<Rightarrow> (u64 \<times> packet_reader) option" where
  "pr_read_varlong r = (case read_varlong (pr_rest r) of
     Some (v, Some vl) \<Rightarrow> Some (v, pr_advance (int vl) r)
   | _ \<Rightarrow> None)"

text \<open>The string, if the function returned true; the position moves only then.\<close>

definition pr_read_string ::
  "int \<Rightarrow> packet_reader \<Rightarrow> (byte list option \<times> packet_reader) option" where
  "pr_read_string len r = (case read_mc_string (pr_rest r) len of
     None \<Rightarrow> None
   | Some (None, _) \<Rightarrow> Some (None, r)
   | Some (Some s, vl) \<Rightarrow> Some (Some s, pr_advance vl r))"

definition pr_read_bytes :: "int \<Rightarrow> packet_reader \<Rightarrow> (byte list \<times> packet_reader) option" where
  "pr_read_bytes len r =
     (if 0 \<le> len \<and> nat len \<le> length (pr_rest r)
      then Some (take (nat len) (pr_rest r), pr_advance len r) else None)"

subsection \<open>Writing\<close>

record packet =
  pk_block :: "cell list"
  pk_rbeg :: nat
  pk_cap :: nat
  pk_len :: nat
  pk_pos :: nat

definition packet_init :: "nat \<Rightarrow> nat \<Rightarrow> packet" where
  "packet_init init_cap reserve_beg =
     \<lparr>pk_block = replicate (uadd reserve_beg init_cap) None, pk_rbeg = reserve_beg,
      pk_cap = init_cap, pk_len = 0, pk_pos = 0\<rparr>"

text \<open>The defaults of the constructor's arguments.\<close>

definition packet_new :: packet where
  "packet_new = packet_init 16 5"

definition pk_rewind :: "packet \<Rightarrow> packet" where
  "pk_rewind p = p\<lparr>pk_pos := 0\<rparr>"

definition pk_reset :: "packet \<Rightarrow> packet" where
  "pk_reset p = p\<lparr>pk_pos := 0, pk_len := 0\<rparr>"

definition pk_expand :: "nat \<Rightarrow> packet \<Rightarrow> packet option" where
  "pk_expand new_cap p =
     (if pk_cap p \<ge> new_cap then Some p
      else let narr = replicate (uadd (pk_rbeg p) new_cap) None in
        if pk_rbeg p + pk_len p \<le> length narr \<and> pk_rbeg p + pk_len p \<le> length (pk_block p)
        then Some (p\<lparr>pk_block :=
                       blit narr (pk_rbeg p) (take (pk_len p) (drop (pk_rbeg p) (pk_block p))),
                     pk_cap := new_cap\<rparr>)
        else None)"

definition pk_use_reserved :: "nat \<Rightarrow> packet \<Rightarrow> packet option" where
  "pk_use_reserved count p =
     (if count \<le> pk_rbeg p
      then Some (p\<lparr>pk_len := uadd (pk_len p) count, pk_pos := 0, pk_rbeg := pk_rbeg p - count\<rparr>)
      else None)"

text \<open>
  The two halves every \<open>put\<close> function is made of: make room for \<open>n\<close> bytes, growing the capacity
  to \<open>k\<close> tenths of itself plus \<open>n\<close>; store the bytes, advance, raise the length.
\<close>

definition pk_room :: "nat \<Rightarrow> nat \<Rightarrow> packet \<Rightarrow> packet option" where
  "pk_room k n p =
     (if uadd (pk_pos p) n > pk_cap p then pk_expand (uadd (umul (pk_cap p) k div 10) n) p
      else Some p)"

definition pk_store :: "byte list \<Rightarrow> packet \<Rightarrow> packet option" where
  "pk_store bs p =
     (if pk_rbeg p + pk_pos p + length bs \<le> length (pk_block p)
      then (let q = uadd (pk_pos p) (length bs)
            in Some (p\<lparr>pk_block := blit (pk_block p) (pk_rbeg p + pk_pos p) (map Some bs),
                       pk_pos := q, pk_len := (if q > pk_len p then q else pk_len p)\<rparr>))
      else None)"

definition pk_put :: "nat \<Rightarrow> nat \<Rightarrow> byte list \<Rightarrow> packet \<Rightarrow> packet option" where
  "pk_put k n bs p = Option.bind (pk_room k n p) (pk_store bs)"

definition pk_put_bool :: "bool \<Rightarrow> packet \<Rightarrow> packet option" where
  "pk_put_bool val p = pk_put 16 1 [if val then 1 else 0] p"

definition pk_put_byte :: "byte \<Rightarrow> packet \<Rightarrow> packet option" where
  "pk_put_byte val p = pk_put 16 1 [val] p"

definition pk_put_short :: "u16 \<Rightarrow> packet \<Rightarrow> packet option" where
  "pk_put_short val p = pk_put 16 2 (write_short_be val) p"

definition pk_put_int :: "u32 \<Rightarrow> packet \<Rightarrow> packet option" where
  "pk_put_int val p = pk_put 16 4 (write_int_be val) p"

definition pk_put_long :: "u64 \<Rightarrow> packet \<Rightarrow> packet option" where
  "pk_put_long val p = pk_put 16 8 (write_long_be val) p"

definition pk_put_float :: "u32 \<Rightarrow> packet \<Rightarrow> packet option" where
  "pk_put_float val p = pk_put 16 4 (write_float_be val) p"

definition pk_put_double :: "u64 \<Rightarrow> packet \<Rightarrow> packet option" where
  "pk_put_double val p = pk_put 16 8 (write_double_be val) p"

definition pk_put_varint :: "u32 \<Rightarrow> packet \<Rightarrow> packet option" where
  "pk_put_varint val p = pk_put 16 5 (write_varint val) p"

definition pk_put_varlong :: "u64 \<Rightarrow> packet \<Rightarrow> packet option" where
  "pk_put_varlong val p = pk_put 16 10 (write_varlong val) p"

definition pk_strlen_upper_bound :: "byte list \<Rightarrow> nat" where
  "pk_strlen_upper_bound str = 5 + length str"

definition pk_put_string :: "byte list \<Rightarrow> packet \<Rightarrow> packet option" where
  "pk_put_string str p = pk_put 14 (pk_strlen_upper_bound str) (write_mc_string str) p"

definition pk_put_bytes :: "byte list \<Rightarrow> packet \<Rightarrow> packet option" where
  "pk_put_bytes arr p = pk_put 11 (length arr) arr p"

subsection \<open>The contents and the invariant\<close>

definition pk_contents :: "packet \<Rightarrow> byte list" where
  "pk_contents p = map the (take (pk_len p) (drop (pk_rbeg p) (pk_block p)))"

text \<open>The invariant of a packet whose reserved bytes are still reserved.\<close>

definition pk_ok :: "packet \<Rightarrow> bool" where
  "pk_ok p \<longleftrightarrow> length (pk_block p) = pk_rbeg p + pk_cap p \<and> pk_pos p \<le> pk_len p
     \<and> pk_len p \<le> pk_cap p \<and> pk_rbeg p < 2 ^ 16 \<and> pk_cap p < 2 ^ 31
     \<and> None \<notin> set (take (pk_len p) (drop (pk_rbeg p) (pk_block p)))"

definition pk_limit :: nat where
  "pk_limit = 2 ^ 27"

lemma pk_ok_init: "c < 2 ^ 31 \<Longrightarrow> r < 2 ^ 16 \<Longrightarrow> pk_ok (packet_init c r)"
  by (simp add: pk_ok_def packet_init_def cpp_arith)

lemma pk_contents_init [simp]: "pk_contents (packet_init c r) = []"
  by (simp add: pk_contents_def packet_init_def)

lemma length_pk_contents: "pk_ok p \<Longrightarrow> length (pk_contents p) = pk_len p"
  by (simp add: pk_contents_def pk_ok_def)

lemma pk_cells: "pk_ok p \<Longrightarrow> take (pk_len p) (drop (pk_rbeg p) (pk_block p)) = map Some (pk_contents p)"
  unfolding pk_ok_def pk_contents_def map_map comp_def
  by (rule sym, rule map_idI) (metis option.collapse)

lemma pk_expand_ok:
  assumes "pk_ok p" "pk_cap p \<le> c" "c < 2 ^ 31"
  shows "\<exists>p'. pk_expand c p = Some p' \<and> pk_ok p' \<and> pk_cap p' = c
    \<and> pk_contents p' = pk_contents p \<and> pk_len p' = pk_len p \<and> pk_pos p' = pk_pos p
    \<and> pk_rbeg p' = pk_rbeg p"
proof (cases "pk_cap p \<ge> c")
  case True
  with assms show ?thesis by (simp add: pk_expand_def)
next
  case False
  with assms have u: "uadd (pk_rbeg p) c = pk_rbeg p + c" "pk_len p \<le> c"
    by (auto simp: pk_ok_def intro!: uadd_small)
  with False assms show ?thesis
    by (auto simp: pk_expand_def pk_ok_def pk_contents_def blit_def min_def drop_take dest: in_set_takeD)
qed

lemma pk_room_ok:
  assumes "pk_ok p" "pk_len p + n \<le> pk_limit" "10 \<le> k" "k \<le> 16"
  shows "\<exists>p'. pk_room k n p = Some p' \<and> pk_ok p' \<and> pk_pos p + n \<le> pk_cap p'
    \<and> pk_cap p \<le> pk_cap p'
    \<and> pk_contents p' = pk_contents p \<and> pk_len p' = pk_len p \<and> pk_pos p' = pk_pos p
    \<and> pk_rbeg p' = pk_rbeg p"
proof -
  from assms have pos: "pk_pos p \<le> pk_len p" "pk_len p \<le> pk_cap p" by (auto simp: pk_ok_def)
  then have u: "uadd (pk_pos p) n = pk_pos p + n" using assms(2) by (simp add: cpp_arith pk_limit_def)
  show ?thesis
  proof (cases "pk_pos p + n > pk_cap p")
    case False
    with assms u show ?thesis by (simp add: pk_room_def)
  next
    case True
    with pos assms(2) have cap: "pk_cap p < 2 ^ 27" by (simp add: pk_limit_def)
    have "pk_cap p * k \<le> pk_cap p * 16" using assms(4) by simp
    also have "\<dots> < 2 ^ 31" using cap by simp
    finally have m: "pk_cap p * k < 2 ^ 31" .
    have ge: "pk_cap p \<le> pk_cap p * k div 10"
      using div_le_mono [of "pk_cap p * 10" "pk_cap p * k" 10] assms(3) by simp
    have le: "pk_cap p * k div 10 \<le> pk_cap p * 16 div 10"
      by (rule div_le_mono) (use assms(4) in simp)
    have c: "uadd (umul (pk_cap p) k div 10) n = pk_cap p * k div 10 + n"
      using m assms(2) le cap by (simp add: cpp_arith pk_limit_def)
    have "\<exists>p'. pk_expand (pk_cap p * k div 10 + n) p = Some p' \<and> pk_ok p'
      \<and> pk_cap p' = pk_cap p * k div 10 + n \<and> pk_contents p' = pk_contents p
      \<and> pk_len p' = pk_len p \<and> pk_pos p' = pk_pos p \<and> pk_rbeg p' = pk_rbeg p"
      by (rule pk_expand_ok [OF assms(1)]) (use ge le cap assms(2) in \<open>simp_all add: pk_limit_def\<close>)
    with True u c ge pos show ?thesis by (auto simp: pk_room_def)
  qed
qed

lemma pk_store_ok:
  assumes "pk_ok p" "pk_pos p + length bs \<le> pk_cap p"
  shows "\<exists>p'. pk_store bs p = Some p' \<and> pk_ok p'
    \<and> pk_contents p' = blit (pk_contents p) (pk_pos p) bs \<and> pk_pos p' = pk_pos p + length bs
    \<and> pk_cap p' = pk_cap p \<and> pk_rbeg p' = pk_rbeg p"
proof -
  let ?q = "pk_pos p + length bs"
  let ?d = "blit (pk_block p) (pk_rbeg p + pk_pos p) (map Some bs)"
  let ?l = "if ?q > pk_len p then ?q else pk_len p"
  from assms have len: "length (pk_block p) = pk_rbeg p + pk_cap p" "pk_pos p \<le> pk_len p"
    "pk_len p \<le> pk_cap p" "?q < 2 ^ 31" "pk_cap p < 2 ^ 31" "pk_rbeg p < 2 ^ 16"
    by (auto simp: pk_ok_def)
  have "take ?l (drop (pk_rbeg p) ?d)
      = blit (take (pk_len p) (drop (pk_rbeg p) (pk_block p))) (pk_pos p) (map Some bs)"
    using take_blit_grow [of "pk_pos p" "pk_len p" "drop (pk_rbeg p) (pk_block p)" "map Some bs"]
      len assms(2)
    by (simp only: length_map length_drop drop_blit_shift)
  also have "\<dots> = map Some (blit (pk_contents p) (pk_pos p) bs)"
    by (simp add: pk_cells [OF assms(1)] blit_def take_map drop_map)
  finally have cells: "take ?l (drop (pk_rbeg p) ?d) = map Some (blit (pk_contents p) (pk_pos p) bs)" .
  let ?p = "p\<lparr>pk_block := ?d, pk_pos := ?q, pk_len := ?l\<rparr>"
  have "pk_store bs p = Some ?p"
    using len assms(2) by (simp add: pk_store_def Let_def cpp_arith)
  moreover have "pk_contents ?p = blit (pk_contents p) (pk_pos p) bs"
    by (simp add: pk_contents_def cells comp_def)
  moreover have "pk_ok ?p"
    using len assms(2) cells by (auto simp: pk_ok_def)
  ultimately show ?thesis by auto
qed

lemma pk_put_ok:
  assumes "pk_ok p" "pk_len p + n \<le> pk_limit" "10 \<le> k" "k \<le> 16" "length bs \<le> n"
  shows "\<exists>p'. pk_put k n bs p = Some p' \<and> pk_ok p'
    \<and> pk_contents p' = blit (pk_contents p) (pk_pos p) bs \<and> pk_pos p' = pk_pos p + length bs
    \<and> pk_cap p \<le> pk_cap p' \<and> pk_rbeg p' = pk_rbeg p"
proof -
  from pk_room_ok [OF assms(1-4)] obtain q where q: "pk_room k n p = Some q" "pk_ok q"
    "pk_pos p + n \<le> pk_cap q" "pk_cap p \<le> pk_cap q" "pk_contents q = pk_contents p"
    "pk_pos q = pk_pos p" "pk_rbeg q = pk_rbeg p" by blast
  with pk_store_ok [of q bs] assms(5) show ?thesis by (auto simp: pk_put_def)
qed

interpretation pk: byte_cursor pk_put_bytes pk_contents pk_pos pk_ok pk_limit
proof unfold_locales
  fix p :: packet and bs :: "byte list"
  show "pk_ok p \<Longrightarrow> pk_pos p \<le> length (pk_contents p)"
    by (simp add: length_pk_contents) (simp add: pk_ok_def)
  assume "pk_ok p" "length (pk_contents p) + length bs \<le> pk_limit"
  then show "\<exists>p'. pk_put_bytes bs p = Some p' \<and> pk_ok p'
      \<and> pk_contents p' = blit (pk_contents p) (pk_pos p) bs \<and> pk_pos p' = pk_pos p + length bs"
    using pk_put_ok [of p "length bs" 11 bs] by (auto simp: pk_put_bytes_def length_pk_contents)
qed

text \<open>
  C8: while a packet holds less than \<open>2 ^ 27\<close> bytes, \<open>put_bytes\<close> never writes outside its
  block: it succeeds, keeps the invariant, overwrites exactly the bytes at the position (growing
  the contents when they pass the end) and advances the position.
\<close>

theorem packet_put_safe:
  assumes "pk_ok p" "pk_len p + length bs \<le> pk_limit"
  shows "\<exists>p'. pk_put_bytes bs p = Some p' \<and> pk_ok p'
    \<and> pk_contents p' = blit (pk_contents p) (pk_pos p) bs \<and> pk_pos p' = pk_pos p + length bs"
  using pk.put_law [of p bs] assms by (simp add: length_pk_contents)

theorem packet_put_safe_witness:
  "\<exists>p'. pk_put_bytes [1, 2, 3] (packet_init 2 5) = Some p' \<and> pk_contents p' = [1, 2, 3]"
proof -
  have "pk_ok (packet_init 2 5)" by (simp add: pk_ok_init)
  moreover have "pk_len (packet_init 2 5) + length [1, 2, 3 :: byte] \<le> pk_limit"
    by (simp add: packet_init_def pk_limit_def)
  ultimately show ?thesis
    using packet_put_safe [of "packet_init 2 5" "[1, 2, 3]"]
    by (auto simp: blit_def packet_init_def pk_contents_def)
qed

subsection \<open>Appending to a packet\<close>

text \<open>
  \<open>emits f bs n\<close>: run on a packet whose position is its end, with room for \<open>n\<close> bytes below the
  limit, \<open>f\<close> succeeds and appends \<open>bs\<close>. The packet builders are sequences of such steps.
\<close>

definition emits :: "(packet \<Rightarrow> packet option) \<Rightarrow> byte list \<Rightarrow> nat \<Rightarrow> bool" where
  "emits f bs n \<longleftrightarrow> length bs \<le> n \<and>
     (\<forall>p. pk.at_end p \<longrightarrow> pk_len p + n \<le> pk_limit \<longrightarrow>
       (\<exists>p'. f p = Some p' \<and> pk.at_end p' \<and> pk_contents p' = pk_contents p @ bs
          \<and> pk_cap p \<le> pk_cap p' \<and> pk_rbeg p' = pk_rbeg p))"

named_theorems emit_intros \<open>what each step of a packet builder appends\<close>

lemma at_end_len: "pk.at_end p \<Longrightarrow> pk_len p = length (pk_contents p) \<and> pk_ok p \<and> pk_pos p = pk_len p"
  by (simp add: pk.at_end_def length_pk_contents)

lemma emits_length: "emits f bs n \<Longrightarrow> length bs \<le> n"
  by (simp add: emits_def)

lemma emitsD:
  assumes "emits f bs n" "pk.at_end p" "pk_len p + n \<le> pk_limit"
  obtains p' where "f p = Some p'" "pk.at_end p'" "pk_contents p' = pk_contents p @ bs"
    "pk_cap p \<le> pk_cap p'" "pk_rbeg p' = pk_rbeg p" "pk_len p' = pk_len p + length bs"
proof -
  from assms obtain p' where p': "f p = Some p'" "pk.at_end p'" "pk_contents p' = pk_contents p @ bs"
    "pk_cap p \<le> pk_cap p'" "pk_rbeg p' = pk_rbeg p"
    unfolding emits_def by blast
  with at_end_len [OF p'(2)] at_end_len [OF assms(2)] that show thesis by simp
qed

lemma emits_put:
  assumes "10 \<le> k" "k \<le> 16" "length bs \<le> n"
  shows "emits (pk_put k n bs) bs n"
  unfolding emits_def
proof (intro conjI allI impI)
  fix p assume p: "pk.at_end p" "pk_len p + n \<le> pk_limit"
  from at_end_len [OF p(1)] have ok: "pk_ok p" "pk_pos p = length (pk_contents p)" by simp_all
  from pk_put_ok [OF ok(1) p(2) assms] show "\<exists>p'. pk_put k n bs p = Some p' \<and> pk.at_end p'
      \<and> pk_contents p' = pk_contents p @ bs \<and> pk_cap p \<le> pk_cap p' \<and> pk_rbeg p' = pk_rbeg p"
    by (auto simp: pk.at_end_def blit_def ok(2))
qed (rule assms)

lemma emits_id [emit_intros]: "emits Some [] 0"
  by (simp add: emits_def)

lemma emits_bind [emit_intros]:
  assumes "emits f a m" "emits g b n"
  shows "emits (\<lambda>p. Option.bind (f p) g) (a @ b) (m + n)"
  unfolding emits_def
proof (intro conjI allI impI)
  show "length (a @ b) \<le> m + n" using emits_length [OF assms(1)] emits_length [OF assms(2)] by simp
next
  fix p assume p: "pk.at_end p" "pk_len p + (m + n) \<le> pk_limit"
  then have "pk_len p + m \<le> pk_limit" by simp
  with assms(1) p(1) obtain p1 where p1: "f p = Some p1" "pk.at_end p1"
    "pk_contents p1 = pk_contents p @ a" "pk_cap p \<le> pk_cap p1" "pk_rbeg p1 = pk_rbeg p"
    "pk_len p1 = pk_len p + length a" by (rule emitsD)
  have "pk_len p1 + n \<le> pk_limit" using p(2) p1(6) emits_length [OF assms(1)] by simp
  with assms(2) p1(2) obtain p2 where "g p1 = Some p2" "pk.at_end p2"
    "pk_contents p2 = pk_contents p1 @ b" "pk_cap p1 \<le> pk_cap p2" "pk_rbeg p2 = pk_rbeg p1"
    by (rule emitsD)
  with p1 show "\<exists>p'. Option.bind (f p) g = Some p' \<and> pk.at_end p'
      \<and> pk_contents p' = pk_contents p @ (a @ b) \<and> pk_cap p \<le> pk_cap p' \<and> pk_rbeg p' = pk_rbeg p"
    by (intro exI [of _ p2]) simp
qed

lemma emits_fixed [emit_intros]:
  "emits (pk_put_bool b) (write_bool b) 1" "emits (pk_put_byte c) [c] 1"
  "emits (pk_put_short s) (write_short_be s) 2" "emits (pk_put_int i) (write_int_be i) 4"
  "emits (pk_put_long l) (write_long_be l) 8" "emits (pk_put_float i) (write_float_be i) 4"
  "emits (pk_put_double l) (write_double_be l) 8"
  unfolding pk_put_bool_def pk_put_byte_def pk_put_short_def pk_put_int_def pk_put_long_def
    pk_put_float_def pk_put_double_def write_bool_def
  by (rule emits_put; simp)+

lemma emits_varint [emit_intros]:
  "emits (pk_put_varint v) (write_varint v) 5" "emits (pk_put_varlong l) (write_varlong l) 10"
  unfolding pk_put_varint_def pk_put_varlong_def
  by (rule emits_put; simp add: length_write_varint length_write_varlong)+

lemma emits_string [emit_intros]:
  "emits (pk_put_string str) (write_mc_string str) (5 + length str)"
  unfolding pk_put_string_def pk_strlen_upper_bound_def
  by (rule emits_put)
     (use length_write_varint length_c_str_le [of str] in \<open>simp_all add: write_mc_string_def add_mono\<close>)

lemma emits_bytes [emit_intros]: "emits (pk_put_bytes arr) arr (length arr)"
  unfolding pk_put_bytes_def by (rule emits_put) simp_all

lemma at_end_new: "pk.at_end packet_new"
  by (simp add: pk.at_end_def packet_new_def pk_ok_init) (simp add: packet_init_def)

subsection \<open>Writing fields and reading them back\<close>

datatype field =
    F_bool bool
  | F_byte byte
  | F_short u16
  | F_int u32
  | F_long u64
  | F_float u32
  | F_double u64
  | F_varint u32
  | F_varlong u64
  | F_string "byte list"

datatype field_kind = K_bool | K_byte | K_short | K_int | K_long | K_float | K_double
  | K_varint | K_varlong | K_string

fun kind_of :: "field \<Rightarrow> field_kind" where
  "kind_of (F_bool _) = K_bool" | "kind_of (F_byte _) = K_byte" | "kind_of (F_short _) = K_short"
| "kind_of (F_int _) = K_int" | "kind_of (F_long _) = K_long" | "kind_of (F_float _) = K_float"
| "kind_of (F_double _) = K_double" | "kind_of (F_varint _) = K_varint"
| "kind_of (F_varlong _) = K_varlong" | "kind_of (F_string _) = K_string"

fun put_field :: "field \<Rightarrow> packet \<Rightarrow> packet option" where
  "put_field (F_bool v) = pk_put_bool v"
| "put_field (F_byte v) = pk_put_byte v"
| "put_field (F_short v) = pk_put_short v"
| "put_field (F_int v) = pk_put_int v"
| "put_field (F_long v) = pk_put_long v"
| "put_field (F_float v) = pk_put_float v"
| "put_field (F_double v) = pk_put_double v"
| "put_field (F_varint v) = pk_put_varint v"
| "put_field (F_varlong v) = pk_put_varlong v"
| "put_field (F_string v) = pk_put_string v"

text \<open>The buffer for a string has \<open>str_len\<close> bytes.\<close>

fun read_field :: "int \<Rightarrow> field_kind \<Rightarrow> packet_reader \<Rightarrow> (field \<times> packet_reader) option" where
  "read_field str_len K_bool r = map_option (apfst F_bool) (pr_read_bool r)"
| "read_field str_len K_byte r = map_option (apfst F_byte) (pr_read_byte r)"
| "read_field str_len K_short r = map_option (apfst F_short) (pr_read_short r)"
| "read_field str_len K_int r = map_option (apfst F_int) (pr_read_int r)"
| "read_field str_len K_long r = map_option (apfst F_long) (pr_read_long r)"
| "read_field str_len K_float r = map_option (apfst F_float) (pr_read_float r)"
| "read_field str_len K_double r = map_option (apfst F_double) (pr_read_double r)"
| "read_field str_len K_varint r = map_option (apfst F_varint) (pr_read_varint r)"
| "read_field str_len K_varlong r = map_option (apfst F_varlong) (pr_read_varlong r)"
| "read_field str_len K_string r = (case pr_read_string str_len r of
     Some (Some s, r') \<Rightarrow> Some (F_string s, r') | _ \<Rightarrow> None)"

fun put_fields :: "field list \<Rightarrow> packet \<Rightarrow> packet option" where
  "put_fields [] p = Some p"
| "put_fields (f # fs) p = Option.bind (put_field f p) (put_fields fs)"

fun read_fields :: "int \<Rightarrow> field_kind list \<Rightarrow> packet_reader \<Rightarrow> (field list \<times> packet_reader) option" where
  "read_fields str_len [] r = Some ([], r)"
| "read_fields str_len (k # ks) r = (case read_field str_len k r of
     None \<Rightarrow> None
   | Some (f, r1) \<Rightarrow> (case read_fields str_len ks r1 of
       None \<Rightarrow> None | Some (fs, r2) \<Rightarrow> Some (f # fs, r2)))"

fun field_bytes :: "field \<Rightarrow> byte list" where
  "field_bytes (F_bool v) = write_bool v"
| "field_bytes (F_byte v) = [v]"
| "field_bytes (F_short v) = write_short_be v"
| "field_bytes (F_int v) = write_int_be v"
| "field_bytes (F_long v) = write_long_be v"
| "field_bytes (F_float v) = write_float_be v"
| "field_bytes (F_double v) = write_double_be v"
| "field_bytes (F_varint v) = write_varint v"
| "field_bytes (F_varlong v) = write_varlong v"
| "field_bytes (F_string v) = write_mc_string v"

fun field_room :: "field \<Rightarrow> nat" where
  "field_room (F_string s) = 5 + length s" | "field_room _ = 10"

fun field_ok :: "int \<Rightarrow> field \<Rightarrow> bool" where
  "field_ok str_len (F_string s) \<longleftrightarrow> ascii s \<and> int (length s) < str_len"
| "field_ok _ _ \<longleftrightarrow> True"

lemma emits_weaken: "emits f bs m \<Longrightarrow> m \<le> n \<Longrightarrow> emits f bs n"
  unfolding emits_def using le_trans add_left_mono by (meson order_trans)

lemma emits_field: "emits (put_field f) (field_bytes f) (field_room f)"
  by (cases f) (auto intro!: emit_intros intro: emits_weaken [OF emits_fixed(1)]
      emits_weaken [OF emits_fixed(2)] emits_weaken [OF emits_fixed(3)] emits_weaken [OF emits_fixed(4)]
      emits_weaken [OF emits_fixed(5)] emits_weaken [OF emits_fixed(6)] emits_weaken [OF emits_fixed(7)]
      emits_weaken [OF emits_varint(1)])

lemma emits_fields:
  "emits (put_fields fs) (concat (map field_bytes fs)) (sum_list (map field_room fs))"
proof (induction fs)
  case Nil
  have "put_fields [] = Some" by (rule ext) simp
  then show ?case by (simp add: emits_id)
next
  case (Cons f fs)
  have "put_fields (f # fs) = (\<lambda>p. Option.bind (put_field f p) (put_fields fs))" by (rule ext) simp
  then show ?case using emits_bind [OF emits_field Cons.IH] by simp
qed

lemma pr_advance_small:
  "pr_pos r + n < 2 ^ 32 \<Longrightarrow> pr_pos (pr_advance (int n) r) = pr_pos r + n \<and> pr_arr (pr_advance i r) = pr_arr r"
proof -
  assume "pr_pos r + n < 2 ^ 32"
  then have "int (pr_pos r + n) < int (2 ^ 32)" by (simp only: of_nat_less_iff)
  then have "int (pr_pos r) + int n < 2 ^ 32" by simp
  then show ?thesis by (simp add: pr_advance_def)
qed

lemma read_field_bytes:
  assumes "pr_rest r = field_bytes f @ rest" "field_ok str_len f"
    "pr_pos r + length (field_bytes f) < 2 ^ 31"
  obtains r' where "read_field str_len (kind_of f) r = Some (f, r')"
    "pr_pos r' = pr_pos r + length (field_bytes f)" "pr_arr r' = pr_arr r"
proof -
  let ?r' = "pr_advance (int (length (field_bytes f))) r"
  have "length s < 2 ^ 31" if "f = F_string s" for s
    using assms(2,3) that by (simp add: write_mc_string_def)
  then have "read_field str_len (kind_of f) r = Some (f, ?r')"
    using assms
    by (cases f) (simp_all add: pr_read_bool_def pr_read_byte_def pr_read_short_def pr_read_int_def
        pr_read_long_def pr_read_float_def pr_read_double_def pr_read_varint_def
        pr_read_varlong_def pr_read_string_def read_float_be_eq read_double_be_eq
        write_float_be_def write_double_be_def write_bool_def read_write_mc_string)
  with that [of ?r'] pr_advance_small [of r "length (field_bytes f)"] assms(3) show thesis by simp
qed

lemma read_fields_bytes:
  assumes "pr_rest r = concat (map field_bytes fs) @ rest" "list_all (field_ok str_len) fs"
    "pr_pos r + length (concat (map field_bytes fs)) < 2 ^ 31"
  shows "\<exists>r'. read_fields str_len (map kind_of fs) r = Some (fs, r')
    \<and> pr_pos r' = pr_pos r + length (concat (map field_bytes fs)) \<and> pr_arr r' = pr_arr r"
  using assms
proof (induction fs arbitrary: r)
  case (Cons f fs)
  from Cons.prems obtain r1 where r1: "read_field str_len (kind_of f) r = Some (f, r1)"
    "pr_pos r1 = pr_pos r + length (field_bytes f)" "pr_arr r1 = pr_arr r"
    using read_field_bytes [of r f "concat (map field_bytes fs) @ rest" str_len] by auto
  have "pr_rest r1 = drop (length (field_bytes f)) (pr_rest r)"
    by (simp add: pr_rest_def r1(2,3) add.commute)
  then have "pr_rest r1 = concat (map field_bytes fs) @ rest" using Cons.prems(1) by simp
  with Cons.IH [of r1] Cons.prems r1 show ?case by auto
qed simp



end
