(* ===== verification/Metadata.thy ===== *)
theory Metadata
  imports Packet Inventory
begin

text \<open>
  The entity metadata dictionary of \<open>src/entity/metadata.cpp\<close> and its encoding. Strings and slots
  are owned by value; the dictionary is an unordered map from indices.
\<close>

datatype entity_metadata_value =
    EMT_BYTE byte
  | EMT_SHORT u16
  | EMT_INT u32
  | EMT_FLOAT u32
  | EMT_STRING "byte list"
  | EMT_SLOT slot_item
  | EMT_POS u32 u32 u32
  | EMT_ROT u32 u32 u32

type_synonym entity_metadata = "(u32 \<times> entity_metadata_value) list"

fun emt_type :: "entity_metadata_value \<Rightarrow> byte" where
  "emt_type (EMT_BYTE _) = 0"
| "emt_type (EMT_SHORT _) = 1"
| "emt_type (EMT_INT _) = 2"
| "emt_type (EMT_FLOAT _) = 3"
| "emt_type (EMT_STRING _) = 4"
| "emt_type (EMT_SLOT _) = 5"
| "emt_type (EMT_POS _ _ _) = 6"
| "emt_type (EMT_ROT _ _ _) = 7"

definition meta_put_byte :: "u32 \<Rightarrow> byte \<Rightarrow> entity_metadata \<Rightarrow> entity_metadata" where
  "meta_put_byte index val data = umap_set index (EMT_BYTE val) data"

definition meta_put_short :: "u32 \<Rightarrow> u16 \<Rightarrow> entity_metadata \<Rightarrow> entity_metadata" where
  "meta_put_short index val data = umap_set index (EMT_SHORT val) data"

definition meta_put_int :: "u32 \<Rightarrow> u32 \<Rightarrow> entity_metadata \<Rightarrow> entity_metadata" where
  "meta_put_int index val data = umap_set index (EMT_INT val) data"

definition meta_put_float :: "u32 \<Rightarrow> u32 \<Rightarrow> entity_metadata \<Rightarrow> entity_metadata" where
  "meta_put_float index val data = umap_set index (EMT_FLOAT val) data"

definition meta_put_string :: "u32 \<Rightarrow> byte list \<Rightarrow> entity_metadata \<Rightarrow> entity_metadata" where
  "meta_put_string index str data = umap_set index (EMT_STRING str) data"

definition meta_put_slot :: "u32 \<Rightarrow> slot_item \<Rightarrow> entity_metadata \<Rightarrow> entity_metadata" where
  "meta_put_slot index slot data = umap_set index (EMT_SLOT slot) data"

definition meta_put_pos :: "u32 \<Rightarrow> u32 \<Rightarrow> u32 \<Rightarrow> u32 \<Rightarrow> entity_metadata \<Rightarrow> entity_metadata" where
  "meta_put_pos index x y z data = umap_set index (EMT_POS x y z) data"

definition meta_put_rot :: "u32 \<Rightarrow> u32 \<Rightarrow> u32 \<Rightarrow> u32 \<Rightarrow> entity_metadata \<Rightarrow> entity_metadata" where
  "meta_put_rot index pitch yaw roll data = umap_set index (EMT_ROT pitch yaw roll) data"

subsection \<open>Encoding\<close>

definition meta_header :: "u32 \<Rightarrow> entity_metadata_value \<Rightarrow> byte" where
  "meta_header index v = ucast (push_bit 5 (ucast (emt_type v)) OR index)"

fun meta_encode_value :: "entity_metadata_value \<Rightarrow> packet \<Rightarrow> packet option" where
  "meta_encode_value (EMT_BYTE v) = pk_put_byte v"
| "meta_encode_value (EMT_SHORT v) = pk_put_short v"
| "meta_encode_value (EMT_INT v) = pk_put_int v"
| "meta_encode_value (EMT_FLOAT v) = pk_put_float v"
| "meta_encode_value (EMT_STRING str) = (\<lambda>pack. do {
     pack \<leftarrow> pk_put_varint (of_nat (length str)) pack;
     pk_put_bytes str pack })"
| "meta_encode_value (EMT_SLOT slot) = (\<lambda>pack. do {
     pack \<leftarrow> pk_put_short (si_id slot) pack;
     if si_id slot \<noteq> EMPTY_SLOT_VALUE then do {
       pack \<leftarrow> pk_put_byte (word_of_int (if si_amount slot > 255 then 255 else si_amount slot)) pack;
       pack \<leftarrow> pk_put_short (si_damage slot) pack;
       pk_put_byte 0 pack }
     else Some pack })"
| "meta_encode_value (EMT_POS x y z) = (\<lambda>pack. do {
     pack \<leftarrow> pk_put_int x pack;
     pack \<leftarrow> pk_put_int y pack;
     pk_put_int z pack })"
| "meta_encode_value (EMT_ROT pitch yaw roll) = (\<lambda>pack. do {
     pack \<leftarrow> pk_put_float pitch pack;
     pack \<leftarrow> pk_put_float yaw pack;
     pk_put_float roll pack })"

fun meta_encode :: "entity_metadata \<Rightarrow> packet \<Rightarrow> packet option" where
  "meta_encode [] = pk_put_byte 127"
| "meta_encode ((index, v) # data) = (\<lambda>pack. do {
     pack \<leftarrow> pk_put_byte (meta_header index v) pack;
     pack \<leftarrow> meta_encode_value v pack;
     meta_encode data pack })"

text \<open>What entities put into their dictionary: \<open>entity::build_metadata\<close>.\<close>

definition entity_build_metadata :: "entity_metadata \<Rightarrow> entity_metadata" where
  "entity_build_metadata metadata = meta_put_short 1 0 (meta_put_byte 0 0 metadata)"

subsection \<open>The bytes of an encoding\<close>

fun meta_value_bytes :: "entity_metadata_value \<Rightarrow> byte list" where
  "meta_value_bytes (EMT_BYTE v) = [v]"
| "meta_value_bytes (EMT_SHORT v) = write_short_be v"
| "meta_value_bytes (EMT_INT v) = write_int_be v"
| "meta_value_bytes (EMT_FLOAT v) = write_float_be v"
| "meta_value_bytes (EMT_STRING str) = write_varint (of_nat (length str)) @ str"
| "meta_value_bytes (EMT_SLOT slot) = write_short_be (si_id slot) @
     (if si_id slot \<noteq> EMPTY_SLOT_VALUE
      then word_of_int (if si_amount slot > 255 then 255 else si_amount slot)
        # write_short_be (si_damage slot) @ [0] else [])"
| "meta_value_bytes (EMT_POS x y z) = write_int_be x @ write_int_be y @ write_int_be z"
| "meta_value_bytes (EMT_ROT p y r) = write_float_be p @ write_float_be y @ write_float_be r"

fun meta_bytes :: "entity_metadata \<Rightarrow> byte list" where
  "meta_bytes [] = [127]"
| "meta_bytes ((index, v) # data) = meta_header index v # meta_value_bytes v @ meta_bytes data"

fun meta_value_room :: "entity_metadata_value \<Rightarrow> nat" where
  "meta_value_room (EMT_STRING str) = 5 + length str" | "meta_value_room _ = 12"

fun meta_room :: "entity_metadata \<Rightarrow> nat" where
  "meta_room [] = 1" | "meta_room ((index, v) # data) = 1 + meta_value_room v + meta_room data"

lemma emitsI: "emits f a m \<Longrightarrow> a = bs \<Longrightarrow> m \<le> n \<Longrightarrow> emits f bs n"
  using emits_weaken by blast

lemma emits_meta_value [emit_intros]:
  "emits (meta_encode_value v) (meta_value_bytes v) (meta_value_room v)"
proof (cases v)
  case (EMT_SLOT slot)
  show ?thesis
  proof (cases "si_id slot = EMPTY_SLOT_VALUE")
    case True
    then have n: "\<not> si_id slot \<noteq> EMPTY_SLOT_VALUE" by simp
    show ?thesis unfolding EMT_SLOT meta_encode_value.simps if_not_P [OF n]
      by (rule emitsI, (rule emit_intros)+) (simp_all add: True)
  next
    case False
    show ?thesis unfolding EMT_SLOT meta_encode_value.simps if_P [OF False]
      by (rule emitsI, (rule emit_intros)+) (simp_all add: False)
  qed
qed (simp_all only: meta_encode_value.simps, (rule emitsI, (rule emit_intros)+, simp_all)+)

lemma emits_meta [emit_intros]: "emits (meta_encode data) (meta_bytes data) (meta_room data)"
proof (induction data)
  case Nil
  show ?case unfolding meta_encode.simps meta_bytes.simps meta_room.simps by (rule emits_fixed)
next
  case (Cons e data)
  obtain index v where e: "e = (index, v)" by fastforce
  show ?case unfolding e meta_encode.simps
    by (rule emitsI, (rule emit_intros Cons.IH)+) simp_all
qed

subsection \<open>Decoding\<close>

text \<open>
  A reader of the metadata format as the protocol describes it: entries of a type and an index,
  packed in one byte, up to the byte 127. It takes the number of entries it may read.
\<close>

definition take_int :: "byte list \<Rightarrow> (u32 \<times> byte list) option" where
  "take_int bs = map_option (\<lambda>v. (v, drop 4 bs)) (read_int_be bs)"

definition take_short :: "byte list \<Rightarrow> (u16 \<times> byte list) option" where
  "take_short bs = map_option (\<lambda>v. (v, drop 2 bs)) (read_short_be bs)"

definition take_byte :: "byte list \<Rightarrow> (byte \<times> byte list) option" where
  "take_byte bs = (case bs of [] \<Rightarrow> None | b # bs \<Rightarrow> Some (b, bs))"

definition take_string :: "byte list \<Rightarrow> (byte list \<times> byte list) option" where
  "take_string bs = (case read_varint bs of
     Some (n, Some vl) \<Rightarrow> if unat n \<le> length (drop vl bs)
       then Some (take (unat n) (drop vl bs), drop (unat n) (drop vl bs)) else None
   | _ \<Rightarrow> None)"

definition meta_decode_value :: "byte \<Rightarrow> byte list \<Rightarrow> (entity_metadata_value \<times> byte list) option" where
  "meta_decode_value t bs =
     (if t = 0 then do { (v, bs) \<leftarrow> take_byte bs; Some (EMT_BYTE v, bs) }
      else if t = 1 then do { (v, bs) \<leftarrow> take_short bs; Some (EMT_SHORT v, bs) }
      else if t = 2 then do { (v, bs) \<leftarrow> take_int bs; Some (EMT_INT v, bs) }
      else if t = 3 then do { (v, bs) \<leftarrow> take_int bs; Some (EMT_FLOAT v, bs) }
      else if t = 4 then do { (s, bs) \<leftarrow> take_string bs; Some (EMT_STRING s, bs) }
      else if t = 5 then do {
        (i, bs) \<leftarrow> take_short bs; (a, bs) \<leftarrow> take_byte bs; (d, bs) \<leftarrow> take_short bs; (n, bs) \<leftarrow> take_byte bs;
        Some (EMT_SLOT (slot_item_make i d (uint a)), bs) }
      else if t = 6 then do {
        (x, bs) \<leftarrow> take_int bs; (y, bs) \<leftarrow> take_int bs; (z, bs) \<leftarrow> take_int bs;
        Some (EMT_POS x y z, bs) }
      else do {
        (x, bs) \<leftarrow> take_int bs; (y, bs) \<leftarrow> take_int bs; (z, bs) \<leftarrow> take_int bs;
        Some (EMT_ROT x y z, bs) })"

fun meta_decode :: "nat \<Rightarrow> byte list \<Rightarrow> (entity_metadata \<times> byte list) option" where
  "meta_decode n bs = (case bs of
     [] \<Rightarrow> None
   | h # bs \<Rightarrow>
       if h = 127 then Some ([], bs)
       else (case n of
         0 \<Rightarrow> None
       | Suc n \<Rightarrow> do {
           (v, bs) \<leftarrow> meta_decode_value (drop_bit 5 h) bs;
           (data, bs) \<leftarrow> meta_decode n bs;
           Some ((ucast (h AND 31), v) # data, bs) }))"

declare meta_decode.simps [simp del]

fun meta_value_ok :: "entity_metadata_value \<Rightarrow> bool" where
  "meta_value_ok (EMT_SLOT slot) \<longleftrightarrow>
     si_id slot \<noteq> EMPTY_SLOT_VALUE \<and> 0 \<le> si_amount slot \<and> si_amount slot \<le> 255"
| "meta_value_ok (EMT_STRING s) \<longleftrightarrow> length s < 2 ^ 32"
| "meta_value_ok _ \<longleftrightarrow> True"

lemma take_written [simp]:
  "take_int (write_int_be i @ r) = Some (i, r)" "take_short (write_short_be s @ r) = Some (s, r)"
  "take_int (write_float_be i @ r) = Some (i, r)" "take_byte (b # r) = Some (b, r)"
  by (simp_all add: take_int_def take_short_def take_byte_def write_float_be_def)

lemma take_string_written [simp]:
  "length s < 2 ^ 32 \<Longrightarrow> take_string (write_varint (of_nat (length s)) @ s @ r) = Some (s, r)"
  by (simp add: take_string_def unat_of_nat)

lemma emt_type_8: "unat (emt_type v) < 8"
  by (cases v) simp_all

lemma meta_decode_value_written:
  "meta_value_ok v \<Longrightarrow> meta_decode_value (emt_type v) (meta_value_bytes v @ r) = Some (v, r)"
  by (cases v) (simp_all add: meta_decode_value_def slot_item_make_def uint_word_of_int)

definition header_of :: "nat \<Rightarrow> nat \<Rightarrow> byte" where
  "header_of t i = ucast (push_bit 5 (ucast (of_nat t :: byte)) OR (of_nat i :: u32))"

lemma header_table:
  "list_all (\<lambda>t. list_all (\<lambda>i. drop_bit 5 (header_of t i) = of_nat t
      \<and> ucast (header_of t i AND 31) = (of_nat i :: u32) \<and> header_of t i \<noteq> 127) [0..<31]) [0..<8]"
  by code_simp

lemma meta_header_parts:
  assumes "unat index < 31"
  shows "drop_bit 5 (meta_header index v) = emt_type v \<and> ucast (meta_header index v AND 31) = index
    \<and> meta_header index v \<noteq> 127"
proof -
  have "meta_header index v = header_of (unat (emt_type v)) (unat index)"
    by (simp add: meta_header_def header_of_def)
  with header_table emt_type_8 [of v] assms show ?thesis
    by (simp add: list_all_iff)
qed

lemma meta_decode_written:
  "\<forall>(i, v) \<in> set data. unat i < 31 \<and> meta_value_ok v \<Longrightarrow> length data \<le> n \<Longrightarrow>
   meta_decode n (meta_bytes data @ r) = Some (data, r)"
proof (induction data arbitrary: n)
  case Nil
  show ?case by (subst meta_decode.simps) simp
next
  case (Cons e data)
  obtain i v where e: "e = (i, v)" by fastforce
  from Cons.prems obtain n' where n: "n = Suc n'" by (cases n) auto
  from Cons.prems have "unat i < 31" "meta_value_ok v" by (auto simp: e)
  with Cons.IH [of n'] Cons.prems n meta_header_parts [of i v]
    meta_decode_value_written [of v "meta_bytes data @ r"]
  show ?case by (subst meta_decode.simps) (simp add: e)
qed



text \<open>
  A float put at index 31 gets the header byte 127, the terminator of the format: a reader
  stops there and loses it.
\<close>

theorem metadata_float_31_lost:
  "meta_header 31 (EMT_FLOAT f) = 127
   \<and> meta_decode 1 (meta_bytes (meta_put_float 31 f [])) = Some ([], write_float_be f @ [127])"
proof -
  have h: "meta_header 31 (EMT_FLOAT f) = 127" by (simp add: meta_header_def)
  then show ?thesis by (subst meta_decode.simps) (simp add: meta_put_float_def h)
qed

end
