(* ===== verification/Json.thy ===== *)
theory Json
  imports Hc_Prelude
begin

text \<open>
  The JSON reader and writer of \<open>src/util/json.cpp\<close>, over bytes.

  An object is the list of its entries in the order in which iterating its
  \<open>unordered_map\<close> visits them; that order is unspecified in C++, so nothing here depends on
  it but the order of the text written, and the theorems hold for every order. Numbers are
  the bit patterns of doubles; their text form is the standard library's, so the writer takes
  the stream's \<open>operator<<\<close> and the reader its \<open>operator>>\<close> as parameters.
\<close>

datatype json =
    J_Null
  | J_Bool bool
  | J_Number u64
  | J_String "byte list"
  | J_Array "json list"
  | J_Object "(byte list \<times> json) list"

subsection \<open>Values\<close>

fun json_as_number :: "json \<Rightarrow> u64" where
  "json_as_number (J_Number v) = v"
| "json_as_number _ = 0"

fun json_as_string :: "json \<Rightarrow> byte list" where
  "json_as_string (J_String s) = s"
| "json_as_string _ = []"

fun json_as_object :: "json \<Rightarrow> (byte list \<times> json) list option" where
  "json_as_object (J_Object o') = Some o'"
| "json_as_object _ = None"

fun json_as_array :: "json \<Rightarrow> json list option" where
  "json_as_array (J_Array a) = Some a"
| "json_as_array _ = None"

fun json_as_bool :: "json \<Rightarrow> bool" where
  "json_as_bool (J_Bool b) = b"
| "json_as_bool _ = False"

definition json_set :: "byte list \<Rightarrow> json \<Rightarrow> (byte list \<times> json) list \<Rightarrow> (byte list \<times> json) list" where
  "json_set name val vals = umap_set name val vals"

definition json_get :: "byte list \<Rightarrow> (byte list \<times> json) list \<Rightarrow> json option" where
  "json_get str vals = map_of vals str"

definition json_array_get :: "nat \<Rightarrow> json list \<Rightarrow> json option" where
  "json_array_get i vals = (if i \<ge> length vals then None else Some (vals ! i))"

subsection \<open>Formats\<close>

record json_format =
  jf_indent :: nat
  jf_elem_per_line :: bool
  jf_elem_dist :: nat
  jf_comma_spaces :: nat
  jf_col_space_before :: nat
  jf_col_space_after :: nat
  jf_brace_in_line :: bool
  jf_bracket_in_line :: bool
  jf_elems_per_line :: nat

definition json_packed :: json_format where
  "json_packed = \<lparr>jf_indent = 0, jf_elem_per_line = False, jf_elem_dist = 0,
     jf_comma_spaces = 0, jf_col_space_before = 0, jf_col_space_after = 0,
     jf_brace_in_line = False, jf_bracket_in_line = False, jf_elems_per_line = 1\<rparr>"

definition json_nice :: json_format where
  "json_nice = \<lparr>jf_indent = 4, jf_elem_per_line = True, jf_elem_dist = 0,
     jf_comma_spaces = 1, jf_col_space_before = 0, jf_col_space_after = 1,
     jf_brace_in_line = False, jf_bracket_in_line = False, jf_elems_per_line = 2\<rparr>"

subsection \<open>Writing\<close>

abbreviation c_quote :: byte where "c_quote \<equiv> 0x22"
abbreviation c_backslash :: byte where "c_backslash \<equiv> 0x5C"
abbreviation c_space :: byte where "c_space \<equiv> 0x20"
abbreviation c_newline :: byte where "c_newline \<equiv> 0x0A"
abbreviation c_lbrace :: byte where "c_lbrace \<equiv> 0x7B"
abbreviation c_rbrace :: byte where "c_rbrace \<equiv> 0x7D"
abbreviation c_lbracket :: byte where "c_lbracket \<equiv> 0x5B"
abbreviation c_rbracket :: byte where "c_rbracket \<equiv> 0x5D"
abbreviation c_colon :: byte where "c_colon \<equiv> 0x3A"
abbreviation c_comma :: byte where "c_comma \<equiv> 0x2C"

definition spaces :: "nat \<Rightarrow> byte list" where
  "spaces n = replicate n c_space"

definition json_escape :: "byte \<Rightarrow> byte list" where
  "json_escape c =
     (if c = c_quote then [c_backslash, c_quote]
      else if c = c_backslash then [c_backslash, c_backslash]
      else if c = 0x08 then [c_backslash, 0x62]
      else if c = 0x0C then [c_backslash, 0x66]
      else if c = 0x0A then [c_backslash, 0x6E]
      else if c = 0x0D then [c_backslash, 0x72]
      else if c = 0x09 then [c_backslash, 0x74]
      else [c])"

definition json_encode_str :: "byte list \<Rightarrow> byte list" where
  "json_encode_str str = c_quote # concat (map json_escape str) @ [c_quote]"

text \<open>
  \<open>json_write_members\<close> and \<open>json_write_elems\<close> are the loops of \<open>_write_object\<close> and
  \<open>_write_array\<close>; \<open>i\<close> is the index of the next element and \<open>i \<noteq> count - 1\<close> says that more follow.
\<close>

fun json_write :: "(u64 \<Rightarrow> byte list) \<Rightarrow> json_format \<Rightarrow> nat \<Rightarrow> json \<Rightarrow> byte list"
  and json_write_members ::
    "(u64 \<Rightarrow> byte list) \<Rightarrow> json_format \<Rightarrow> nat \<Rightarrow> (byte list \<times> json) list \<Rightarrow> byte list"
  and json_write_elems ::
    "(u64 \<Rightarrow> byte list) \<Rightarrow> json_format \<Rightarrow> nat \<Rightarrow> nat \<Rightarrow> json list \<Rightarrow> byte list"
where
  "json_write num fmt depth (J_Object vals) =
     (if jf_brace_in_line fmt then c_newline # spaces (jf_indent fmt * depth) @ [c_lbrace]
      else [c_lbrace])
     @ (if jf_elem_per_line fmt then [c_newline] else [])
     @ json_write_members num fmt depth vals
     @ spaces (jf_indent fmt * depth) @ [c_rbrace]"
| "json_write num fmt depth (J_Array vals) =
     (if jf_bracket_in_line fmt then c_newline # spaces (jf_indent fmt * depth) @ [c_lbracket]
      else [c_lbracket])
     @ (if jf_elem_per_line fmt then [c_newline] else [])
     @ json_write_elems num fmt depth 0 vals
     @ spaces (jf_indent fmt * depth) @ [c_rbracket]"
| "json_write num fmt depth (J_String s) = json_encode_str s"
| "json_write num fmt depth (J_Number v) = num v"
| "json_write num fmt depth (J_Bool b) =
     (if b then [0x74, 0x72, 0x75, 0x65] else [0x66, 0x61, 0x6C, 0x73, 0x65])"
| "json_write num fmt depth J_Null = [0x6E, 0x75, 0x6C, 0x6C]"
| "json_write_members num fmt depth [] = []"
| "json_write_members num fmt depth ((k, v) # vals) =
     (if jf_indent fmt \<noteq> 0 then spaces (jf_indent fmt * (depth + 1)) else [])
     @ json_encode_str k
     @ spaces (jf_col_space_before fmt) @ [c_colon] @ spaces (jf_col_space_after fmt)
     @ json_write num fmt (depth + 1) v
     @ (if vals \<noteq> [] then [c_comma] @ spaces (jf_comma_spaces fmt)
          @ replicate (jf_elem_dist fmt) c_newline else [])
     @ (if jf_elem_per_line fmt then [c_newline] else [])
     @ json_write_members num fmt depth vals"
| "json_write_elems num fmt depth i [] = []"
| "json_write_elems num fmt depth i (v # vals) =
     (if jf_indent fmt \<noteq> 0 \<and> i mod jf_elems_per_line fmt = 0
      then spaces (jf_indent fmt * (depth + 1)) else [])
     @ json_write num fmt (depth + 1) v
     @ (if vals \<noteq> [] then [c_comma] @ spaces (jf_comma_spaces fmt)
          @ replicate (jf_elem_dist fmt) c_newline else [])
     @ (if jf_elem_per_line fmt \<and> (vals = [] \<or> (i + 1) mod jf_elems_per_line fmt = 0)
        then [c_newline] else [])
     @ json_write_elems num fmt depth (i + 1) vals"

definition json_writer_write :: "(u64 \<Rightarrow> byte list) \<Rightarrow> json_format \<Rightarrow> (byte list \<times> json) list \<Rightarrow> byte list" where
  "json_writer_write num fmt obj = json_write num fmt 0 (J_Object obj)"

subsection \<open>The character stream\<close>

record json_stream =
  js_rest :: "byte list"
  js_line :: nat
  js_col :: nat
  js_pcol :: "nat list"

definition js_init :: "byte list \<Rightarrow> json_stream" where
  "js_init text' = \<lparr>js_rest = text', js_line = 1, js_col = 1, js_pcol = []\<rparr>"

text \<open>\<open>None\<close> is the end of the input.\<close>

definition js_get :: "json_stream \<Rightarrow> byte option \<times> json_stream" where
  "js_get s = (case js_rest s of
     [] \<Rightarrow> (None, s)
   | n # rest \<Rightarrow>
       (if n = c_newline
        then (Some n, s\<lparr>js_rest := rest, js_line := js_line s + 1,
                          js_pcol := js_col s # js_pcol s, js_col := 1\<rparr>)
        else (Some n, s\<lparr>js_rest := rest, js_col := js_col s + 1\<rparr>)))"

definition js_peek :: "json_stream \<Rightarrow> byte option" where
  "js_peek s = (case js_rest s of [] \<Rightarrow> None | n # _ \<Rightarrow> Some n)"

type_synonym json_error = "string \<times> nat \<times> nat"
type_synonym 'a json_result = "json_error + 'a \<times> json_stream"

definition json_fail :: "string \<Rightarrow> json_stream \<Rightarrow> 'a json_result" where
  "json_fail msg s = Inl (msg, js_line s, js_col s)"

subsection \<open>Reading\<close>

definition is_space :: "byte \<Rightarrow> bool" where
  "is_space c \<longleftrightarrow> c = 0x20 \<or> 0x09 \<le> c \<and> c \<le> 0x0D"

definition is_digit :: "byte \<Rightarrow> bool" where
  "is_digit c \<longleftrightarrow> 0x30 \<le> c \<and> c \<le> 0x39"

lemma js_get_rest: "js_rest (snd (js_get s)) = tl (js_rest s)"
  by (simp add: js_get_def split: list.split)

lemma js_get_fst: "fst (js_get s) = js_peek s"
  by (simp add: js_get_def js_peek_def split: list.split)

lemma js_get_decreases: "js_get s = (Some c, s') \<Longrightarrow> length (js_rest s') < length (js_rest s)"
  by (auto simp: js_get_def split: list.splits if_splits)

lemma js_get_le: "js_get s = (r, s') \<Longrightarrow> length (js_rest s') \<le> length (js_rest s)"
  by (auto simp: js_get_def split: list.splits if_splits)

function js_skip_white :: "json_stream \<Rightarrow> json_stream" where
  "js_skip_white s = (case js_peek s of
     None \<Rightarrow> s
   | Some c \<Rightarrow> if is_space c then js_skip_white (snd (js_get s)) else s)"
  by pat_completeness auto
termination
  by (relation "measure (\<lambda>s. length (js_rest s))")
     (auto simp: js_get_rest js_peek_def split: list.splits)

declare js_skip_white.simps [simp del]

definition json_unescape :: "byte \<Rightarrow> byte list" where
  "json_unescape c =
     (if c = c_quote then [c_quote]
      else if c = c_backslash then [c_backslash]
      else if c = 0x2F then [0x2F]
      else if c = 0x62 then [0x08]
      else if c = 0x66 then [0x0C]
      else if c = 0x6E then [0x0A]
      else if c = 0x72 then [0x0D]
      else if c = 0x74 then [0x09]
      else [])"

function json_str_loop :: "byte list \<Rightarrow> json_stream \<Rightarrow> byte list json_result" where
  "json_str_loop out s =
     (case js_get s of
        (None, s1) \<Rightarrow> json_fail ''unexpected EOF inside JSON string'' s1
      | (Some c, s1) \<Rightarrow>
          if c = c_quote then Inr (out, s1)
          else if c = c_backslash then
            (case js_get s1 of
               (None, s2) \<Rightarrow> json_fail ''unexpected EOF inside JSON string'' s2
             | (Some e, s2) \<Rightarrow> json_str_loop (out @ json_unescape e) s2)
          else json_str_loop (out @ [c]) s1)"
  by pat_completeness auto
termination
  by (relation "measure (\<lambda>(out, s). length (js_rest s))")
     (auto dest!: sym [of _ "js_get _"] js_get_decreases)

declare json_str_loop.simps [simp del]

definition json_read_str :: "json_stream \<Rightarrow> byte list json_result" where
  "json_read_str s =
     (case js_get (js_skip_white s) of
        (c, s1) \<Rightarrow>
          if c \<noteq> Some c_quote
          then json_fail (''expected '' @ [CHR 0x27, CHR 0x22, CHR 0x27] @ '' at start of JSON string'') s1
          else json_str_loop [] s1)"

text \<open>The digits, dots and minus signs a number is read from.\<close>

function json_number_chars :: "byte list \<Rightarrow> json_stream \<Rightarrow> byte list \<times> json_stream" where
  "json_number_chars str s = (case js_peek s of
     None \<Rightarrow> (str, s)
   | Some c \<Rightarrow>
       if is_digit c \<or> c = 0x2E \<or> c = 0x2D
       then json_number_chars (str @ [c]) (snd (js_get s)) else (str, s))"
  by pat_completeness auto
termination
  by (relation "measure (\<lambda>(str, s). length (js_rest s))")
     (auto simp: js_get_rest js_peek_def split: list.splits)

declare json_number_chars.simps [simp del]

definition json_read_number :: "(byte list \<Rightarrow> u64) \<Rightarrow> json_stream \<Rightarrow> json json_result" where
  "json_read_number parse s =
     (case json_number_chars [] s of (str, s1) \<Rightarrow> Inr (J_Number (parse str), s1))"

text \<open>A chain of \<open>strm.get () != c || ...\<close>: it stops at the first character that differs.\<close>

fun js_expect :: "byte list \<Rightarrow> json_stream \<Rightarrow> bool \<times> json_stream" where
  "js_expect [] s = (True, s)"
| "js_expect (c # cs) s =
     (case js_get s of (r, s1) \<Rightarrow> if r \<noteq> Some c then (False, s1) else js_expect cs s1)"

definition json_read_bool :: "json_stream \<Rightarrow> json json_result" where
  "json_read_bool s =
     (let msg = ''expected '' @ [CHR 0x27] @ ''true'' @ [CHR 0x27] @ '' or '' @ [CHR 0x27]
                  @ ''false'' @ [CHR 0x27] in
      case js_get (js_skip_white s) of (c, s1) \<Rightarrow>
        if c = Some 0x74 then
          (case js_expect [0x72, 0x75, 0x65] s1 of (ok, s2) \<Rightarrow>
             if \<not> ok then json_fail msg s2 else Inr (J_Bool True, s2))
        else if c = Some 0x66 then
          (case js_expect [0x61, 0x6C, 0x73, 0x65] s1 of (ok, s2) \<Rightarrow>
             if \<not> ok then json_fail msg s2 else Inr (J_Bool False, s2))
        else json_fail msg s1)"

definition json_read_null :: "json_stream \<Rightarrow> json json_result" where
  "json_read_null s =
     (case js_expect [0x6E, 0x75, 0x6C, 0x6C] (js_skip_white s) of (ok, s1) \<Rightarrow>
        if \<not> ok then json_fail (''expected '' @ [CHR 0x27] @ ''null'' @ [CHR 0x27]) s1
        else Inr (J_Null, s1))"

text \<open>
  \<open>_read\<close>, and the loops of \<open>_read_object\<close> and \<open>_read_array\<close>. The first argument bounds the
  number of calls and loop turns that are nested; \<open>None\<close> is running out of it.
\<close>

fun json_read ::
    "(byte list \<Rightarrow> u64) \<Rightarrow> nat \<Rightarrow> json_stream \<Rightarrow> json json_result option"
  and json_read_members ::
    "(byte list \<Rightarrow> u64) \<Rightarrow> nat \<Rightarrow> (byte list \<times> json) list \<Rightarrow> json_stream \<Rightarrow>
     (byte list \<times> json) list json_result option"
  and json_read_elems ::
    "(byte list \<Rightarrow> u64) \<Rightarrow> nat \<Rightarrow> json list \<Rightarrow> json_stream \<Rightarrow> json list json_result option"
where
  "json_read parse 0 s = None"
| "json_read parse (Suc fuel) s =
     (let s = js_skip_white s; c = js_peek s in
      if c = Some c_lbrace then
        (case json_read_members parse fuel [] (snd (js_get (js_skip_white s))) of
           None \<Rightarrow> None
         | Some (Inl e) \<Rightarrow> Some (Inl e)
         | Some (Inr (obj, s1)) \<Rightarrow> Some (Inr (J_Object obj, s1)))
      else if c = Some c_lbracket then
        (case json_read_elems parse fuel [] (snd (js_get (js_skip_white s))) of
           None \<Rightarrow> None
         | Some (Inl e) \<Rightarrow> Some (Inl e)
         | Some (Inr (arr, s1)) \<Rightarrow> Some (Inr (J_Array arr, s1)))
      else if c = Some c_quote then
        Some (case json_read_str s of Inl e \<Rightarrow> Inl e | Inr (str, s1) \<Rightarrow> Inr (J_String str, s1))
      else if c = Some 0x74 \<or> c = Some 0x66 then Some (json_read_bool s)
      else if c = Some 0x6E then Some (json_read_null s)
      else (case c of
              Some d \<Rightarrow> if is_digit d then Some (json_read_number parse s)
                        else Some (json_fail ''invalid JSON value'' s)
            | None \<Rightarrow> Some (json_fail ''invalid JSON value'' s)))"
| "json_read_members parse 0 obj s = None"
| "json_read_members parse (Suc fuel) obj s =
     (let s = js_skip_white s in
      if js_peek s = Some c_rbrace then Some (Inr (obj, snd (js_get s)))
      else case json_read_str s of
        Inl e \<Rightarrow> Some (Inl e)
      | Inr (key, s1) \<Rightarrow>
          (case js_get (js_skip_white s1) of (c, s2) \<Rightarrow>
             if c \<noteq> Some c_colon
             then Some (json_fail (''expected '' @ [CHR 0x27, CHR 0x3A, CHR 0x27]
                          @ '' between name/value pair'') s2)
             else case json_read parse fuel (js_skip_white s2) of
               None \<Rightarrow> None
             | Some (Inl e) \<Rightarrow> Some (Inl e)
             | Some (Inr (val, s3)) \<Rightarrow>
                 (let obj' = json_set key val obj; s4 = js_skip_white s3; c = js_peek s4 in
                  if c = Some c_comma then json_read_members parse fuel obj' (snd (js_get s4))
                  else if c \<noteq> Some c_rbrace
                  then Some (json_fail (''expected '' @ [CHR 0x27, CHR 0x2C, CHR 0x27] @ '' or ''
                         @ [CHR 0x27, CHR 0x7D, CHR 0x27] @ '' after name/value pair'') s4)
                  else json_read_members parse fuel obj' s4)))"
| "json_read_elems parse 0 arr s = None"
| "json_read_elems parse (Suc fuel) arr s =
     (let s = js_skip_white s in
      if js_peek s = Some c_rbracket then Some (Inr (arr, snd (js_get s)))
      else case json_read parse fuel s of
        None \<Rightarrow> None
      | Some (Inl e) \<Rightarrow> Some (Inl e)
      | Some (Inr (val, s1)) \<Rightarrow>
          (let arr' = arr @ [val]; s2 = js_skip_white s1; c = js_peek s2 in
           if c = Some c_comma then json_read_elems parse fuel arr' (snd (js_get s2))
           else if c \<noteq> Some c_rbracket
           then Some (json_fail (''expected '' @ [CHR 0x27, CHR 0x2C, CHR 0x27] @ '' or ''
                  @ [CHR 0x27, CHR 0x5D, CHR 0x27] @ '' after array element'') s2)
           else json_read_elems parse fuel arr' s2))"

text \<open>\<open>_read_object\<close> at the top of the input, with more fuel than the input has bytes.\<close>

definition json_read_object ::
  "(byte list \<Rightarrow> u64) \<Rightarrow> nat \<Rightarrow> json_stream \<Rightarrow> (byte list \<times> json) list json_result option" where
  "json_read_object parse fuel s =
     (case js_get (js_skip_white s) of (c, s1) \<Rightarrow>
        if c \<noteq> Some c_lbrace
        then Some (json_fail (''expected '' @ [CHR 0x27, CHR 0x7B, CHR 0x27]
                     @ '' at start of JSON object'') s1)
        else json_read_members parse fuel [] s1)"

definition json_reader_read ::
  "(byte list \<Rightarrow> u64) \<Rightarrow> byte list \<Rightarrow> (byte list \<times> json) list json_result option" where
  "json_reader_read parse input = json_read_object parse (2 * length input + 1) (js_init input)"


subsection \<open>Every read ends\<close>

lemma js_skip_white_le: "length (js_rest (js_skip_white s)) \<le> length (js_rest s)"
proof (induction s rule: js_skip_white.induct)
  case (1 s)
  show ?case
  proof (cases "js_peek s")
    case None
    then show ?thesis by (simp add: js_skip_white.simps [of s])
  next
    case (Some c)
    with "1.IH" [OF Some] js_get_rest [of s] show ?thesis
      by (subst js_skip_white.simps) auto
  qed
qed

lemma js_get_some: "js_peek s = Some c \<Longrightarrow> length (js_rest (snd (js_get s))) < length (js_rest s)"
  by (simp add: js_get_rest js_peek_def split: list.splits)

lemma json_str_loop_le:
  "json_str_loop out s = Inr (r, s') \<Longrightarrow> length (js_rest s') < length (js_rest s)"
proof (induction out s rule: json_str_loop.induct)
  case (1 out s)
  obtain r0 s1 where g: "js_get s = (r0, s1)" by fastforce
  with "1.prems" obtain c where c: "r0 = Some c"
    by (subst (asm) json_str_loop.simps) (auto simp: json_fail_def split: option.splits)
  note d = js_get_decreases [OF g [unfolded c]]
  consider "c = c_quote" | "c = c_backslash" | "c \<noteq> c_quote" "c \<noteq> c_backslash" by blast
  then show ?case
  proof cases
    case 1
    with "1.prems" g c d show ?thesis by (subst (asm) json_str_loop.simps) simp
  next
    case 2
    obtain r1 s2 where g2: "js_get s1 = (r1, s2)" by fastforce
    with "1.prems" g c 2 obtain e where e: "r1 = Some e"
      "json_str_loop (out @ json_unescape e) s2 = Inr (r, s')"
      by (subst (asm) json_str_loop.simps) (auto simp: json_fail_def split: option.splits)
    from 2 have "c \<noteq> c_quote" by simp
    with "1.IH"(1) [OF g [symmetric] c _ 2 g2 [symmetric] e(1) e(2)] d js_get_le [OF g2]
    show ?thesis by simp
  next
    case 3
    with "1.prems" g c have "json_str_loop (out @ [c]) s1 = Inr (r, s')"
      by (subst (asm) json_str_loop.simps) simp
    with "1.IH"(2) [OF g [symmetric] c 3] d show ?thesis by simp
  qed
qed

lemma json_read_str_le:
  "json_read_str s = Inr (r, s') \<Longrightarrow> length (js_rest s') < length (js_rest s)"
proof -
  assume r: "json_read_str s = Inr (r, s')"
  obtain c s1 where g: "js_get (js_skip_white s) = (c, s1)" by fastforce
  with r have "json_str_loop [] s1 = Inr (r, s')"
    by (auto simp: json_read_str_def json_fail_def split: if_splits)
  from json_str_loop_le [OF this] js_get_le [OF g] js_skip_white_le [of s] show ?thesis by simp
qed

lemma json_number_chars_le:
  "length (js_rest (snd (json_number_chars str s))) \<le> length (js_rest s)"
proof (induction str s rule: json_number_chars.induct)
  case (1 str s)
  show ?case
  proof (cases "js_peek s")
    case None
    then show ?thesis by (simp add: json_number_chars.simps [of str s])
  next
    case (Some c)
    with "1.IH" [OF Some] js_get_rest [of s] show ?thesis
      by (subst json_number_chars.simps) auto
  qed
qed

lemma json_read_number_le:
  assumes "js_peek s = Some c" "is_digit c" "json_read_number parse s = Inr (v, s')"
  shows "length (js_rest s') < length (js_rest s)"
proof -
  from assms(1,2) have "json_number_chars [] s = json_number_chars [c] (snd (js_get s))"
    by (subst json_number_chars.simps) simp
  with assms(3) have "s' = snd (json_number_chars [c] (snd (js_get s)))"
    by (auto simp: json_read_number_def split: prod.splits)
  with json_number_chars_le [of "[c]" "snd (js_get s)"] js_get_some [OF assms(1)]
  show ?thesis by simp
qed

lemma json_read_bool_le:
  assumes "json_read_bool s = Inr (v, s')"
  shows "length (js_rest s') < length (js_rest s)"
  using assms js_skip_white_le [of s]
  by (auto simp: json_read_bool_def json_fail_def Let_def split: if_splits prod.splits
      dest!: js_get_decreases)

lemma json_read_null_le:
  assumes "json_read_null s = Inr (v, s')"
  shows "length (js_rest s') < length (js_rest s)"
  using assms js_skip_white_le [of s]
  by (auto simp: json_read_null_def json_fail_def split: if_splits prod.splits
      dest!: js_get_decreases)

text \<open>
  With more fuel than twice the input is long, the reader never runs out of it: the loops of
  the code all end. Success consumes at least a byte.
\<close>

definition json_reads :: "(json_stream \<Rightarrow> 'b json_result option) \<Rightarrow> nat \<Rightarrow> bool" where
  "json_reads rd n \<longleftrightarrow> (\<forall>s. 2 * length (js_rest s) + 1 \<le> n \<longrightarrow>
     (\<exists>r. rd s = Some r \<and> (\<forall>v s'. r = Inr (v, s') \<longrightarrow> length (js_rest s') < length (js_rest s))))"

lemma json_readsD:
  assumes "json_reads rd n" "2 * length (js_rest s) + 1 \<le> n"
  obtains (error) e where "rd s = Some (Inl e)"
  | (ok) v s' where "rd s = Some (Inr (v, s'))" "length (js_rest s') < length (js_rest s)"
proof -
  from assms obtain r where r: "rd s = Some r"
    "\<forall>v s'. r = Inr (v, s') \<longrightarrow> length (js_rest s') < length (js_rest s)"
    unfolding json_reads_def by blast
  show thesis
  proof (cases r)
    case (Inl e)
    with r show ?thesis by (simp add: error)
  next
    case (Inr x)
    then obtain v s' where "r = Inr (v, s')" by (cases x) auto
    with r show ?thesis using ok by simp
  qed
qed

lemma json_read_comma:
  assumes "json_reads rd f" "2 * length (js_rest s) + 1 \<le> Suc f" "length (js_rest s3) < length (js_rest s)"
  shows "\<exists>r. (if js_peek (js_skip_white s3) = Some c_comma then rd (snd (js_get (js_skip_white s3)))
      else if js_peek (js_skip_white s3) \<noteq> Some c then Some (json_fail msg (js_skip_white s3))
      else rd (js_skip_white s3)) = Some r
    \<and> (\<forall>v s'. r = Inr (v, s') \<longrightarrow> length (js_rest s') < length (js_rest s))"
proof -
  let ?s4 = "js_skip_white s3"
  note l4 = js_skip_white_le [of s3] js_get_rest [of ?s4]
  from l4 assms have
    e: "2 * length (js_rest (snd (js_get ?s4))) + 1 \<le> f" "2 * length (js_rest ?s4) + 1 \<le> f"
    by simp_all
  consider "js_peek ?s4 = Some c_comma" | "js_peek ?s4 \<noteq> Some c_comma" "js_peek ?s4 = Some c"
    | "js_peek ?s4 \<noteq> Some c_comma" "js_peek ?s4 \<noteq> Some c" by blast
  then show ?thesis
  proof cases
    case 1
    from assms(1) e(1) show ?thesis
      by (cases rule: json_readsD) (use 1 l4 assms(3) in simp_all)
  next
    case 2
    from assms(1) e(2) show ?thesis
      by (cases rule: json_readsD) (use 2 l4 assms(3) in simp_all)
  next
    case 3
    then show ?thesis by (simp add: json_fail_def)
  qed
qed

lemma json_members_step:
  assumes R: "json_reads (json_read parse f) f"
    and M: "\<And>obj. json_reads (json_read_members parse f obj) f"
    and len: "2 * length (js_rest s) + 1 \<le> Suc f"
  shows "\<exists>r. json_read_members parse (Suc f) obj s = Some r
    \<and> (\<forall>v s'. r = Inr (v, s') \<longrightarrow> length (js_rest s') < length (js_rest s))"
proof -
  let ?s = "js_skip_white s"
  note l0 = js_skip_white_le [of s]
  show ?thesis
  proof (cases "js_peek ?s = Some c_rbrace")
    case True
    with js_get_some [OF True] l0 show ?thesis by simp
  next
    case nb: False
    show ?thesis
    proof (cases "json_read_str ?s")
      case (Inl e)
      with nb show ?thesis by simp
    next
      case (Inr ks)
      then obtain key s1 where k: "json_read_str ?s = Inr (key, s1)" by (cases ks) auto
      obtain c s2 where c: "js_get (js_skip_white s1) = (c, s2)" by fastforce
      note l = l0 json_read_str_le [OF k] js_skip_white_le [of s1] js_get_le [OF c]
        js_skip_white_le [of s2]
      show ?thesis
      proof (cases "c = Some c_colon")
        case False
        with nb k c show ?thesis by (simp add: json_fail_def)
      next
        case True
        from l len have "2 * length (js_rest (js_skip_white s2)) + 1 \<le> f" by simp
        with R show ?thesis
        proof (cases rule: json_readsD)
          case (error e)
          with nb k c True show ?thesis by simp
        next
          case (ok val s3)
          with l have "length (js_rest s3) < length (js_rest s)" by simp
          from json_read_comma [OF M len this] nb k c True ok(1) show ?thesis
            by (simp add: Let_def)
        qed
      qed
    qed
  qed
qed

lemma json_elems_step:
  assumes R: "json_reads (json_read parse f) f"
    and E: "\<And>arr. json_reads (json_read_elems parse f arr) (f - 1)"
    and len: "2 * length (js_rest s) + 1 \<le> f"
  shows "\<exists>r. json_read_elems parse (Suc f) arr s = Some r
    \<and> (\<forall>v s'. r = Inr (v, s') \<longrightarrow> length (js_rest s') < length (js_rest s))"
proof -
  let ?s = "js_skip_white s"
  note l0 = js_skip_white_le [of s]
  show ?thesis
  proof (cases "js_peek ?s = Some c_rbracket")
    case True
    with js_get_some [OF True] l0 show ?thesis by simp
  next
    case nb: False
    from l0 len have "2 * length (js_rest ?s) + 1 \<le> f" by simp
    with R show ?thesis
    proof (cases rule: json_readsD)
      case (error e)
      with nb show ?thesis by simp
    next
      case (ok val s3)
      with l0 have l3: "length (js_rest s3) < length (js_rest s)" by simp
      from len have "2 * length (js_rest s) + 1 \<le> Suc (f - 1)" by simp
      from json_read_comma [OF E this l3] nb ok(1) show ?thesis by (simp add: Let_def)
    qed
  qed
qed

lemma json_read_step:
  assumes M: "\<And>obj. json_reads (json_read_members parse f obj) f"
    and E: "\<And>arr. json_reads (json_read_elems parse f arr) (f - 1)"
    and len: "2 * length (js_rest s) + 1 \<le> Suc f"
  shows "\<exists>r. json_read parse (Suc f) s = Some r
    \<and> (\<forall>v s'. r = Inr (v, s') \<longrightarrow> length (js_rest s') < length (js_rest s))"
proof -
  let ?s = "js_skip_white s" and ?g = "snd (js_get (js_skip_white (js_skip_white s)))"
  note l0 = js_skip_white_le [of s] js_skip_white_le [of ?s] js_get_rest [of "js_skip_white ?s"]
  show ?thesis
  proof (cases "js_peek ?s")
    case None
    then show ?thesis by (simp add: json_fail_def Let_def)
  next
    case (Some d)
    then have ne: "js_rest ?s \<noteq> []" by (simp add: js_peek_def split: list.splits)
    consider (obj) "d = c_lbrace" | (arr) "d = c_lbracket" | (str) "d = c_quote"
      | (bool) "d = 0x74 \<or> d = 0x66" | (null) "d = 0x6E"
      | (num) "d \<notin> {c_lbrace, c_lbracket, c_quote, 0x74, 0x66, 0x6E}" by blast
    then show ?thesis
    proof cases
      case obj
      from l0 ne len have "2 * length (js_rest ?g) + 1 \<le> f"
        by (cases "js_rest ?s") auto
      with M [of "[]"] show ?thesis
        by (cases rule: json_readsD) (use Some obj l0 in auto)
    next
      case arr
      from l0 ne len have "2 * length (js_rest ?g) + 1 \<le> f - 1"
        by (cases "js_rest ?s") auto
      with E [of "[]"] show ?thesis
        by (cases rule: json_readsD) (use Some arr l0 in auto)
    next
      case str
      with Some l0 show ?thesis
        by (cases "json_read_str ?s") (auto dest!: json_read_str_le)
    next
      case bool
      with Some l0 show ?thesis by (auto dest!: json_read_bool_le)
    next
      case null
      with Some l0 show ?thesis by (auto dest!: json_read_null_le)
    next
      case num
      with Some l0 show ?thesis
        by (auto simp: json_fail_def Let_def dest!: json_read_number_le [OF Some])
    qed
  qed
qed

lemma json_read_all:
  "json_reads (json_read parse f) f \<and> (\<forall>obj. json_reads (json_read_members parse f obj) f)
   \<and> (\<forall>arr. json_reads (json_read_elems parse f arr) (f - 1))"
proof (induction f)
  case 0
  then show ?case by (simp add: json_reads_def)
next
  case (Suc f)
  then have R: "json_reads (json_read parse f) f"
    and M: "\<And>obj. json_reads (json_read_members parse f obj) f"
    and E: "\<And>arr. json_reads (json_read_elems parse f arr) (f - 1)" by simp_all
  have "json_reads (json_read parse (Suc f)) (Suc f)"
    unfolding json_reads_def using json_read_step [OF M E] by blast
  moreover have "json_reads (json_read_members parse (Suc f) obj) (Suc f)" for obj
    unfolding json_reads_def using json_members_step [OF R M] by blast
  moreover have "json_reads (json_read_elems parse (Suc f) arr) (Suc f - 1)" for arr
    unfolding json_reads_def using json_elems_step [OF R E] by simp
  ultimately show ?case by blast
qed

text \<open>
  C10: reading any input ends: with the fuel the model gives it, the reader returns an object or
  a parse error, and an object leaves a shorter input.
\<close>

theorem json_reader_total:
  "\<exists>r. json_reader_read parse input = Some r
     \<and> (case r of Inl _ \<Rightarrow> True | Inr (obj, s') \<Rightarrow> length (js_rest s') < length input)"
proof -
  let ?s = "js_init input"
  obtain c s1 where g: "js_get (js_skip_white ?s) = (c, s1)" by fastforce
  note l = js_get_le [OF g] js_skip_white_le [of ?s]
  show ?thesis
  proof (cases "c = Some c_lbrace")
    case False
    with g show ?thesis
      by (simp add: json_reader_read_def json_read_object_def json_fail_def)
  next
    case True
    from l have len: "2 * length (js_rest s1) + 1 \<le> 2 * length input + 1" by (simp add: js_init_def)
    have "json_reads (json_read_members parse (2 * length input + 1) []) (2 * length input + 1)"
      using json_read_all by blast
    from this len show ?thesis
      by (cases rule: json_readsD)
         (use g True l in \<open>auto simp: json_reader_read_def json_read_object_def js_init_def\<close>)
  qed
qed

subsection \<open>Writing and reading back\<close>

lemma js_skip_white_spaces:
  assumes "js_rest s = ws @ c # rest" "\<forall>w \<in> set ws. is_space w" "\<not> is_space c"
  shows "js_rest (js_skip_white s) = c # rest"
  using assms
proof (induction ws arbitrary: s)
  case Nil
  then show ?case by (subst js_skip_white.simps) (simp add: js_peek_def)
next
  case (Cons w ws)
  then have "js_rest (snd (js_get s)) = ws @ c # rest" by (simp add: js_get_rest)
  with Cons have "js_rest (js_skip_white (snd (js_get s))) = c # rest" by auto
  with Cons.prems show ?case by (subst js_skip_white.simps) (simp add: js_peek_def)
qed

lemma js_peek_rest [simp]: "js_rest s = c # rest \<Longrightarrow> js_peek s = Some c"
  by (simp add: js_peek_def)

lemma js_get_Cons:
  assumes "js_rest s = c # rest"
  obtains s' where "js_get s = (Some c, s')" "js_rest s' = rest"
  using assms js_get_rest [of s] js_get_fst [of s] by (cases "js_get s") auto

lemma spaces_white [simp]: "\<forall>w \<in> set (spaces n). is_space w"
  by (simp add: spaces_def is_space_def)

lemma replicate_newline_white [simp]: "\<forall>w \<in> set (replicate n c_newline). is_space w"
  by (simp add: is_space_def word_le_nat_alt)

lemma json_unescape_escape:
  "json_escape c = [c_backslash, e] \<Longrightarrow> json_unescape e = [c]"
  by (auto simp: json_escape_def json_unescape_def split: if_splits)

lemma json_escape_cases:
  obtains (plain) "json_escape c = [c]" "c \<noteq> c_quote" "c \<noteq> c_backslash"
  | (esc) e where "json_escape c = [c_backslash, e]"
proof -
  have "(json_escape c = [c] \<and> c \<noteq> c_quote \<and> c \<noteq> c_backslash) \<or> (\<exists>e. json_escape c = [c_backslash, e])"
    by (simp add: json_escape_def)
  then show thesis using plain esc by blast
qed

lemma json_str_loop_escaped:
  "js_rest s = concat (map json_escape str) @ c_quote # rest
   \<Longrightarrow> \<exists>s'. json_str_loop out s = Inr (out @ str, s') \<and> js_rest s' = rest"
proof (induction str arbitrary: out s)
  case Nil
  then obtain s' where "js_get s = (Some c_quote, s')" "js_rest s' = rest"
    by (auto elim: js_get_Cons)
  then show ?case by (subst json_str_loop.simps) simp
next
  case (Cons c str)
  show ?case
  proof (cases c rule: json_escape_cases)
    case plain
    with Cons.prems obtain s1 where
      s1: "js_get s = (Some c, s1)" "js_rest s1 = concat (map json_escape str) @ c_quote # rest"
      by (auto elim: js_get_Cons)
    from Cons.IH [OF s1(2), of "out @ [c]"] s1(1) plain show ?thesis
      by (subst json_str_loop.simps) simp
  next
    case (esc e)
    with Cons.prems obtain s1 where
      s1: "js_get s = (Some c_backslash, s1)" "js_rest s1 = e # concat (map json_escape str) @ c_quote # rest"
      by (auto elim: js_get_Cons)
    then obtain s2 where
      s2: "js_get s1 = (Some e, s2)" "js_rest s2 = concat (map json_escape str) @ c_quote # rest"
      by (auto elim: js_get_Cons)
    from Cons.IH [OF s2(2), of "out @ [c]"] s1(1) s2(1) json_unescape_escape [OF esc] show ?thesis
      by (subst json_str_loop.simps) simp
  qed
qed

lemma json_read_str_encoded:
  assumes "js_rest s = ws @ json_encode_str str @ rest" "\<forall>w \<in> set ws. is_space w"
  obtains s' where "json_read_str s = Inr (str, s')" "js_rest s' = rest"
proof -
  have "js_rest (js_skip_white s) = c_quote # concat (map json_escape str) @ c_quote # rest"
    by (rule js_skip_white_spaces) (use assms in \<open>simp_all add: json_encode_str_def is_space_def word_le_nat_alt\<close>)
  then obtain s1 where
    s1: "js_get (js_skip_white s) = (Some c_quote, s1)"
      "js_rest s1 = concat (map json_escape str) @ c_quote # rest" by (rule js_get_Cons)
  from json_str_loop_escaped [OF s1(2), of "[]"] s1(1) that show thesis
    by (auto simp: json_read_str_def)
qed

text \<open>
  The values that can be written and read back: numbers whose text the stream reads back, and
  objects without duplicate keys, as the container guarantees.
\<close>

definition number_char :: "byte \<Rightarrow> bool" where
  "number_char c \<longleftrightarrow> is_digit c \<or> c = 0x2E \<or> c = 0x2D"

fun json_ok :: "(u64 \<Rightarrow> byte list) \<Rightarrow> (byte list \<Rightarrow> u64) \<Rightarrow> json \<Rightarrow> bool" where
  "json_ok num parse (J_Number v) \<longleftrightarrow>
     num v \<noteq> [] \<and> is_digit (hd (num v)) \<and> list_all number_char (num v) \<and> parse (num v) = v"
| "json_ok num parse (J_Array vals) \<longleftrightarrow> list_all (json_ok num parse) vals"
| "json_ok num parse (J_Object vals) \<longleftrightarrow>
     distinct (map fst vals) \<and> list_all (\<lambda>(k, v). json_ok num parse v) vals"
| "json_ok num parse _ \<longleftrightarrow> True"

definition ends_number :: "byte list \<Rightarrow> bool" where
  "ends_number rest \<longleftrightarrow> (case rest of [] \<Rightarrow> True | c # _ \<Rightarrow> \<not> number_char c)"

lemma ends_number_punct [simp]:
  "ends_number (c_comma # r)" "ends_number (c_rbrace # r)" "ends_number (c_rbracket # r)"
  "ends_number (c_newline # r)" "ends_number (c_space # r)"
  by (simp_all add: ends_number_def number_char_def is_digit_def word_le_nat_alt)

lemma ends_number_spaces [simp]: "ends_number r \<Longrightarrow> ends_number (spaces n @ r)"
  by (cases n) (simp_all add: spaces_def)

lemma not_space_punct [simp]:
  "\<not> is_space c_quote" "\<not> is_space c_comma" "\<not> is_space c_colon" "\<not> is_space c_lbrace"
  "\<not> is_space c_rbrace" "\<not> is_space c_lbracket" "\<not> is_space c_rbracket"
  "\<not> is_space 0x74" "\<not> is_space 0x66" "\<not> is_space 0x6E" "is_space c_newline"
  by (simp_all add: is_space_def word_le_nat_alt)

lemma js_skip_white_idem [simp]: "js_skip_white (js_skip_white s) = js_skip_white s"
proof (induction s rule: js_skip_white.induct)
  case (1 s)
  show ?case
  proof (cases "\<exists>c. js_peek s = Some c \<and> is_space c")
    case True
    then obtain c where c: "js_peek s = Some c" "is_space c" by blast
    then have "js_skip_white s = js_skip_white (snd (js_get s))"
      by (subst js_skip_white.simps) simp
    with "1.IH" [OF c] show ?thesis by simp
  next
    case False
    then have "js_skip_white s = s"
      by (subst js_skip_white.simps) (auto split: option.split)
    then show ?thesis by simp
  qed
qed

lemma json_read_skip [simp]: "json_read parse f (js_skip_white s) = json_read parse f s"
  by (cases f) simp_all

lemma json_number_chars_all:
  assumes "js_rest s = ds @ rest" "list_all number_char ds" "ends_number rest"
  shows "\<exists>s'. json_number_chars str s = (str @ ds, s') \<and> js_rest s' = rest"
  using assms
proof (induction ds arbitrary: str s)
  case Nil
  then show ?case
    by (subst json_number_chars.simps)
       (auto simp: js_peek_def ends_number_def number_char_def split: list.splits)
next
  case (Cons d ds)
  then have "js_rest (snd (js_get s)) = ds @ rest" by (simp add: js_get_rest)
  with Cons.IH [of "snd (js_get s)" "str @ [d]"] Cons.prems show ?case
    by (subst json_number_chars.simps) (simp add: number_char_def)
qed

lemma js_expect_text:
  "js_rest s = cs @ rest \<Longrightarrow> \<exists>s'. js_expect cs s = (True, s') \<and> js_rest s' = rest"
proof (induction cs arbitrary: s)
  case (Cons c cs)
  then obtain s1 where "js_get s = (Some c, s1)" "js_rest s1 = cs @ rest" by (auto elim: js_get_Cons)
  with Cons.IH [of s1] show ?case by simp
qed simp

lemma digit_not_punct:
  "is_digit d \<Longrightarrow> \<not> is_space d \<and> d \<notin> {c_lbrace, c_lbracket, c_quote, 0x74, 0x66, 0x6E}"
  by (auto simp: is_digit_def is_space_def word_le_nat_alt)

text \<open>What reading back a value, the members or the elements means.\<close>

definition json_reads_back ::
  "(u64 \<Rightarrow> byte list) \<Rightarrow> (byte list \<Rightarrow> u64) \<Rightarrow> json \<Rightarrow> bool" where
  "json_reads_back num parse v \<longleftrightarrow> (\<forall>fmt depth ws s rest f.
     js_rest s = ws @ json_write num fmt depth v @ rest \<longrightarrow> (\<forall>w \<in> set ws. is_space w) \<longrightarrow>
     ends_number rest \<longrightarrow> 0 < jf_elems_per_line fmt \<longrightarrow> 2 * length (js_rest s) + 1 \<le> f \<longrightarrow>
     (\<exists>s'. json_read parse f s = Some (Inr (v, s')) \<and> js_rest s' = rest))"

lemma json_reads_backD:
  "json_reads_back num parse v \<Longrightarrow> js_rest s = ws @ json_write num fmt depth v @ rest \<Longrightarrow>
   \<forall>w \<in> set ws. is_space w \<Longrightarrow> ends_number rest \<Longrightarrow> 0 < jf_elems_per_line fmt \<Longrightarrow>
   2 * length (js_rest s) + 1 \<le> f \<Longrightarrow>
   \<exists>s'. json_read parse f s = Some (Inr (v, s')) \<and> js_rest s' = rest"
  unfolding json_reads_back_def by blast

lemma json_reads_backI:
  assumes "\<And>(fmt :: json_format) depth ws (s :: json_stream) rest f.
     js_rest s = ws @ json_write num fmt depth v @ rest \<Longrightarrow> \<forall>w \<in> set ws. is_space w \<Longrightarrow>
     ends_number rest \<Longrightarrow> 0 < jf_elems_per_line fmt \<Longrightarrow> 2 * length (js_rest s) \<le> f \<Longrightarrow>
     \<exists>s'. json_read parse (Suc f) s = Some (Inr (v, s')) \<and> js_rest s' = rest"
  shows "json_reads_back num parse v"
  unfolding json_reads_back_def
proof (intro allI impI)
  fix fmt :: json_format and depth ws rest f and s :: json_stream
  assume a: "js_rest s = ws @ json_write num fmt depth v @ rest" "\<forall>w \<in> set ws. is_space w"
    "ends_number rest" "0 < jf_elems_per_line fmt" "2 * length (js_rest s) + 1 \<le> f"
  then obtain f' where f: "f = Suc f'" by (cases f) auto
  show "\<exists>s'. json_read parse f s = Some (Inr (v, s')) \<and> js_rest s' = rest"
    unfolding f by (rule assms [OF a(1-4)]) (use a(5) f in simp)
qed

lemma json_number_reads_back:
  assumes "json_ok num parse (J_Number n)"
  shows "json_reads_back num parse (J_Number n)"
proof (rule json_reads_backI)
  fix fmt :: json_format and depth ws rest f and s :: json_stream
  assume s: "js_rest s = ws @ json_write num fmt depth (J_Number n) @ rest" "\<forall>w \<in> set ws. is_space w"
    and e: "ends_number rest"
  from assms obtain d ds where n: "num n = d # ds" "is_digit d" by (cases "num n") auto
  have r: "js_rest (js_skip_white s) = d # ds @ rest"
    by (rule js_skip_white_spaces) (use s n digit_not_punct [of d] in auto)
  moreover from n assms have "list_all number_char (d # ds)" by simp
  ultimately obtain s' where
    "json_number_chars [] (js_skip_white s) = (d # ds, s')" "js_rest s' = rest"
    using json_number_chars_all [of "js_skip_white s" "d # ds" rest "[]"] e by auto
  with r n assms digit_not_punct [of d] show
    "\<exists>s'. json_read parse (Suc f) s = Some (Inr (J_Number n, s')) \<and> js_rest s' = rest"
    by (simp add: json_read_number_def Let_def)
qed

lemma json_string_reads_back: "json_reads_back num parse (J_String str)"
proof (rule json_reads_backI)
  fix fmt :: json_format and depth ws rest f and s :: json_stream
  assume s: "js_rest s = ws @ json_write num fmt depth (J_String str) @ rest" "\<forall>w \<in> set ws. is_space w"
  have r: "js_rest (js_skip_white s) = c_quote # concat (map json_escape str) @ c_quote # rest"
    by (rule js_skip_white_spaces) (use s in \<open>auto simp: json_encode_str_def\<close>)
  then have "js_rest (js_skip_white s) = [] @ json_encode_str str @ rest"
    by (simp add: json_encode_str_def)
  then obtain s' where "json_read_str (js_skip_white s) = Inr (str, s')" "js_rest s' = rest"
    by (rule json_read_str_encoded) simp
  with r show "\<exists>s'. json_read parse (Suc f) s = Some (Inr (J_String str, s')) \<and> js_rest s' = rest"
    by (simp add: Let_def)
qed

lemma json_bool_reads_back: "json_reads_back num parse (J_Bool b)"
proof (rule json_reads_backI)
  fix fmt :: json_format and depth ws rest f and s :: json_stream
  assume s: "js_rest s = ws @ json_write num fmt depth (J_Bool b) @ rest" "\<forall>w \<in> set ws. is_space w"
  let ?c = "if b then 0x74 else 0x66 :: byte"
  let ?cs = "if b then [0x72, 0x75, 0x65] else [0x61, 0x6C, 0x73, 0x65] :: byte list"
  have r: "js_rest (js_skip_white s) = ?c # ?cs @ rest"
    by (rule js_skip_white_spaces) (use s in auto)
  then obtain s1 where g: "js_get (js_skip_white s) = (Some ?c, s1)" "js_rest s1 = ?cs @ rest"
    by (rule js_get_Cons)
  from js_expect_text [OF g(2)] obtain s' where "js_expect ?cs s1 = (True, s')" "js_rest s' = rest"
    by blast
  with r g(1) show "\<exists>s'. json_read parse (Suc f) s = Some (Inr (J_Bool b, s')) \<and> js_rest s' = rest"
    by (cases b) (simp_all add: json_read_bool_def Let_def del: js_expect.simps)
qed

lemma json_null_reads_back: "json_reads_back num parse J_Null"
proof (rule json_reads_backI)
  fix fmt :: json_format and depth ws rest f and s :: json_stream
  assume s: "js_rest s = ws @ json_write num fmt depth J_Null @ rest" "\<forall>w \<in> set ws. is_space w"
  have r: "js_rest (js_skip_white s) = 0x6E # [0x75, 0x6C, 0x6C] @ rest"
    by (rule js_skip_white_spaces) (use s in auto)
  then have "js_rest (js_skip_white s) = [0x6E, 0x75, 0x6C, 0x6C] @ rest" by simp
  from js_expect_text [OF this] obtain s' where
    "js_expect [0x6E, 0x75, 0x6C, 0x6C] (js_skip_white s) = (True, s')" "js_rest s' = rest" by blast
  with r show "\<exists>s'. json_read parse (Suc f) s = Some (Inr (J_Null, s')) \<and> js_rest s' = rest"
    by (simp add: json_read_null_def Let_def del: js_expect.simps)
qed

text \<open>What follows an element: white space and the closing bracket, or a comma and the rest.\<close>

lemma json_close:
  assumes "js_rest s3 = ws @ c # rest" "\<forall>w \<in> set ws. is_space w" "\<not> is_space c" "c \<noteq> c_comma"
  shows "js_peek (js_skip_white s3) = Some c \<and> js_rest (js_skip_white s3) = c # rest"
  using js_skip_white_spaces [OF assms(1-3)] by simp

lemma json_members_close:
  assumes "js_rest s = ws @ c_rbrace # rest" "\<forall>w \<in> set ws. is_space w"
  shows "\<exists>s'. json_read_members parse (Suc f) obj s = Some (Inr (obj, s')) \<and> js_rest s' = rest"
proof -
  have "js_rest (js_skip_white s) = c_rbrace # rest"
    by (rule js_skip_white_spaces) (use assms in auto)
  then show ?thesis by (simp add: Let_def js_get_rest)
qed

lemma json_elems_close:
  assumes "js_rest s = ws @ c_rbracket # rest" "\<forall>w \<in> set ws. is_space w"
  shows "\<exists>s'. json_read_elems parse (Suc f) arr s = Some (Inr (arr, s')) \<and> js_rest s' = rest"
proof -
  have "js_rest (js_skip_white s) = c_rbracket # rest"
    by (rule js_skip_white_spaces) (use assms in auto)
  then show ?thesis by (simp add: Let_def js_get_rest)
qed

lemma json_set_new: "name \<notin> set (map fst obj) \<Longrightarrow> json_set name val obj = obj @ [(name, val)]"
  by (simp add: json_set_def umap_set_new)

lemma json_member_reads:
  assumes "json_reads_back num parse v" "0 < jf_elems_per_line fmt"
    and s: "js_rest s = ws @ json_encode_str k @ spaces a @ c_colon # spaces b @
      json_write num fmt depth v @ t" and ws: "\<forall>w \<in> set ws. is_space w"
    and t: "ends_number t" and len: "2 * length (js_rest s) \<le> f"
  obtains s3 where "js_rest s3 = t"
    "\<And>obj. json_read_members parse (Suc f) obj s =
       (if js_peek (js_skip_white s3) = Some c_comma
        then json_read_members parse f (json_set k v obj) (snd (js_get (js_skip_white s3)))
        else if js_peek (js_skip_white s3) \<noteq> Some c_rbrace
        then Some (json_fail (''expected '' @ [CHR 0x27, CHR 0x2C, CHR 0x27] @ '' or ''
               @ [CHR 0x27, CHR 0x7D, CHR 0x27] @ '' after name/value pair'') (js_skip_white s3))
        else json_read_members parse f (json_set k v obj) (js_skip_white s3))"
proof -
  let ?t2 = "spaces b @ json_write num fmt depth v @ t"
  have r: "js_rest (js_skip_white s) = c_quote # concat (map json_escape k) @ c_quote # spaces a @ c_colon # ?t2"
    by (rule js_skip_white_spaces [OF _ ws]) (use s in \<open>simp_all add: json_encode_str_def\<close>)
  then have "js_rest (js_skip_white s) = [] @ json_encode_str k @ spaces a @ c_colon # ?t2"
    by (simp add: json_encode_str_def)
  then obtain s1 where s1: "json_read_str (js_skip_white s) = Inr (k, s1)"
    "js_rest s1 = spaces a @ c_colon # ?t2"
    by (rule json_read_str_encoded) simp
  have "js_rest (js_skip_white s1) = c_colon # ?t2"
    by (rule js_skip_white_spaces [OF s1(2)]) simp_all
  then obtain s2 where s2: "js_get (js_skip_white s1) = (Some c_colon, s2)" "js_rest s2 = ?t2"
    by (rule js_get_Cons)
  have "2 * length (js_rest s2) + 1 \<le> f" using len s s2(2) by simp
  with assms(1,2) s2(2) t obtain s3 where
    s3: "json_read parse f s2 = Some (Inr (v, s3))" "js_rest s3 = t"
    unfolding json_reads_back_def using spaces_white by blast
  show thesis
    by (rule that [OF s3(2)]) (simp add: r s1(1) s2(1) s3(1) Let_def)
qed

text \<open>The text after an element: a comma and more elements, or nothing but white space.\<close>

lemma json_after_comma:
  assumes "js_rest s3 = c_comma # t"
  shows "js_peek (js_skip_white s3) = Some c_comma \<and> js_rest (snd (js_get (js_skip_white s3))) = t"
proof -
  have "js_rest (js_skip_white s3) = c_comma # t"
    by (rule js_skip_white_spaces [of s3 "[]"]) (use assms in simp_all)
  then show ?thesis by (simp add: js_get_rest)
qed

lemma json_members_read_back:
  assumes "\<forall>(k, v) \<in> set vals. json_reads_back num parse v" "0 < jf_elems_per_line fmt"
    "js_rest s = ws @ json_write_members num fmt depth vals @ spaces n @ c_rbrace # rest"
    "\<forall>w \<in> set ws. is_space w" "distinct (map fst (obj @ vals))" "2 * length (js_rest s) + 1 \<le> f"
  shows "\<exists>s'. json_read_members parse f obj s = Some (Inr (obj @ vals, s')) \<and> js_rest s' = rest"
  using assms
proof (induction vals arbitrary: s ws obj f)
  case Nil
  then obtain f' where f: "f = Suc f'" by (cases f) auto
  from Nil have "js_rest s = (ws @ spaces n) @ c_rbrace # rest" by simp
  moreover from Nil spaces_white have "\<forall>w \<in> set (ws @ spaces n). is_space w" by auto
  ultimately show ?case unfolding f append_Nil2 by (rule json_members_close)
next
  case (Cons kv vals)
  obtain k v where kv: "kv = (k, v)" by fastforce
  from Cons.prems obtain f' where f: "f = Suc f'" by (cases f) auto
  let ?ws = "ws @ (if jf_indent fmt \<noteq> 0 then spaces (jf_indent fmt * (depth + 1)) else [])"
  let ?nl = "if jf_elem_per_line fmt then [c_newline] else []"
  let ?sp = "spaces (jf_comma_spaces fmt) @ replicate (jf_elem_dist fmt) c_newline @ ?nl"
  let ?m = "json_write_members num fmt depth vals @ spaces n @ c_rbrace # rest"
  let ?t = "if vals \<noteq> [] then c_comma # ?sp @ ?m else ?nl @ spaces n @ c_rbrace # rest"
  have new: "json_set k v obj = obj @ [(k, v)]"
    using Cons.prems(5) by (intro json_set_new) (auto simp: kv)
  have s: "js_rest s = ?ws @ json_encode_str k @ spaces (jf_col_space_before fmt) @ c_colon #
      spaces (jf_col_space_after fmt) @ json_write num fmt (depth + 1) v @ ?t"
    using Cons.prems(3) by (simp add: kv)
  have ws: "\<forall>w \<in> set ?ws. is_space w" using Cons.prems(4) spaces_white by auto
  have v: "json_reads_back num parse v" using Cons.prems(1) by (simp add: kv)
  have len: "2 * length (js_rest s) \<le> f'" using Cons.prems(6) f by simp
  obtain s3 where s3: "js_rest s3 = ?t" and rd: "\<And>obj. json_read_members parse (Suc f') obj s =
       (if js_peek (js_skip_white s3) = Some c_comma
        then json_read_members parse f' (json_set k v obj) (snd (js_get (js_skip_white s3)))
        else if js_peek (js_skip_white s3) \<noteq> Some c_rbrace
        then Some (json_fail (''expected '' @ [CHR 0x27, CHR 0x2C, CHR 0x27] @ '' or ''
               @ [CHR 0x27, CHR 0x7D, CHR 0x27] @ '' after name/value pair'') (js_skip_white s3))
        else json_read_members parse f' (json_set k v obj) (js_skip_white s3))"
    by (rule json_member_reads [OF v Cons.prems(2) s ws _ len]) auto
  show ?case
  proof (cases "vals = []")
    case True
    then have p: "js_peek (js_skip_white s3) = Some c_rbrace \<and> js_rest (js_skip_white s3) = c_rbrace # rest"
      using s3 by (intro json_close [of s3 "?nl @ spaces n"]) (auto simp: spaces_def is_space_def)
    from len s obtain f'' where f'': "f' = Suc f''" by (cases f') auto
    with json_members_close [of "js_skip_white s3" "[]" rest parse f'' "obj @ [(k, v)]"] p
    show ?thesis unfolding f rd by (simp add: new True kv del: json_read_members.simps)
  next
    case False
    with s3 have p: "js_peek (js_skip_white s3) = Some c_comma"
      "js_rest (snd (js_get (js_skip_white s3))) = ?sp @ ?m"
      using json_after_comma [of s3 "?sp @ ?m"] by auto
    have "\<forall>w \<in> set ?sp. is_space w" using spaces_white replicate_newline_white by auto
    moreover have "2 * length (js_rest (snd (js_get (js_skip_white s3)))) + 1 \<le> f'"
      using len False unfolding p(2) s by simp
    ultimately show ?thesis
      using Cons.IH [OF _ Cons.prems(2) p(2), of "obj @ [(k, v)]" f'] Cons.prems(1,5)
      unfolding f rd by (simp add: new p(1) kv del: json_read_members.simps)
  qed
qed

lemma json_read_not_bracket:
  "json_read parse f s = Some (Inr r) \<Longrightarrow> js_peek (js_skip_white s) \<noteq> Some c_rbracket"
  by (cases f) (auto simp: Let_def json_fail_def is_digit_def word_le_nat_alt)

lemma json_elem_reads:
  assumes "json_reads_back num parse v" "0 < jf_elems_per_line fmt"
    and "js_rest s = ws @ json_write num fmt depth v @ t" "\<forall>w \<in> set ws. is_space w"
    and "ends_number t" "2 * length (js_rest s) + 1 \<le> f"
  obtains s3 where "js_rest s3 = t"
    "\<And>arr. json_read_elems parse (Suc f) arr s =
       (if js_peek (js_skip_white s3) = Some c_comma
        then json_read_elems parse f (arr @ [v]) (snd (js_get (js_skip_white s3)))
        else if js_peek (js_skip_white s3) \<noteq> Some c_rbracket
        then Some (json_fail (''expected '' @ [CHR 0x27, CHR 0x2C, CHR 0x27] @ '' or ''
               @ [CHR 0x27, CHR 0x5D, CHR 0x27] @ '' after array element'') (js_skip_white s3))
        else json_read_elems parse f (arr @ [v]) (js_skip_white s3))"
proof -
  from assms obtain s3 where
    s3: "json_read parse f s = Some (Inr (v, s3))" "js_rest s3 = t"
    unfolding json_reads_back_def by blast
  show thesis
    by (rule that [OF s3(2)]) (use json_read_not_bracket [OF s3(1)] s3(1) in \<open>simp add: Let_def\<close>)
qed

lemma json_elems_read_back:
  assumes "\<forall>v \<in> set vals. json_reads_back num parse v" "0 < jf_elems_per_line fmt"
    "js_rest s = ws @ json_write_elems num fmt depth i vals @ spaces n @ c_rbracket # rest"
    "\<forall>w \<in> set ws. is_space w" "2 * length (js_rest s) + 2 \<le> f"
  shows "\<exists>s'. json_read_elems parse f arr s = Some (Inr (arr @ vals, s')) \<and> js_rest s' = rest"
  using assms
proof (induction vals arbitrary: s ws arr f i)
  case Nil
  then obtain f' where f: "f = Suc f'" by (cases f) auto
  from Nil have "js_rest s = (ws @ spaces n) @ c_rbracket # rest" by simp
  moreover from Nil spaces_white have "\<forall>w \<in> set (ws @ spaces n). is_space w" by auto
  ultimately show ?case unfolding f append_Nil2 by (rule json_elems_close)
next
  case (Cons v vals)
  from Cons.prems obtain f' where f: "f = Suc f'" by (cases f) auto
  let ?ws = "ws @ (if jf_indent fmt \<noteq> 0 \<and> i mod jf_elems_per_line fmt = 0
      then spaces (jf_indent fmt * (depth + 1)) else [])"
  let ?nl = "if jf_elem_per_line fmt \<and> (vals = [] \<or> (i + 1) mod jf_elems_per_line fmt = 0)
      then [c_newline] else []"
  let ?sp = "spaces (jf_comma_spaces fmt) @ replicate (jf_elem_dist fmt) c_newline @ ?nl"
  let ?m = "json_write_elems num fmt depth (i + 1) vals @ spaces n @ c_rbracket # rest"
  let ?t = "if vals \<noteq> [] then c_comma # ?sp @ ?m else ?nl @ spaces n @ c_rbracket # rest"
  have s: "js_rest s = ?ws @ json_write num fmt (depth + 1) v @ ?t"
    using Cons.prems(3) by simp
  have ws: "\<forall>w \<in> set ?ws. is_space w" using Cons.prems(4) spaces_white by auto
  have v: "json_reads_back num parse v" using Cons.prems(1) by simp
  have len: "2 * length (js_rest s) + 1 \<le> f'" using Cons.prems(5) f by simp
  obtain s3 where s3: "js_rest s3 = ?t" and rd: "\<And>arr. json_read_elems parse (Suc f') arr s =
       (if js_peek (js_skip_white s3) = Some c_comma
        then json_read_elems parse f' (arr @ [v]) (snd (js_get (js_skip_white s3)))
        else if js_peek (js_skip_white s3) \<noteq> Some c_rbracket
        then Some (json_fail (''expected '' @ [CHR 0x27, CHR 0x2C, CHR 0x27] @ '' or ''
               @ [CHR 0x27, CHR 0x5D, CHR 0x27] @ '' after array element'') (js_skip_white s3))
        else json_read_elems parse f' (arr @ [v]) (js_skip_white s3))"
    by (rule json_elem_reads [OF v Cons.prems(2) s ws _ len]) auto
  show ?case
  proof (cases "vals = []")
    case True
    then have p: "js_peek (js_skip_white s3) = Some c_rbracket \<and> js_rest (js_skip_white s3) = c_rbracket # rest"
      using s3 by (intro json_close [of s3 "?nl @ spaces n"]) (auto simp: spaces_def is_space_def)
    from len s obtain f'' where f'': "f' = Suc f''" by (cases f') auto
    with json_elems_close [of "js_skip_white s3" "[]" rest parse f'' "arr @ [v]"] p
    show ?thesis unfolding f rd by (simp add: True del: json_read_elems.simps)
  next
    case False
    with s3 have p: "js_peek (js_skip_white s3) = Some c_comma"
      "js_rest (snd (js_get (js_skip_white s3))) = ?sp @ ?m"
      using json_after_comma [of s3 "?sp @ ?m"] by auto
    have "\<forall>w \<in> set ?sp. is_space w" using spaces_white replicate_newline_white by auto
    moreover have "2 * length (js_rest (snd (js_get (js_skip_white s3)))) + 2 \<le> f'"
      using len False unfolding p(2) s by simp
    ultimately show ?thesis
      using Cons.IH [OF _ Cons.prems(2) p(2), of f' "arr @ [v]"] Cons.prems(1)
      unfolding f rd by (simp add: p(1) del: json_read_elems.simps)
  qed
qed

lemma json_reads_back_all: "json_ok num parse v \<Longrightarrow> json_reads_back num parse v"
proof (induction v)
  case J_Null
  show ?case by (rule json_null_reads_back)
next
  case (J_Bool b)
  show ?case by (rule json_bool_reads_back)
next
  case (J_Number n)
  then show ?case by (rule json_number_reads_back)
next
  case (J_String str)
  show ?case by (rule json_string_reads_back)
next
  case (J_Array vals)
  then have vals: "\<forall>v \<in> set vals. json_reads_back num parse v" by (auto simp: list_all_iff)
  show ?case
  proof (rule json_reads_backI)
    fix fmt :: json_format and depth ws rest f and s :: json_stream
    assume s: "js_rest s = ws @ json_write num fmt depth (J_Array vals) @ rest" "\<forall>w \<in> set ws. is_space w"
      and fmt: "0 < jf_elems_per_line fmt" and f: "2 * length (js_rest s) \<le> f"
    let ?n = "jf_indent fmt * depth"
    let ?ws = "ws @ (if jf_bracket_in_line fmt then c_newline # spaces ?n else [])"
    let ?nl = "if jf_elem_per_line fmt then [c_newline] else []"
    let ?t = "?nl @ json_write_elems num fmt depth 0 vals @ spaces ?n @ c_rbracket # rest"
    have r: "js_rest (js_skip_white s) = c_lbracket # ?t"
      by (rule js_skip_white_spaces [of s ?ws]) (use s spaces_white in auto)
    then have r': "js_rest (snd (js_get (js_skip_white s))) = ?t" by (simp add: js_get_rest)
    have "2 * length (js_rest (snd (js_get (js_skip_white s)))) + 2 \<le> f"
      using f js_skip_white_le [of s] unfolding r' r by simp
    from json_elems_read_back [OF vals fmt r' _ this, of "[]"] r
    show "\<exists>s'. json_read parse (Suc f) s = Some (Inr (J_Array vals, s')) \<and> js_rest s' = rest"
      by (auto simp: Let_def)
  qed
next
  case (J_Object vals)
  then have vals: "\<forall>(k, v) \<in> set vals. json_reads_back num parse v"
    and dist: "distinct (map fst ([] @ vals))"
    by (auto simp: list_all_iff)
  show ?case
  proof (rule json_reads_backI)
    fix fmt :: json_format and depth ws rest f and s :: json_stream
    assume s: "js_rest s = ws @ json_write num fmt depth (J_Object vals) @ rest" "\<forall>w \<in> set ws. is_space w"
      and fmt: "0 < jf_elems_per_line fmt" and f: "2 * length (js_rest s) \<le> f"
    let ?n = "jf_indent fmt * depth"
    let ?ws = "ws @ (if jf_brace_in_line fmt then c_newline # spaces ?n else [])"
    let ?nl = "if jf_elem_per_line fmt then [c_newline] else []"
    let ?t = "?nl @ json_write_members num fmt depth vals @ spaces ?n @ c_rbrace # rest"
    have r: "js_rest (js_skip_white s) = c_lbrace # ?t"
      by (rule js_skip_white_spaces [of s ?ws]) (use s spaces_white in auto)
    then have r': "js_rest (snd (js_get (js_skip_white s))) = ?t" by (simp add: js_get_rest)
    have "2 * length (js_rest (snd (js_get (js_skip_white s)))) + 1 \<le> f"
      using f js_skip_white_le [of s] unfolding r' r by simp
    from json_members_read_back [OF vals fmt r' _ dist this] r
    show "\<exists>s'. json_read parse (Suc f) s = Some (Inr (J_Object vals, s')) \<and> js_rest s' = rest"
      by (auto simp: Let_def)
  qed
qed

lemma json_read_object_of_read:
  "js_peek (js_skip_white s) = Some c_lbrace \<Longrightarrow>
   json_read parse (Suc f) s = Some (Inr (J_Object obj, s')) \<Longrightarrow>
   json_read_object parse f s = Some (Inr (obj, s'))"
  using js_get_fst [of "js_skip_white s"]
  by (auto simp: json_read_object_def Let_def split: prod.splits option.splits sum.splits)



text \<open>
  The reader rejects a negative number, although the writer writes them; and it drops an
  escape it does not know, so \<open>\u0041\<close> is read as the four characters \<open>0041\<close>.
\<close>

theorem json_reader_gaps:
  "json_reader_read parse [c_lbrace, c_quote, 0x61, c_quote, c_colon, 0x2D, 0x31, c_rbrace]
     = Some (Inl (''invalid JSON value'', 1, 6))
   \<and> json_str_loop [] (js_init [c_backslash, 0x75, 0x30, 0x30, 0x34, 0x31, c_quote])
     = Inr ([0x30, 0x30, 0x34, 0x31], \<lparr>js_rest = [], js_line = 1, js_col = 8, js_pcol = []\<rparr>)"
  by code_simp

end
