(* ===== verification/Uuid.thy ===== *)
theory Uuid
  imports Binary
begin

text \<open>
  \<open>struct uuid_t\<close> of \<open>src/util/uuid.cpp\<close>: sixteen bytes. The MD5 digest of \<open>generate_v3\<close> and
  the random bytes of \<open>generate_v4\<close> are arguments.
\<close>

type_synonym uuid = "byte list"

definition uuid_ok :: "uuid \<Rightarrow> bool" where
  "uuid_ok u \<longleftrightarrow> length u = 16"

text \<open>The comparison reads the parts as four 32-bit words; \<open>None\<close> is a read past a part list.\<close>

definition uuid_eq :: "uuid \<Rightarrow> uuid \<Rightarrow> bool" where
  "uuid_eq a b = list_all (\<lambda>i. read_int_le (drop (4 * i) a) = read_int_le (drop (4 * i) b)) [0, 1, 2, 3]"

definition uuid_ne :: "uuid \<Rightarrow> uuid \<Rightarrow> bool" where
  "uuid_ne a b = (\<not> uuid_eq a b)"

text \<open>The array of digits \<open>0123456789abcdef\<close>.\<close>

definition hex_digits :: "byte list" where
  "hex_digits = [0x30, 0x31, 0x32, 0x33, 0x34, 0x35, 0x36, 0x37, 0x38, 0x39,
     0x61, 0x62, 0x63, 0x64, 0x65, 0x66]"

definition hex_digit :: "byte \<Rightarrow> byte" where
  "hex_digit n = hex_digits ! unat n"

definition uuid_str_step :: "uuid \<Rightarrow> nat \<Rightarrow> byte list \<Rightarrow> byte list" where
  "uuid_str_step u i out =
     (let out = (if i = 4 \<or> i = 6 \<or> i = 8 \<or> i = 10 then out @ [0x2D] else out); p = u ! i
      in out @ [hex_digit (drop_bit 4 p), hex_digit (p AND 15)])"

definition uuid_str :: "uuid \<Rightarrow> byte list" where
  "uuid_str u = fold (uuid_str_step u) [0..<16] []"

definition generate_v4 :: "byte list \<Rightarrow> uuid" where
  "generate_v4 rnd =
     (let u = take 16 rnd in (u[6 := 0x40 OR (u ! 6 AND 15)])[8 := 0xB0 OR (u ! 8 AND 15)])"

definition generate_v3 :: "(byte list \<Rightarrow> byte list) \<Rightarrow> byte list \<Rightarrow> uuid" where
  "generate_v3 md5 str =
     (let u = take 16 (md5 str) in (u[6 := 0x30 OR (u ! 6 AND 15)])[8 := 0xB0 OR (u ! 8 AND 15)])"

text \<open>Characters are compared as signed bytes.\<close>

definition hex_to_dec :: "byte \<Rightarrow> byte" where
  "hex_to_dec c =
     (if 0x61 \<le> sint c \<and> sint c \<le> 0x7A then 10 + c - 0x61
      else if 0x41 \<le> sint c \<and> sint c \<le> 0x5A then 10 + c - 0x41
      else c - 0x30)"

text \<open>Indexing a string at its size yields its terminator, and beyond it is undefined.\<close>

definition str_at :: "byte list \<Rightarrow> nat \<Rightarrow> byte option" where
  "str_at s i = (if i < length s then Some (s ! i) else if i = length s then Some 0 else None)"

fun parse_hex_loop :: "byte list \<Rightarrow> nat list \<Rightarrow> byte list option" where
  "parse_hex_loop str [] = Some []"
| "parse_hex_loop str (i # is) =
     (case (str_at str (i * 2 + 0), str_at str (i * 2 + 1)) of
        (Some a, Some b) \<Rightarrow>
          map_option (\<lambda>r. (push_bit 4 (hex_to_dec a) OR hex_to_dec b) # r) (parse_hex_loop str is)
      | _ \<Rightarrow> None)"

definition parse_hex :: "byte list \<Rightarrow> uuid option" where
  "parse_hex str = parse_hex_loop str [0..<16]"

subsection \<open>Equality\<close>

lemma uuid_ok_cases:
  assumes "uuid_ok u"
  obtains a b c d e f g h i j k l m n p q where "u = [a, b, c, d, e, f, g, h, i, j, k, l, m, n, p, q]"
proof -
  have "length u = Suc (Suc (Suc (Suc (Suc (Suc (Suc (Suc (Suc (Suc (Suc (Suc (Suc (Suc (Suc (Suc 0)))))))))))))))"
    using assms by (simp add: uuid_ok_def)
  then show thesis using that by (auto simp: length_Suc_conv)
qed

lemma byte_bit_high: "\<not> bit (x :: byte) (n + 8)" "\<not> bit x (n + 16)" "\<not> bit x (n + 24)"
    "\<not> bit x (8 + n)" "\<not> bit x (16 + n)"
  by (auto dest: bit_imp_le_length)

lemma read_int_le_inj:
  "(read_int_le (a # b # c # d # r) = read_int_le (a' # b' # c' # d' # r')) \<longleftrightarrow>
   a = a' \<and> b = b' \<and> c = c' \<and> d = d'"
proof
  let ?w = "\<lambda>a b c d. ucast a OR push_bit 8 (ucast b) OR push_bit 16 (ucast c) OR push_bit 24 (ucast d) :: u32"
  assume "read_int_le (a # b # c # d # r) = read_int_le (a' # b' # c' # d' # r')"
  then have w: "?w a b c d = ?w a' b' c' d'" by (simp add: read_int_le_def)
  have byte: "x = y" if "\<And>n. n < 8 \<Longrightarrow> bit x n = bit y n" for x y :: byte
    by (rule bit_word_eqI) (use that in simp)
  have 0: "bit (?w a b c d) n = bit a n" if "n < 8" for a b c d :: byte and n
    using that by (simp add: bit_simps)
  have 1: "bit (?w a b c d) (n + 8) = bit b n" if "n < 8" for a b c d :: byte and n
    using that byte_bit_high by (auto simp: bit_simps)
  have 2: "bit (?w a b c d) (n + 16) = bit c n" if "n < 8" for a b c d :: byte and n
    using that byte_bit_high by (auto simp: bit_simps)
  have 3: "bit (?w a b c d) (n + 24) = bit d n" if "n < 8" for a b c d :: byte and n
    using that byte_bit_high by (auto simp: bit_simps)
  show "a = a' \<and> b = b' \<and> c = c' \<and> d = d'"
    using w 0 1 2 3 by (intro conjI byte) metis+
qed (simp add: read_int_le_def)

text \<open>
  Comparing two UUIDs word by word decides whether all their sixteen bytes are equal.
\<close>

theorem uuid_eq_iff:
  assumes "uuid_ok a" "uuid_ok b"
  shows "uuid_eq a b \<longleftrightarrow> a = b"
  using assms by (elim uuid_ok_cases) (simp add: uuid_eq_def read_int_le_inj)

theorem uuid_eq_iff_witness:
  "\<not> uuid_eq (replicate 16 0) ((replicate 16 0)[15 := 1])"
  using uuid_eq_iff [of "replicate 16 0" "(replicate 16 0)[15 := 1]"]
  by (simp add: uuid_ok_def) (simp add: numeral_eq_Suc)

subsection \<open>Text\<close>

lemma hex_to_dec_digit: "unat n < 16 \<Longrightarrow> hex_to_dec (hex_digit n) = n"
proof -
  have all: "list_all (\<lambda>n. hex_to_dec (hex_digits ! n) = of_nat n) [0..<16]"
    by code_simp
  assume "unat n < 16"
  with all show ?thesis by (simp add: hex_digit_def list_all_iff)
qed

lemma nibbles: "unat (drop_bit 4 (p :: byte)) < 16" "unat (p AND 15) < 16"
  "push_bit 4 (drop_bit 4 p) OR (p AND 15) = p"
proof -
  have p: "unat p < 256" using unsigned_less [of p] by simp
  have "unat (drop_bit 4 p) = drop_bit 4 (unat p)" by (rule unat_drop_bit_eq)
  also have "\<dots> < 16" using p by (simp add: drop_bit_eq_div)
  finally show "unat (drop_bit 4 p) < 16" .
  have m: "(15 :: byte) = mask 4" by (simp add: mask_eq_exp_minus_1)
  show "unat (p AND 15) < 16"
    unfolding m using take_bit_nat_less_exp [of 4 "unat p"]
    by (simp add: unsigned_take_bit_eq flip: take_bit_eq_mask)
  show "push_bit 4 (drop_bit 4 p) OR (p AND 15) = p"
    unfolding m by (rule bit_word_eqI) (auto simp: bit_simps)
qed

text \<open>The text with its dashes taken out is the two digits of every byte.\<close>

definition hex_pair :: "byte \<Rightarrow> byte list" where
  "hex_pair p = [hex_digit (drop_bit 4 p), hex_digit (p AND 15)]"

definition undashed :: "byte list \<Rightarrow> byte list" where
  "undashed s = filter (\<lambda>c. c \<noteq> 0x2D) s"

lemma hex_digit_not_dash: "unat n < 16 \<Longrightarrow> hex_digit n \<noteq> 0x2D"
proof -
  have all: "list_all (\<lambda>n. hex_digits ! n \<noteq> 0x2D) [0..<16]" by code_simp
  assume "unat n < 16"
  with all show ?thesis by (simp add: hex_digit_def list_all_iff)
qed

lemma undashed_step: "undashed (uuid_str_step u i out) = undashed out @ hex_pair (u ! i)"
  using nibbles [of "u ! i"] hex_digit_not_dash
  by (simp add: uuid_str_step_def undashed_def hex_pair_def Let_def)

lemma undashed_fold: "undashed (fold (uuid_str_step u) is out) = undashed out @ concat (map (hex_pair \<circ> (!) u) is)"
  by (induction "is" arbitrary: out) (simp_all add: undashed_step)

lemma undashed_uuid_str: "uuid_ok u \<Longrightarrow> undashed (uuid_str u) = concat (map hex_pair u)"
proof -
  assume "uuid_ok u"
  then have "map ((!) u) [0..<16] = u" using map_nth [of u] by (simp add: uuid_ok_def)
  then have "map (hex_pair \<circ> (!) u) [0..<16] = map hex_pair u" by (metis map_map)
  then show ?thesis by (simp add: uuid_str_def undashed_fold) (simp add: undashed_def)
qed

lemma str_at_simps:
  "str_at (a # s) 0 = Some a" "str_at (a # b # s) (Suc 0) = Some b"
  "str_at (a # b # s) (Suc (Suc k)) = str_at s k"
  by (simp_all add: str_at_def)

lemma str_at_pairs:
  "i < length u \<Longrightarrow> str_at (concat (map hex_pair u)) (i * 2) = Some (hex_digit (drop_bit 4 (u ! i)))
    \<and> str_at (concat (map hex_pair u)) (Suc (i * 2)) = Some (hex_digit (u ! i AND 15))"
proof (induction u arbitrary: i)
  case (Cons p u)
  then show ?case by (cases i) (simp_all add: hex_pair_def str_at_simps)
qed simp

lemma parse_hex_loop_pairs:
  "\<forall>i \<in> set is. i < length u \<Longrightarrow>
   parse_hex_loop (concat (map hex_pair u)) is = Some (map ((!) u) is)"
  by (induction "is") (simp_all add: str_at_pairs hex_to_dec_digit nibbles)



lemma generated_uuid_ok:
  "16 \<le> length rnd \<Longrightarrow> uuid_ok (generate_v4 rnd)"
  "16 \<le> length (md5 str) \<Longrightarrow> uuid_ok (generate_v3 md5 str)"
  by (simp_all add: generate_v4_def generate_v3_def uuid_ok_def Let_def)

end
