(* ===== verification/Framing.thy ===== *)
theory Framing
  imports Binary
begin

text \<open>
  Packet boundaries on the byte stream of a connection: the delimiters of
  \<open>src/network/packet_delimiter.cpp\<close>, the read loop of \<open>connection::on_read\<close>
  (\<open>src/network/connection.cpp\<close>), and the byte-by-byte machine it implements.
\<close>

subsection \<open>Delimiters\<close>

text \<open>The scan for the last byte of the length field: the index it stops at.\<close>

fun length_scan :: "byte list \<Rightarrow> nat" where
  "length_scan [] = 0"
| "length_scan (b # arr) = (if b AND 0x80 = 0 then 0 else Suc (length_scan arr))"

text \<open>The sum is computed in 32 bits; \<open>None\<close> is a read past the bytes received.\<close>

definition mc17_remaining :: "byte list \<Rightarrow> int option" where
  "mc17_remaining arr =
     (let got = length arr; i = length_scan arr; got_len = i < got in
      if i \<ge> 5 then Some (-1)
      else if \<not> got_len then Some 1
      else case read_varint arr of
        None \<Rightarrow> None
      | Some (len, _) \<Rightarrow> Some (sint (len + of_nat i + 1 - of_nat got)))"

datatype packet_delimiter = Infer_packet_delimiter | Mc17_packet_delimiter

fun remaining :: "packet_delimiter \<Rightarrow> byte list \<Rightarrow> int option" where
  "remaining Infer_packet_delimiter arr = mc17_remaining arr"
| "remaining Mc17_packet_delimiter arr = mc17_remaining arr"

subsection \<open>The read loop\<close>

text \<open>
  What the loop works on: the packet being assembled (the first \<open>rbuf_len\<close> bytes of \<open>rbuf\<close>),
  the final transformed data, the packets handed to the handler's job sequence, oldest first,
  and whether a disconnect was asked for.
\<close>

record read_state =
  rs_rbuf :: "byte list"
  rs_ftb :: "byte list"
  rs_jobs :: "byte list list"
  rs_disconnect_req :: bool

definition READ_BUFFER_SIZE :: nat where "READ_BUFFER_SIZE = 512"

text \<open>
  One round of the loop; the first component says whether the loop goes on. The room check adds
  in 32 bits; \<open>None\<close> is a copy past the end of \<open>rbuf\<close>.
\<close>

definition read_step ::
  "packet_delimiter \<Rightarrow> 'z read_state_scheme \<Rightarrow> (bool \<times> 'z read_state_scheme) option" where
  "read_step d c =
     (let len = length (rs_ftb c); got = length (rs_rbuf c) in
      case remaining d (rs_rbuf c) of
        None \<Rightarrow> None
      | Some rem \<Rightarrow>
          if rem < 0 then Some (False, c\<lparr>rs_disconnect_req := True\<rparr>)
          else if rem = 0 then
            Some (len > 0, c\<lparr>rs_jobs := rs_jobs c @ [rs_rbuf c], rs_rbuf := []\<rparr>)
          else if sint (of_nat got + word_of_int rem :: u32) > int READ_BUFFER_SIZE
            then Some (False, c\<lparr>rs_disconnect_req := True\<rparr>)
          else let n = min (nat rem) len in
            if got + n > READ_BUFFER_SIZE then None
            else Some (len > 0, c\<lparr>rs_rbuf := rs_rbuf c @ take n (rs_ftb c),
                                 rs_ftb := drop n (rs_ftb c)\<rparr>))"

lemma remaining_eq [simp]: "remaining d arr = mc17_remaining arr"
  by (cases d) simp_all

definition read_measure :: "'z read_state_scheme \<Rightarrow> nat" where
  "read_measure c = 2 * length (rs_ftb c) + (if mc17_remaining (rs_rbuf c) = Some 0 then 1 else 0)"

lemma mc17_remaining_Nil [simp]: "mc17_remaining [] = Some 1"
  by (simp add: mc17_remaining_def)

lemma taken_less: "\<not> r < 0 \<Longrightarrow> r \<noteq> 0 \<Longrightarrow> xs \<noteq> [] \<Longrightarrow>
   Suc (2 * (length xs - min (nat r) (length xs))) < 2 * length xs"
  by (cases xs) (auto simp: min_def)

lemma read_step_decreases:
  assumes "read_step d c = Some (True, c')" shows "read_measure c' < read_measure c"
  using assms
  by (auto simp: read_step_def read_measure_def Let_def taken_less split: option.splits if_splits)

function read_loop :: "packet_delimiter \<Rightarrow> 'z read_state_scheme \<Rightarrow> 'z read_state_scheme option" where
  "read_loop d c = (case read_step d c of
     None \<Rightarrow> None
   | Some (go, c') \<Rightarrow> if go then read_loop d c' else Some c')"
  by pat_completeness auto
termination
  by (relation "measure (\<lambda>(d, c). read_measure c)") (auto dest: read_step_decreases)

declare read_loop.simps [simp del]

subsection \<open>The length field\<close>

lemma length_scan_le: "length_scan arr \<le> length arr"
  by (induction arr) auto

lemma length_scan_append:
  "length_scan (xs @ ys) = (if length_scan xs < length xs then length_scan xs else length xs + length_scan ys)"
  by (induction xs) auto

lemma read_varint_loop_scan:
  assumes "length_scan arr < k" "length_scan arr < length arr"
  shows "\<exists>n'. \<forall>ys. read_varint_loop k i (arr @ ys) n = Some (n', Some (i + length_scan arr + 1))"
  using assms
proof (induction k i arr n rule: read_varint_loop.induct)
  case (3 k i b arr n)
  then show ?case by (auto simp: Let_def)
qed simp_all

lemma read_varint_scan:
  assumes "length_scan arr < 5" "length_scan arr < length arr"
  obtains len where "\<And>ys. read_varint (arr @ ys) = Some (len, Some (length_scan arr + 1))"
  using read_varint_loop_scan [OF assms, of 0 0] that by (auto simp: read_varint_def)

lemma mc17_remaining_scan:
  assumes "length_scan arr < 5" "length_scan arr < length arr"
  obtains len where "\<And>ys. mc17_remaining (arr @ ys)
    = Some (sint (len + of_nat (length_scan arr) + 1 - of_nat (length arr + length ys) :: u32))"
proof -
  from read_varint_scan [OF assms] obtain len where
    "\<And>ys. read_varint (arr @ ys) = Some (len, Some (length_scan arr + 1))" by blast
  then have "mc17_remaining (arr @ ys)
    = Some (sint (len + of_nat (length_scan arr) + 1 - of_nat (length arr + length ys) :: u32))" for ys
    using assms by (simp add: mc17_remaining_def Let_def length_scan_append)
  then show thesis by (rule that)
qed

lemma mc17_remaining_total: "\<exists>r. mc17_remaining arr = Some r"
proof (cases "length_scan arr < 5 \<and> length_scan arr < length arr")
  case True
  then obtain len where "mc17_remaining (arr @ [])
    = Some (sint (len + of_nat (length_scan arr) + 1 - of_nat (length arr + length ([] :: byte list)) :: u32))"
    using mc17_remaining_scan [of arr] by blast
  then show ?thesis by simp
qed (auto simp: mc17_remaining_def Let_def)

subsection \<open>The machine the loop implements\<close>

text \<open>
  Bytes are taken one at a time. A packet is assembled until its delimiter asks for no more;
  an invalid length field, or one that announces a packet which does not fit the buffer, stops
  the stream for good. \<open>Overlong\<close> is the length that the room check of the code misses: with
  it, the sum of the bytes got and the bytes missing leaves 32 bits.
\<close>

datatype stream_state = Reading "byte list" | Refused "byte list" | Overlong

definition accept :: "byte list \<Rightarrow> byte list list \<times> stream_state" where
  "accept buf = (case mc17_remaining buf of
     None \<Rightarrow> ([], Overlong)
   | Some r \<Rightarrow>
       if r < 0 then ([], Refused buf)
       else if r = 0 then ([buf], Reading [])
       else if int (length buf) + r \<ge> 2 ^ 31 then ([], Overlong)
       else if int (length buf) + r > int READ_BUFFER_SIZE then ([], Refused buf)
       else ([], Reading buf))"

fun feed :: "byte list \<Rightarrow> stream_state \<Rightarrow> byte list list \<times> stream_state" where
  "feed [] st = ([], st)"
| "feed (b # bs) (Reading buf) =
     (let (js, st) = accept (buf @ [b]); (js', st') = feed bs st in (js @ js', st'))"
| "feed (b # bs) st = ([], st)"

text \<open>A packet that is not complete and fits the buffer.\<close>

definition pending :: "byte list \<Rightarrow> int \<Rightarrow> bool" where
  "pending buf r \<longleftrightarrow> mc17_remaining buf = Some r \<and> 0 < r \<and> int (length buf) + r \<le> int READ_BUFFER_SIZE"

lemma pending_Nil: "pending [] 1"
  by (simp add: pending_def READ_BUFFER_SIZE_def)

lemma sint_minus_small:
  fixes x :: u32 assumes "int k \<le> sint x" "sint x \<le> int READ_BUFFER_SIZE"
  shows "sint (x - of_nat k) = sint x - int k"
proof -
  have "x - of_nat k = word_of_int (sint x - int k)" by simp
  then have "sint (x - of_nat k) = sint (word_of_int (sint x - int k) :: u32)" by (rule arg_cong)
  also have "\<dots> = sint x - int k"
    unfolding sint_sbintrunc' using assms
    by (intro signed_take_bit_int_eq_self) (simp_all add: READ_BUFFER_SIZE_def)
  finally show ?thesis .
qed

lemma remaining_more:
  assumes p: "pending buf r" and l: "int (length ys) \<le> r"
  shows "mc17_remaining (buf @ ys) = Some (r - int (length ys))
    \<or> (length_scan buf = length buf \<and> r = 1)"
proof (cases "length_scan buf < 5 \<and> length_scan buf < length buf")
  case True
  then obtain len where len: "\<And>ys. mc17_remaining (buf @ ys)
    = Some (sint (len + of_nat (length_scan buf) + 1 - of_nat (length buf + length ys) :: u32))"
    using mc17_remaining_scan by blast
  let ?x = "len + of_nat (length_scan buf) + 1 - of_nat (length buf) :: u32"
  have x: "sint ?x = r" using len [of "[]"] p by (simp add: pending_def)
  have "sint (?x - of_nat (length ys)) = sint ?x - int (length ys)"
    by (rule sint_minus_small) (use p l x in \<open>auto simp: pending_def\<close>)
  then show ?thesis using len [of ys] x by (simp add: algebra_simps)
next
  case False
  with p length_scan_le [of buf] show ?thesis
    by (auto simp: pending_def mc17_remaining_def Let_def split: if_splits)
qed

lemma feed_Refused [simp]: "feed xs (Refused b) = ([], Refused b)" "feed xs Overlong = ([], Overlong)"
  by (cases xs; simp)+

lemma feed_append: "feed (xs @ ys) st =
   (let (js, st') = feed xs st; (js', st'') = feed ys st' in (js @ js', st''))"
proof (induction xs arbitrary: st)
  case (Cons b xs)
  show ?case
  proof (cases st)
    case (Reading buf)
    obtain j1 s1 where 1: "accept (buf @ [b]) = (j1, s1)" by fastforce
    obtain j2 s2 where 2: "feed xs s1 = (j2, s2)" by fastforce
    obtain j3 s3 where 3: "feed ys s2 = (j3, s3)" by fastforce
    show ?thesis using Cons.IH [of s1] by (simp add: Reading 1 2 3)
  qed simp_all
qed (simp split: prod.split)

text \<open>Bytes short of the number missing keep the packet pending; the last one decides.\<close>

lemma feed_pending:
  assumes "pending buf r" "int (length ys) \<le> r" "ys \<noteq> []"
  shows "feed ys (Reading buf) = accept (buf @ ys)"
  using assms
proof (induction ys rule: rev_induct)
  case (snoc y ys)
  show ?case
  proof (cases "ys = []")
    case True
    then show ?thesis by (auto simp: Let_def split: prod.splits)
  next
    case False
    with snoc.prems have l: "int (length ys) < r" "1 < r" by (cases ys; auto)+
    then have m: "mc17_remaining (buf @ ys) = Some (r - int (length ys))"
      using remaining_more [OF snoc.prems(1), of ys] by auto
    have "accept (buf @ ys) = ([], Reading (buf @ ys))"
      using snoc.prems(1) l by (simp add: accept_def m pending_def READ_BUFFER_SIZE_def)
    moreover have "feed ys (Reading buf) = accept (buf @ ys)" using snoc.IH snoc.prems(1) l False by simp
    ultimately show ?thesis by (simp add: feed_append Let_def split: prod.splits)
  qed
qed simp

lemma accept_cases:
  obtains (bad) r where "mc17_remaining buf = Some r" "r < 0" "accept buf = ([], Refused buf)"
  | (finished) "mc17_remaining buf = Some 0" "accept buf = ([buf], Reading [])"
  | (overlong) "accept buf = ([], Overlong)"
  | (big) r where "mc17_remaining buf = Some r" "0 < r" "int READ_BUFFER_SIZE < int (length buf) + r"
      "int (length buf) + r < 2 ^ 31" "accept buf = ([], Refused buf)"
  | (more) r where "pending buf r" "accept buf = ([], Reading buf)"
proof -
  obtain r where r: "mc17_remaining buf = Some r" using mc17_remaining_total by blast
  consider "r < 0" | "r = 0" | "0 < r" "int (length buf) + r \<ge> 2 ^ 31"
    | "0 < r" "int (length buf) + r < 2 ^ 31" "int (length buf) + r > int READ_BUFFER_SIZE"
    | "0 < r" "int (length buf) + r \<le> int READ_BUFFER_SIZE" by linarith
  then show thesis
  proof cases
    case 5
    then show ?thesis using r more [of r] by (simp add: accept_def pending_def READ_BUFFER_SIZE_def)
  qed (use r bad finished overlong big in \<open>auto simp: accept_def\<close>)
qed

text \<open>The room check agrees with the numbers it stands for when their sum fits 31 bits.\<close>

lemma room_sum:
  assumes "0 \<le> r" "int got + r < 2 ^ 31"
  shows "sint (of_nat got + word_of_int r :: u32) = int got + r"
proof -
  have "of_nat got + word_of_int r = (word_of_int (int got + r) :: u32)" by simp
  then show ?thesis using assms
    by (simp only: sint_sbintrunc') (simp add: signed_take_bit_int_eq_self)
qed

lemma read_step_cases:
  "mc17_remaining (rs_rbuf c) = Some r \<Longrightarrow> r < 0 \<Longrightarrow> read_step d c = Some (False, c\<lparr>rs_disconnect_req := True\<rparr>)"
  "mc17_remaining (rs_rbuf c) = Some 0 \<Longrightarrow>
     read_step d c = Some (rs_ftb c \<noteq> [], c\<lparr>rs_jobs := rs_jobs c @ [rs_rbuf c], rs_rbuf := []\<rparr>)"
  "mc17_remaining (rs_rbuf c) = Some r \<Longrightarrow> 0 < r \<Longrightarrow> int READ_BUFFER_SIZE < int (length (rs_rbuf c)) + r \<Longrightarrow>
     int (length (rs_rbuf c)) + r < 2 ^ 31 \<Longrightarrow> read_step d c = Some (False, c\<lparr>rs_disconnect_req := True\<rparr>)"
  by (simp_all add: read_step_def Let_def room_sum)

lemma read_step_pending:
  assumes "pending (rs_rbuf c) r"
  shows "read_step d c = Some (rs_ftb c \<noteq> [],
    c\<lparr>rs_rbuf := rs_rbuf c @ take (nat r) (rs_ftb c), rs_ftb := drop (nat r) (rs_ftb c)\<rparr>)"
proof -
  have r: "mc17_remaining (rs_rbuf c) = Some r" "0 < r" "int (length (rs_rbuf c)) + r \<le> int READ_BUFFER_SIZE"
    using assms by (simp_all add: pending_def)
  have s: "sint (of_nat (length (rs_rbuf c)) + word_of_int r :: u32) = int (length (rs_rbuf c)) + r"
    by (rule room_sum) (use r in \<open>simp_all add: READ_BUFFER_SIZE_def\<close>)
  have n: "\<not> READ_BUFFER_SIZE < length (rs_rbuf c) + min (nat r) (length (rs_ftb c))" using r by auto
  have t: "take (min (nat r) (length (rs_ftb c))) (rs_ftb c) = take (nat r) (rs_ftb c)"
    "drop (min (nat r) (length (rs_ftb c))) (rs_ftb c) = drop (nat r) (rs_ftb c)"
    by (auto simp: min_def)
  show ?thesis using r n s by (simp add: read_step_def Let_def t)
qed

text \<open>What the loop leaves behind in a state of the machine.\<close>

definition refused :: "byte list \<Rightarrow> bool" where
  "refused buf \<longleftrightarrow> accept buf = ([], Refused buf)"

definition leaves :: "'z read_state_scheme \<Rightarrow> byte list list \<Rightarrow> stream_state \<Rightarrow> 'z read_state_scheme \<Rightarrow> bool" where
  "leaves c js st c' = (case st of
     Reading b \<Rightarrow> c' = c\<lparr>rs_rbuf := b, rs_ftb := [], rs_jobs := rs_jobs c @ js\<rparr> \<and> (\<exists>r. pending b r)
   | Refused b \<Rightarrow> (\<exists>rest. c' = c\<lparr>rs_rbuf := b, rs_ftb := rest, rs_jobs := rs_jobs c @ js,
       rs_disconnect_req := True\<rparr>) \<and> refused b
   | Overlong \<Rightarrow> False)"

lemma read_loop_refused:
  assumes "refused (rs_rbuf c)" shows "read_loop d c = Some (c\<lparr>rs_disconnect_req := True\<rparr>)"
proof -
  have "read_step d c = Some (False, c\<lparr>rs_disconnect_req := True\<rparr>)"
    using assms unfolding refused_def
    by (cases "rs_rbuf c" rule: accept_cases) (simp_all add: read_step_cases)
  then show ?thesis by (subst read_loop.simps) simp
qed

lemma read_loop_feed:
  assumes "pending (rs_rbuf c) r" "feed (rs_ftb c) (Reading (rs_rbuf c)) = (js, st)" "st \<noteq> Overlong"
  shows "\<exists>c'. read_loop d c = Some c' \<and> leaves c js st c'"
  using assms
proof (induction "length (rs_ftb c)" arbitrary: c r js rule: less_induct)
  case less
  let ?b = "rs_rbuf c" and ?xs = "rs_ftb c"
  show ?case
  proof (cases "?xs = []")
    case True
    then have "read_loop d c = Some (c\<lparr>rs_rbuf := ?b, rs_ftb := []\<rparr>)"
      by (subst read_loop.simps) (simp add: read_step_pending [OF less.prems(1)])
    then show ?thesis using less.prems True by (auto simp: leaves_def)
  next
    case False
    let ?t = "take (nat r) ?xs" and ?rest = "drop (nat r) ?xs"
    let ?c1 = "c\<lparr>rs_rbuf := ?b @ ?t, rs_ftb := ?rest\<rparr>"
    have l1: "read_loop d c = read_loop d ?c1"
      by (subst read_loop.simps) (simp add: read_step_pending [OF less.prems(1)] False)
    have r0: "0 < r" using less.prems(1) by (simp add: pending_def)
    then have shorter: "length ?rest < length ?xs" using False by simp
    have ft: "feed ?t (Reading ?b) = accept (?b @ ?t)"
      by (rule feed_pending [OF less.prems(1)]) (use r0 False in \<open>auto simp: min_def\<close>)
    have split: "feed ?xs (Reading ?b) =
        (let (js, st') = accept (?b @ ?t); (js', st'') = feed ?rest st' in (js @ js', st''))"
      using feed_append [of ?t ?rest "Reading ?b"] ft by simp
    show ?thesis
    proof (cases "?b @ ?t" rule: accept_cases)
      case (more r')
      then have "feed (rs_ftb ?c1) (Reading (rs_rbuf ?c1)) = (js, st)"
        using less.prems(2) split by (simp split: prod.splits)
      with less.hyps [of ?c1 r' js] more(1) shorter less.prems(3)
      obtain c' where "read_loop d ?c1 = Some c'" "leaves ?c1 js st c'" by auto
      then show ?thesis using l1 by (auto simp: leaves_def split: stream_state.splits)
    next
      case finished
      let ?c2 = "?c1\<lparr>rs_jobs := rs_jobs c @ [?b @ ?t], rs_rbuf := []\<rparr>"
      have l2: "read_loop d ?c1 = (if ?rest = [] then Some ?c2 else read_loop d ?c2)"
        by (subst read_loop.simps) (simp add: read_step_cases(2) finished(1))
      obtain js' where js': "feed ?rest (Reading []) = (js', st)" "js = [?b @ ?t] @ js'"
        using less.prems(2) split finished(2) by (auto simp: Let_def split: prod.splits)
      show ?thesis
      proof (cases "?rest = []")
        case True
        then show ?thesis using js' l1 l2 pending_Nil by (auto simp: leaves_def)
      next
        case nonempty: False
        from less.hyps [of ?c2 1 js'] pending_Nil shorter js'(1) less.prems(3)
        obtain c' where "read_loop d ?c2 = Some c'" "leaves ?c2 js' st c'" by auto
        then show ?thesis using l1 l2 nonempty js'(2) by (auto simp: leaves_def split: stream_state.splits)
      qed
    next
      case overlong
      then show ?thesis using less.prems(2,3) split by (auto simp: Let_def split: prod.splits)
    next
      case (bad r')
      then have "refused (rs_rbuf ?c1)" "js = []" "st = Refused (?b @ ?t)"
        using less.prems(2) split by (auto simp: refused_def)
      then show ?thesis using l1 read_loop_refused [of ?c1 d] by (auto simp: leaves_def refused_def)
    next
      case (big r')
      then have "refused (rs_rbuf ?c1)" "js = []" "st = Refused (?b @ ?t)"
        using less.prems(2) split by (auto simp: refused_def)
      then show ?thesis using l1 read_loop_refused [of ?c1 d] by (auto simp: leaves_def refused_def)
    qed
  qed
qed

subsection \<open>Frames\<close>

text \<open>A body behind its length: what a finished packet holds.\<close>

definition frame :: "byte list \<Rightarrow> byte list" where
  "frame body = write_varint (of_nat (length body)) @ body"

definition fits_buffer :: "byte list \<Rightarrow> bool" where
  "fits_buffer body \<longleftrightarrow> length (frame body) \<le> READ_BUFFER_SIZE"

lemma length_scan_got: "read_varint_loop k i arr n = Some (v, Some l) \<Longrightarrow>
   l = i + length_scan arr + 1 \<and> length_scan arr < length arr \<and> length_scan arr < k"
  by (induction k i arr n rule: read_varint_loop.induct) (auto simp: Let_def split: if_splits)

lemma length_scan_written: "length_scan (write_varint v) = length (write_varint v) - 1"
  "length_scan (write_varint v) < 5" "length_scan (write_varint v) < length (write_varint v)"
  using length_scan_got [of 5 0 "write_varint v" 0 v "length (write_varint v)"]
    read_write_varint [of v "[]"] by (simp_all add: read_varint_def)

lemma length_scan_prefix:
  assumes "length_scan arr = length arr - 1" "k < length arr"
  shows "length_scan (take k arr) = k"
proof -
  have "length_scan (take k arr @ drop k arr) = (if length_scan (take k arr) < k then length_scan (take k arr)
    else k + length_scan (drop k arr))"
    using assms(2) by (simp only: length_scan_append length_take min.absorb4 less_imp_le)
  then show ?thesis using assms length_scan_le [of "take k arr"] by (simp split: if_splits)
qed

lemma frame_header:
  "mc17_remaining (write_varint v @ xs) = Some (sint (v - of_nat (length xs)))"
proof -
  obtain m where m: "length (write_varint v) = Suc m" using length_write_varint [of v] by (cases "length (write_varint v)") auto
  then have h: "length_scan (write_varint v @ xs) = m" "m < 5" using length_scan_written [of v]
    by (simp_all add: length_scan_append)
  have "v + of_nat m + 1 - of_nat (length (write_varint v @ xs)) = v - of_nat (length xs)" by (simp add: m)
  then show ?thesis unfolding mc17_remaining_def Let_def h(1) using h(2) by (simp only: read_write_varint) (simp add: m)
qed

text \<open>Every proper prefix of a frame is pending, and the frame is complete.\<close>

lemma frame_prefix:
  assumes "fits_buffer body" "k < length (frame body)"
  shows "\<exists>r. pending (take k (frame body)) r"
proof (cases "k < length (write_varint (of_nat (length body)))")
  case True
  let ?h = "write_varint (of_nat (length body))"
  have h: "length_scan (take k ?h) = k" "k < 5"
    using length_scan_prefix [OF length_scan_written(1) True] True length_write_varint [of "of_nat (length body)"]
    by auto
  have "take k (frame body) = take k ?h" using True by (simp add: frame_def)
  moreover have "pending (take k ?h) 1"
    using h True by (simp add: pending_def mc17_remaining_def Let_def READ_BUFFER_SIZE_def)
  ultimately show ?thesis by auto
next
  case False
  let ?h = "write_varint (of_nat (length body))" and ?j = "k - length (write_varint (of_nat (length body)))"
  have j: "?j < length body" using assms(2) False by (simp add: frame_def)
  have l: "length ?h + length body \<le> 512" using assms(1) by (simp add: fits_buffer_def frame_def READ_BUFFER_SIZE_def)
  have t: "take k (frame body) = ?h @ take ?j body" using False by (simp add: frame_def)
  have "of_nat (length body) - of_nat ?j = (of_nat (length body - ?j) :: u32)" using j by (simp add: of_nat_diff)
  then have "sint (of_nat (length body) - of_nat ?j :: u32) = int (length body - ?j)"
    using j l room_sum [of 0 "length body - ?j"] room_sum [of "int (length body - ?j)" 0] by simp
  then have "mc17_remaining (?h @ take ?j body) = Some (int (length body - ?j))"
    using frame_header [of "of_nat (length body)" "take ?j body"] j by simp
  then have "pending (?h @ take ?j body) (int (length body - ?j))"
    using j l by (simp add: pending_def READ_BUFFER_SIZE_def)
  with t show ?thesis by auto
qed

lemma accept_frame: "fits_buffer body \<Longrightarrow> accept (frame body) = ([frame body], Reading [])"
  using frame_header [of "of_nat (length body)" body] by (simp add: accept_def frame_def fits_buffer_def READ_BUFFER_SIZE_def)

lemma feed_prefix:
  assumes "fits_buffer body" "k < length (frame body)"
  shows "feed (take k (frame body)) (Reading []) = ([], Reading (take k (frame body)))"
  using assms(2)
proof (induction k)
  case (Suc k)
  then have k: "take (Suc k) (frame body) = take k (frame body) @ [frame body ! k]"
    by (simp add: take_Suc_conv_app_nth)
  from frame_prefix [OF assms(1) Suc.prems] obtain r where "pending (take (Suc k) (frame body)) r" ..
  then have "accept (take (Suc k) (frame body)) = ([], Reading (take (Suc k) (frame body)))"
    by (simp add: accept_def pending_def READ_BUFFER_SIZE_def)
  then show ?case using Suc by (simp add: k feed_append)
qed simp

lemma feed_frame:
  assumes "fits_buffer body" shows "feed (frame body) (Reading []) = ([frame body], Reading [])"
proof -
  have "frame body \<noteq> []" using length_write_varint [of "of_nat (length body)"] by (auto simp: frame_def)
  then obtain f b where f: "frame body = f @ [b]" using rev_exhaust by blast
  then have "feed f (Reading []) = ([], Reading f)"
    using feed_prefix [OF assms, of "length f"] by simp
  then show ?thesis using accept_frame [OF assms] by (simp add: f feed_append)
qed

lemma feed_frames:
  "list_all fits_buffer bodies \<Longrightarrow> feed (concat (map frame bodies)) (Reading []) = (map frame bodies, Reading [])"
  by (induction bodies) (simp_all add: feed_append feed_frame)

end
