(* ===== verification/Builder.thy ===== *)
theory Builder
  imports Metadata Chunk Json Uuid Framing
begin

text \<open>
  The packet builder of protocol version 47: \<open>src/network/builders/mc18.cpp\<close>. Every packet is a
  body behind its length; the body starts with its opcode. Text of JSON messages is written by
  the JSON writer; numbers do not occur in it. The save format of RSA keys, and the conversion
  of an angle to a byte (floating-point arithmetic), are arguments.
\<close>

text \<open>\<open>_put_len\<close>: the length goes into the reserved bytes in front of the body.\<close>

definition put_len :: "packet \<Rightarrow> packet option" where
  "put_len pack =
     (let a = write_varint (of_nat (pk_len pack)); vl = length a
      in do { pack \<leftarrow> pk_use_reserved vl pack; pk_put_bytes a pack })"

subsection \<open>Status\<close>

definition make_status_response :: "byte list \<Rightarrow> packet option" where
  "make_status_response str = do {
     pack \<leftarrow> pk_put_varint 0x00 packet_new;
     pack \<leftarrow> pk_put_string (c_str str) pack;
     put_len pack }"

definition make_status_ping :: "u64 \<Rightarrow> packet option" where
  "make_status_ping time = do {
     pack \<leftarrow> pk_put_varint 0x01 packet_new;
     pack \<leftarrow> pk_put_long time pack;
     put_len pack }"

subsection \<open>Login\<close>

text \<open>\<open>saved\<close> is the key's saved form, of which at most 384 bytes are taken.\<close>

definition make_encryption_request :: "byte list \<Rightarrow> byte list \<Rightarrow> byte list \<Rightarrow> packet option" where
  "make_encryption_request sid saved vtoken =
     (let buf = take 384 saved; keylen = length buf in
      if length vtoken < 4 then None else do {
     pack \<leftarrow> pk_put_varint 0x01 packet_new;
     pack \<leftarrow> pk_put_string (c_str sid) pack;
     pack \<leftarrow> pk_put_varint (of_nat keylen) pack;
     pack \<leftarrow> pk_put_bytes buf pack;
     pack \<leftarrow> pk_put_varint 4 pack;
     pack \<leftarrow> pk_put_bytes (take 4 vtoken) pack;
     put_len pack })"

definition make_login_success :: "byte list \<Rightarrow> byte list \<Rightarrow> packet option" where
  "make_login_success uuid' username = do {
     pack \<leftarrow> pk_put_varint 0x02 packet_new;
     pack \<leftarrow> pk_put_string (c_str uuid') pack;
     pack \<leftarrow> pk_put_string (c_str username) pack;
     put_len pack }"

text \<open>The message objects: \<open>text\<close> and \<open>color\<close>; and \<open>text\<close> alone.\<close>

definition k_text :: "byte list" where "k_text = [0x74, 0x65, 0x78, 0x74]"
definition k_color :: "byte list" where "k_color = [0x63, 0x6F, 0x6C, 0x6F, 0x72]"
definition k_red :: "byte list" where "k_red = [0x72, 0x65, 0x64]"

definition red_message :: "byte list \<Rightarrow> byte list" where
  "red_message msg =
     (let js = json_set k_text (J_String msg) []; js = json_set k_color (J_String k_red) js
      in json_writer_write (\<lambda>_. []) json_packed js)"

definition plain_message :: "byte list \<Rightarrow> byte list" where
  "plain_message msg = json_writer_write (\<lambda>_. []) json_packed (json_set k_text (J_String msg) [])"

definition make_login_disconnect :: "byte list \<Rightarrow> packet option" where
  "make_login_disconnect msg = do {
     pack \<leftarrow> pk_put_varint 0x00 packet_new;
     pack \<leftarrow> pk_put_string (c_str (red_message msg)) pack;
     put_len pack }"

subsection \<open>Play\<close>

definition make_keep_alive :: "u32 \<Rightarrow> packet option" where
  "make_keep_alive id' = do {
     pack \<leftarrow> pk_put_varint 0x00 packet_new;
     pack \<leftarrow> pk_put_varint id' pack;
     put_len pack }"

definition make_join_game ::
  "u32 \<Rightarrow> byte \<Rightarrow> byte \<Rightarrow> byte \<Rightarrow> byte \<Rightarrow> byte list \<Rightarrow> bool \<Rightarrow> packet option" where
  "make_join_game eid gm dim' diff maxp level_type reduced_debug = do {
     pack \<leftarrow> pk_put_varint 0x01 packet_new;
     pack \<leftarrow> pk_put_int eid pack;
     pack \<leftarrow> pk_put_byte gm pack;
     pack \<leftarrow> pk_put_byte dim' pack;
     pack \<leftarrow> pk_put_byte diff pack;
     pack \<leftarrow> pk_put_byte maxp pack;
     pack \<leftarrow> pk_put_string (c_str level_type) pack;
     pack \<leftarrow> pk_put_byte (if reduced_debug then 1 else 0) pack;
     put_len pack }"

definition make_chat_message :: "byte list \<Rightarrow> byte \<Rightarrow> packet option" where
  "make_chat_message js pos = do {
     pack \<leftarrow> pk_put_varint 0x02 packet_new;
     pack \<leftarrow> pk_put_string (c_str js) pack;
     pack \<leftarrow> pk_put_byte pos pack;
     put_len pack }"

definition make_chat_text :: "byte list \<Rightarrow> packet option" where
  "make_chat_text msg = make_chat_message (plain_message msg) 0"

text \<open>The products of the masks with \<open>long long\<close> are 64-bit; the last is an \<open>int\<close>.\<close>

definition pack_position :: "u32 \<Rightarrow> u32 \<Rightarrow> u32 \<Rightarrow> u64" where
  "pack_position x y z =
     push_bit 38 (ucast (x AND 0x3FFFFFF)) OR push_bit 26 (ucast (y AND 0xFFF)) OR ucast (z AND 0x3FFFFFF)"

definition make_spawn_position :: "u32 \<Rightarrow> u32 \<Rightarrow> u32 \<Rightarrow> packet option" where
  "make_spawn_position x y z = do {
     pack \<leftarrow> pk_put_varint 0x05 packet_new;
     pack \<leftarrow> pk_put_long (pack_position x y z) pack;
     put_len pack }"

definition make_player_position_and_look ::
  "u64 \<Rightarrow> u64 \<Rightarrow> u64 \<Rightarrow> u32 \<Rightarrow> u32 \<Rightarrow> byte \<Rightarrow> packet option" where
  "make_player_position_and_look x y z yaw pitch flags = do {
     pack \<leftarrow> pk_put_varint 0x08 packet_new;
     pack \<leftarrow> pk_put_double x pack;
     pack \<leftarrow> pk_put_double y pack;
     pack \<leftarrow> pk_put_double z pack;
     pack \<leftarrow> pk_put_float yaw pack;
     pack \<leftarrow> pk_put_float pitch pack;
     pack \<leftarrow> pk_put_byte flags pack;
     put_len pack }"

text \<open>
  The sub-chunks of a mask. The host stores the words of \<open>types\<close> low byte first; a null
  sub-chunk is dereferenced, which is undefined.
\<close>

definition masked :: "u16 \<Rightarrow> nat list" where
  "masked mask' = filter (\<lambda>i. mask' AND push_bit i 1 \<noteq> 0) [0..<16]"

definition chunk_data_size :: "bool \<Rightarrow> u16 \<Rightarrow> nat" where
  "chunk_data_size cont mask' = (if cont then 256 else 0) + 12288 * length (masked mask')"

definition sub_types_bytes :: "sub_chunk \<Rightarrow> byte list" where
  "sub_types_bytes s = concat (map write_short_le (sc_types s))"

fun put_subs :: "(sub_chunk \<Rightarrow> byte list) \<Rightarrow> nat list \<Rightarrow> chunk \<Rightarrow> packet \<Rightarrow> packet option" where
  "put_subs f [] ch = Some"
| "put_subs f (i # is) ch = (\<lambda>pack. case ch_subs ch ! i of
     None \<Rightarrow> None
   | Some s \<Rightarrow> Option.bind (pk_put_bytes (f s) pack) (put_subs f is ch))"

definition make_chunk_data :: "u32 \<Rightarrow> u32 \<Rightarrow> bool \<Rightarrow> u16 \<Rightarrow> chunk \<Rightarrow> packet option" where
  "make_chunk_data cx cz cont mask' ch = do {
     pack \<leftarrow> pk_put_varint 0x21 packet_new;
     pack \<leftarrow> pk_put_int cx pack;
     pack \<leftarrow> pk_put_int cz pack;
     pack \<leftarrow> pk_put_bool cont pack;
     pack \<leftarrow> pk_put_short mask' pack;
     pack \<leftarrow> pk_put_varint (of_nat (chunk_data_size cont mask')) pack;
     pack \<leftarrow> put_subs sub_types_bytes (masked mask') ch pack;
     pack \<leftarrow> put_subs sc_bl (masked mask') ch pack;
     pack \<leftarrow> put_subs sc_sl (masked mask') ch pack;
     pack \<leftarrow> (if cont then pk_put_bytes (ch_biomes ch) pack else Some pack);
     put_len pack }"

definition make_unload_chunk :: "u32 \<Rightarrow> u32 \<Rightarrow> packet option" where
  "make_unload_chunk cx cz = do {
     pack \<leftarrow> pk_put_varint 0x21 packet_new;
     pack \<leftarrow> pk_put_int cx pack;
     pack \<leftarrow> pk_put_int cz pack;
     pack \<leftarrow> pk_put_bool True pack;
     pack \<leftarrow> pk_put_short 0 pack;
     pack \<leftarrow> pk_put_varint 0 pack;
     put_len pack }"

definition make_disconnect :: "byte list \<Rightarrow> packet option" where
  "make_disconnect msg = do {
     pack \<leftarrow> pk_put_varint 0x40 packet_new;
     pack \<leftarrow> pk_put_string (c_str (red_message msg)) pack;
     put_len pack }"

definition make_set_compression :: "u32 \<Rightarrow> packet option" where
  "make_set_compression threshold = do {
     pack \<leftarrow> pk_put_varint 0x46 packet_new;
     pack \<leftarrow> pk_put_varint threshold pack;
     put_len pack }"

fun put_uuid :: "byte list \<Rightarrow> packet \<Rightarrow> packet option" where
  "put_uuid [] = Some"
| "put_uuid (b # bs) = (\<lambda>pack. Option.bind (pk_put_byte b pack) (put_uuid bs))"

datatype game_mode = GM_SURVIVAL | GM_CREATIVE

definition make_player_list_add :: "uuid \<Rightarrow> byte list \<Rightarrow> game_mode \<Rightarrow> u32 \<Rightarrow> packet option" where
  "make_player_list_add uuid' name gm ping = do {
     pack \<leftarrow> pk_put_varint 0x38 packet_new;
     pack \<leftarrow> pk_put_varint 0 pack;
     pack \<leftarrow> pk_put_varint 1 pack;
     pack \<leftarrow> put_uuid uuid' pack;
     pack \<leftarrow> pk_put_string (c_str name) pack;
     pack \<leftarrow> pk_put_varint 0 pack;
     pack \<leftarrow> pk_put_varint (if gm = GM_CREATIVE then 1 else 0) pack;
     pack \<leftarrow> pk_put_varint ping pack;
     pack \<leftarrow> pk_put_bool False pack;
     put_len pack }"

definition make_player_list_remove :: "uuid \<Rightarrow> byte list \<Rightarrow> packet option" where
  "make_player_list_remove uuid' name = do {
     pack \<leftarrow> pk_put_varint 0x38 packet_new;
     pack \<leftarrow> pk_put_varint 4 pack;
     pack \<leftarrow> pk_put_varint 1 pack;
     pack \<leftarrow> put_uuid uuid' pack;
     put_len pack }"

text \<open>The coordinates are sent as fixed-point numbers, \<open>(int)(x * 32.0)\<close>.\<close>

definition make_spawn_player ::
  "(u32 \<Rightarrow> byte) \<Rightarrow> u32 \<Rightarrow> uuid \<Rightarrow> u64 \<Rightarrow> u64 \<Rightarrow> u64 \<Rightarrow> u32 \<Rightarrow> u32 \<Rightarrow> u16 \<Rightarrow> entity_metadata \<Rightarrow> packet option" where
  "make_spawn_player to_angle eid uuid' x y z yaw pitch curr_item meta = do {
     pack \<leftarrow> pk_put_varint 0x0C packet_new;
     pack \<leftarrow> pk_put_varint eid pack;
     pack \<leftarrow> put_uuid uuid' pack;
     xi \<leftarrow> double_trunc 5 x;
     pack \<leftarrow> pk_put_int xi pack;
     yi \<leftarrow> double_trunc 5 y;
     pack \<leftarrow> pk_put_int yi pack;
     zi \<leftarrow> double_trunc 5 z;
     pack \<leftarrow> pk_put_int zi pack;
     pack \<leftarrow> pk_put_byte (to_angle yaw) pack;
     pack \<leftarrow> pk_put_byte (to_angle pitch) pack;
     pack \<leftarrow> pk_put_short curr_item pack;
     pack \<leftarrow> meta_encode meta pack;
     put_len pack }"

subsection \<open>Framing\<close>

lemma frame_cells:
  assumes "r + length a = 5" "5 \<le> length b" "take n (drop 5 b) = map Some xs"
  shows "map the (take (n + length a) (drop r (blit b r (map Some a)))) = a @ xs"
proof -
  have "r \<le> length b" using assms(1,2) by simp
  then have "drop r (blit b r (map Some a)) = map Some a @ drop 5 b"
    using assms(1) by (simp add: blit_def)
  then have "take (n + length a) (drop r (blit b r (map Some a))) = map Some (a @ xs)"
    using assms(3) by simp
  then show ?thesis by (simp add: comp_def)
qed

lemma put_len_frames:
  assumes "pk.at_end p" "pk_len p \<le> pk_limit - 5" "pk_rbeg p = 5" "16 \<le> pk_cap p"
  shows "\<exists>p'. put_len p = Some p' \<and> pk_contents p' = frame (pk_contents p)"
proof -
  from at_end_len [OF assms(1)] have ok: "pk_ok p" and len: "pk_len p = length (pk_contents p)" by simp_all
  let ?a = "write_varint (of_nat (pk_len p))" and ?b = "pk_block p"
  let ?vl = "length ?a" and ?r = "5 - length (write_varint (of_nat (pk_len p)))"
  have vl: "1 \<le> ?vl" "?vl \<le> 5" using length_write_varint by auto
  from ok assms(2,3) have l: "length ?b = 5 + pk_cap p" "pk_len p \<le> pk_cap p" "pk_len p + 5 < 2 ^ 32"
    by (auto simp: pk_ok_def pk_limit_def)
  let ?q = "p\<lparr>pk_len := pk_len p + ?vl, pk_pos := 0, pk_rbeg := ?r\<rparr>"
  let ?b' = "blit ?b ?r (map Some ?a)"
  have u1: "pk_use_reserved ?vl p = Some ?q"
    using vl assms(3) l(3) by (simp add: pk_use_reserved_def cpp_arith)
  have u2: "pk_put_bytes ?a ?q = Some (?q\<lparr>pk_block := ?b', pk_pos := ?vl\<rparr>)"
    using vl assms(4) l by (simp add: pk_put_bytes_def pk_put_def pk_room_def pk_store_def Let_def cpp_arith)
  have u3: "pk_contents (?q\<lparr>pk_block := ?b', pk_pos := ?vl\<rparr>) = frame (pk_contents p)"
  proof -
    have "take (pk_len p) (drop 5 ?b) = map Some (pk_contents p)"
      using pk_cells [OF ok] assms(3) by simp
    moreover have "?r + ?vl = 5" "5 \<le> length ?b" using vl l(1) by simp_all
    ultimately have "map the (take (pk_len p + ?vl) (drop ?r ?b')) = ?a @ pk_contents p"
      by (intro frame_cells)
    then show ?thesis unfolding pk_contents_def [of "?q\<lparr>pk_block := ?b', pk_pos := ?vl\<rparr>"]
      by (simp add: frame_def len)
  qed
  have "put_len p = Some (?q\<lparr>pk_block := ?b', pk_pos := ?vl\<rparr>)"
    unfolding put_len_def Let_def u1 bind.bind_lunit by (rule u2)
  with u3 show ?thesis by (intro exI conjI)
qed

text \<open>
  \<open>closes g bs n\<close>: run on an open packet with room for \<open>n\<close> more bytes, \<open>g\<close> appends \<open>bs\<close> and
  closes the packet, which then holds the frame of the whole body.
\<close>

definition closes :: "(packet \<Rightarrow> packet option) \<Rightarrow> byte list \<Rightarrow> nat \<Rightarrow> bool" where
  "closes g bs n \<longleftrightarrow> (\<forall>p. pk.at_end p \<longrightarrow> pk_rbeg p = 5 \<longrightarrow> 16 \<le> pk_cap p \<longrightarrow>
     pk_len p + n \<le> pk_limit - 5 \<longrightarrow>
     (\<exists>p'. g p = Some p' \<and> pk_contents p' = frame (pk_contents p @ bs)))"

lemma closes_put_len: "closes put_len [] 0"
  using put_len_frames by (simp add: closes_def)

lemma closes_bind:
  assumes "emits f a m" "closes g b n"
  shows "closes (\<lambda>p. Option.bind (f p) g) (a @ b) (m + n)"
  unfolding closes_def
proof (intro allI impI)
  fix p assume p: "pk.at_end p" "pk_rbeg p = 5" "16 \<le> pk_cap p" "pk_len p + (m + n) \<le> pk_limit - 5"
  then have "pk_len p + m \<le> pk_limit" by (simp add: pk_limit_def)
  with assms(1) p(1) obtain q where q: "f p = Some q" "pk.at_end q" "pk_contents q = pk_contents p @ a"
    "pk_cap p \<le> pk_cap q" "pk_rbeg q = pk_rbeg p" "pk_len q = pk_len p + length a" by (rule emitsD)
  have l: "pk_len q + n \<le> pk_limit - 5" using p(4) q(6) emits_length [OF assms(1)] by simp
  have "pk_rbeg q = 5" "16 \<le> pk_cap q" using p(2,3) q(4,5) by simp_all
  then obtain p' where "g q = Some p'" "pk_contents p' = frame (pk_contents q @ b)"
    using assms(2) q(2) l unfolding closes_def by blast
  then show "\<exists>p'. Option.bind (f p) g = Some p' \<and> pk_contents p' = frame (pk_contents p @ a @ b)"
    using q(1,3) by simp
qed

lemmas close_intros = closes_bind closes_put_len

text \<open>The packet a builder makes: opcode first, then what the rest of it appends.\<close>

definition frames :: "packet option \<Rightarrow> byte list \<Rightarrow> bool" where
  "frames r body \<longleftrightarrow> (\<exists>p. r = Some p \<and> pk_contents p = frame body)"

lemma frames_opcode:
  assumes "closes g bs n" "n \<le> pk_limit - 10" "body = write_varint op @ bs"
  shows "frames (Option.bind (pk_put_varint op packet_new) g) body"
proof -
  have "closes (\<lambda>p. Option.bind (pk_put_varint op p) g) (write_varint op @ bs) (5 + n)"
    by (rule closes_bind [OF emits_varint(1) assms(1)])
  moreover have "pk_len packet_new + (5 + n) \<le> pk_limit - 5" "pk_rbeg packet_new = 5"
    "16 \<le> pk_cap packet_new" "pk_contents packet_new = []"
    using assms(2) by (simp_all add: packet_new_def pk_limit_def) (simp_all add: packet_init_def)
  ultimately show ?thesis using at_end_new assms(3) unfolding closes_def frames_def by fastforce
qed

lemma emits_uuid [emit_intros]: "emits (put_uuid bs) bs (length bs)"
proof (induction bs)
  case Nil
  show ?case by (simp add: emits_id)
next
  case (Cons b bs)
  show ?case unfolding put_uuid.simps
    by (rule emitsI [OF emits_bind [OF emits_fixed(2) Cons.IH]]) simp_all
qed

lemma emits_subs:
  "\<forall>i \<in> set is. ch_subs ch ! i \<noteq> None \<Longrightarrow>
   emits (put_subs f is ch) (concat (map (\<lambda>i. f (the (ch_subs ch ! i))) is))
     (length (concat (map (\<lambda>i. f (the (ch_subs ch ! i))) is)))"
proof (induction "is")
  case Nil
  show ?case by (simp add: emits_id)
next
  case (Cons i "is")
  then obtain s where s: "ch_subs ch ! i = Some s" by auto
  show ?case unfolding put_subs.simps s option.case
    by (rule emitsI [OF emits_bind [OF emits_bytes Cons.IH]]) (use Cons.prems s in simp_all)
qed

lemmas fixed_packet_defs = make_status_ping_def make_keep_alive_def make_spawn_position_def
  make_player_position_and_look_def make_unload_chunk_def make_set_compression_def

text \<open>
  Every packet of fixed shape is built without leaving its memory, and is the length of its
  body as a varint followed by the body: the opcode and the fields of the protocol, in order.
\<close>

theorem fixed_packets_framed:
  "frames (make_status_ping t) (write_varint 0x01 @ write_long_be t)
   \<and> frames (make_keep_alive i) (write_varint 0x00 @ write_varint i)
   \<and> frames (make_spawn_position x y z) (write_varint 0x05 @ write_long_be (pack_position x y z))
   \<and> frames (make_player_position_and_look dx dy dz yaw pitch flags)
     (write_varint 0x08 @ write_double_be dx @ write_double_be dy @ write_double_be dz @
      write_float_be yaw @ write_float_be pitch @ [flags])
   \<and> frames (make_unload_chunk cx cz)
     (write_varint 0x21 @ write_int_be cx @ write_int_be cz @ write_bool True @ write_short_be 0 @ write_varint 0)
   \<and> frames (make_set_compression n) (write_varint 0x46 @ write_varint n)"
  unfolding fixed_packet_defs
  by (intro conjI; rule frames_opcode, (rule close_intros emit_intros)+; simp add: pk_limit_def)

lemmas text_packet_defs = make_status_response_def make_login_success_def make_join_game_def
  make_chat_message_def make_player_list_add_def make_player_list_remove_def

text \<open>
  C19: a packet that carries text is built without leaving its memory for every text shorter than
  64 MiB, and is the length of its body followed by the body; the text is cut at its first zero
  byte, with the length of what is left in front.
\<close>

theorem text_packets_framed:
  assumes "length s < 2 ^ 25" "length t < 2 ^ 25" "length u = 16"
  shows "frames (make_status_response s) (write_varint 0x00 @ write_mc_string (c_str s))
    \<and> frames (make_login_success s t) (write_varint 0x02 @ write_mc_string (c_str s) @ write_mc_string (c_str t))
    \<and> frames (make_join_game e gm d df m s rd)
      (write_varint 0x01 @ write_int_be e @ [gm] @ [d] @ [df] @ [m] @ write_mc_string (c_str s) @
       [if rd then 1 else 0])
    \<and> frames (make_chat_message s pos) (write_varint 0x02 @ write_mc_string (c_str s) @ [pos])
    \<and> frames (make_player_list_add u s gmode ping)
      (write_varint 0x38 @ write_varint 0 @ write_varint 1 @ u @ write_mc_string (c_str s) @
       write_varint 0 @ write_varint (if gmode = GM_CREATIVE then 1 else 0) @ write_varint ping @ write_bool False)
    \<and> frames (make_player_list_remove u s) (write_varint 0x38 @ write_varint 4 @ write_varint 1 @ u)"
proof -
  have l: "length (c_str s) < 2 ^ 25" "length (c_str t) < 2 ^ 25"
    using assms length_c_str_le [of s] length_c_str_le [of t] by simp_all
  show ?thesis
    unfolding text_packet_defs
    by (intro conjI; rule frames_opcode, (rule close_intros emit_intros)+;
        use l assms(3) in \<open>simp add: pk_limit_def\<close>)
qed

theorem text_packets_framed_witness:
  "frames (make_chat_message [0x68, 0x69] 0) (write_varint 0x02 @ write_mc_string [0x68, 0x69] @ [0])"
  using text_packets_framed [of "[0x68, 0x69]" "[]" "replicate 16 0"] by (simp add: c_str_def)

text \<open>The payload of a chunk: the types of all sub-chunks sent, then their block light, then
  their sky light, then the biomes.\<close>

definition sub_data :: "(sub_chunk \<Rightarrow> byte list) \<Rightarrow> u16 \<Rightarrow> chunk \<Rightarrow> byte list" where
  "sub_data f mask' ch = concat (map (\<lambda>i. f (the (ch_subs ch ! i))) (masked mask'))"

definition chunk_payload :: "bool \<Rightarrow> u16 \<Rightarrow> chunk \<Rightarrow> byte list" where
  "chunk_payload cont mask' ch = sub_data sub_types_bytes mask' ch @ sub_data sc_bl mask' ch @
     sub_data sc_sl mask' ch @ (if cont then ch_biomes ch else [])"

text \<open>The sub-chunks sent exist: what the caller of \<open>make_chunk_data\<close> must provide.\<close>

definition mask_present :: "u16 \<Rightarrow> chunk \<Rightarrow> bool" where
  "mask_present mask' ch = list_all (\<lambda>i. ch_subs ch ! i \<noteq> None) (masked mask')"

lemma length_concat_const: "\<forall>x \<in> set xs. length (f x) = n \<Longrightarrow> length (concat (map f xs)) = n * length xs"
  by (induction xs) auto

lemma masked_less: "i \<in> set (masked m) \<Longrightarrow> i < 16"
  by (simp add: masked_def)

lemma length_masked: "length (masked m) \<le> 16"
  using length_filter_le [of _ "[0..<16]"] by (simp add: masked_def)

lemma length_sub_types_bytes: "length (sub_types_bytes s) = 2 * length (sc_types s)"
  by (simp add: sub_types_bytes_def length_concat_const [where n = 2] write_short_le_def)

lemma masked_sub_ok:
  assumes "chunk_ok ch" "mask_present m ch" "i \<in> set (masked m)" shows "sub_ok (the (ch_subs ch ! i))"
proof -
  have "ch_subs ch ! i \<in> set (ch_subs ch)" using assms(1) masked_less [OF assms(3)] by (simp add: chunk_ok_def)
  then have "sub_ok (sub_made (ch_subs ch ! i))" using assms(1) by (simp add: chunk_ok_def)
  moreover have "ch_subs ch ! i \<noteq> None" using assms(2,3) by (simp add: mask_present_def list_all_iff)
  ultimately show ?thesis by (auto simp: sub_made_def)
qed

lemma length_sub_data:
  assumes "chunk_ok ch" "mask_present m ch" "\<And>s. sub_ok s \<Longrightarrow> length (f s) = n"
  shows "length (sub_data f m ch) = n * length (masked m)"
  unfolding sub_data_def using masked_sub_ok [OF assms(1,2)] assms(3) by (intro length_concat_const) blast

lemma length_chunk_payload:
  assumes "chunk_ok ch" "mask_present m ch"
  shows "length (chunk_payload cont m ch) = chunk_data_size cont m"
proof -
  note l = length_sub_data [OF assms]
  have "length (sub_data sub_types_bytes m ch) = 8192 * length (masked m)"
    "length (sub_data sc_bl m ch) = 2048 * length (masked m)"
    "length (sub_data sc_sl m ch) = 2048 * length (masked m)"
    by (rule l; simp add: sub_ok_def length_sub_types_bytes)+
  then show ?thesis using assms(1) by (simp add: chunk_payload_def chunk_data_size_def chunk_ok_def)
qed

lemma emits_sub_data:
  assumes "mask_present m ch"
  shows "emits (put_subs f (masked m) ch) (sub_data f m ch) (length (sub_data f m ch))"
  unfolding sub_data_def using assms by (intro emits_subs) (simp add: mask_present_def list_all_iff)

lemma emits_if: "emits f a (length a) \<Longrightarrow> emits (\<lambda>p. if c then f p else Some p) (if c then a else []) (length (if c then a else []))"
  by (auto simp: emits_id)

text \<open>
  C18: the chunk packet announces the number of bytes of block data that follow: for a well-formed
  chunk that has the sub-chunks of the mask, 12288 for each of them and 256 for the biomes, which
  are exactly the types, the block light, the sky light and the biomes behind the header.
\<close>

theorem chunk_data_framed:
  assumes "chunk_wf ch" "mask_present mask' ch"
  shows "frames (make_chunk_data cx cz cont mask' ch)
      (write_varint 0x21 @ write_int_be cx @ write_int_be cz @ write_bool cont @ write_short_be mask' @
       write_varint (of_nat (length (chunk_payload cont mask' ch))) @ chunk_payload cont mask' ch)
    \<and> length (chunk_payload cont mask' ch) = (if cont then 256 else 0) + 12288 * length (masked mask')"
proof
  have ok: "chunk_ok ch" using assms(1) by (simp add: chunk_wf_def)
  have l: "length (chunk_payload cont mask' ch) = chunk_data_size cont mask'" by (rule length_chunk_payload [OF ok assms(2)])
  then show "length (chunk_payload cont mask' ch) = (if cont then 256 else 0) + 12288 * length (masked mask')"
    by (simp add: chunk_data_size_def)
  have b: "length (chunk_payload cont mask' ch) \<le> 196864"
    using l length_masked [of mask'] by (simp add: chunk_data_size_def)
  note sub = emits_sub_data [OF assms(2)]
  show "frames (make_chunk_data cx cz cont mask' ch)
      (write_varint 0x21 @ write_int_be cx @ write_int_be cz @ write_bool cont @ write_short_be mask' @
       write_varint (of_nat (length (chunk_payload cont mask' ch))) @ chunk_payload cont mask' ch)"
    unfolding make_chunk_data_def l
    by (rule frames_opcode, (rule closes_bind closes_put_len emits_if emits_bytes sub emit_intros)+)
       (use b in \<open>simp_all add: pk_limit_def chunk_payload_def\<close>)
qed

text \<open>A chunk whose lowest sub-chunk exists.\<close>

definition one_sub_chunk :: chunk where
  "one_sub_chunk = put_sub 0 sub_chunk_init (chunk_init 1 2)"

lemma one_sub_chunk_wf: "chunk_wf one_sub_chunk"
proof (rule chunk_wf_types [OF chunk_init_wf])
  show "chunk_ok one_sub_chunk"
    using chunk_init_wf [of 1 2] unfolding one_sub_chunk_def by (intro chunk_ok_put_sub) (simp_all add: chunk_wf_def)
  show "ch_hmap one_sub_chunk = ch_hmap (chunk_init 1 2)" by (simp add: one_sub_chunk_def put_sub_def)
  fix x y z :: nat assume "in_chunk x y z"
  then show "id_at one_sub_chunk x y z = id_at (chunk_init 1 2) x y z"
    by (auto simp: one_sub_chunk_def put_sub_def id_at_def chunk_cell_def chunk_init_def sub_made_def
        nth_list_update)
qed

theorem chunk_data_framed_witness:
  "length (chunk_payload True 1 one_sub_chunk) = 12544"
proof -
  have "masked 1 = [0]" by code_simp
  moreover have "ch_subs one_sub_chunk ! 0 \<noteq> None"
    by (simp add: one_sub_chunk_def put_sub_def chunk_init_def)
  ultimately have "mask_present 1 one_sub_chunk" by (simp add: mask_present_def)
  from chunk_data_framed [OF one_sub_chunk_wf this, of _ _ True] \<open>masked 1 = [0]\<close> show ?thesis by simp
qed

end
