(* ===== verification/Transformers.thy ===== *)
theory Transformers
  imports Framing
begin

text \<open>
  The packet transformers of \<open>src/network/transformers/\<close>: compression (\<open>zlib_mc18.cpp\<close>) and
  encryption (\<open>aes.cpp\<close>), over the interface of \<open>packet_transformer.cpp\<close>. zlib and Crypto++ are
  a parameter, the record of their functions: \<open>co_inflate\<close> runs a whole zlib stream (\<open>None\<close>
  when \<open>inflate\<close> reports an error), \<open>co_deflate\<close> compresses with a level, and the ciphers map a
  stream state and a string to the result and the next state. The capacities of the output
  blocks, which the code doubles as it goes, are not modelled.
\<close>

record 'k codec =
  co_inflate :: "byte list \<Rightarrow> byte list option"
  co_deflate :: "u32 \<Rightarrow> byte list \<Rightarrow> byte list option"
  co_key :: "byte list \<Rightarrow> 'k"
  co_encrypt :: "'k \<Rightarrow> byte list \<Rightarrow> byte list \<times> 'k"
  co_decrypt :: "'k \<Rightarrow> byte list \<Rightarrow> byte list \<times> 'k"

subsection \<open>Compression\<close>

record zlib_mc18_transformer =
  z_on :: bool
  z_threshold :: u32
  z_level :: u32

definition zlib_init :: zlib_mc18_transformer where
  "zlib_init = \<lparr>z_on = False, z_threshold = 256, z_level = 0\<rparr>"

definition zlib_setup :: "u32 \<Rightarrow> u32 \<Rightarrow> zlib_mc18_transformer \<Rightarrow> zlib_mc18_transformer" where
  "zlib_setup threshold level z = z\<lparr>z_threshold := threshold, z_level := level\<rparr>"

text \<open>\<open>ok\<close>: zlib's own initialisations succeed.\<close>

definition zlib_start :: "bool \<Rightarrow> zlib_mc18_transformer \<Rightarrow> zlib_mc18_transformer" where
  "zlib_start ok z = (if ok then z\<lparr>z_on := True\<rparr> else z)"

definition zlib_stop :: "zlib_mc18_transformer \<Rightarrow> zlib_mc18_transformer" where
  "zlib_stop z = z\<lparr>z_on := False\<rparr>"

definition zlib_in_enough :: "byte list \<Rightarrow> int option" where
  "zlib_in_enough data = do {
     got \<leftarrow> got_varint data (int (length data));
     if got = 0 then Some 0
     else if got = 1 then do {
       (plen, l) \<leftarrow> read_varint data;
       plen_len \<leftarrow> l;
       Some (if int (length data) \<ge> sint (plen + of_nat plen_len) then 1 else 0) }
     else Some (-1) }"

text \<open>
  One packet of \<open>transform_in\<close>: what it appends to the output and how far the pointer moves.
  The outer \<open>None\<close> is undefined behaviour (a length that was never stored, a copy of a negative
  size or past the input), the inner one a failure of \<open>inflate\<close>.
\<close>

definition zlib_in_packet ::
  "(byte list \<Rightarrow> byte list option) \<Rightarrow> byte list \<Rightarrow> (byte list \<times> nat) option option" where
  "zlib_in_packet inflate ptr = do {
     (plen, pl) \<leftarrow> read_varint ptr;
     plen_len \<leftarrow> pl;
     (dlen, dl) \<leftarrow> read_varint (drop plen_len ptr);
     dlen_len \<leftarrow> dl;
     let size = sint (plen - of_nat dlen_len); ptr' = drop (plen_len + dlen_len) ptr in
     if size < 0 \<or> length ptr' < nat size then None
     else if dlen = 0 then
       Some (Some (write_varint (plen - of_nat dlen_len) @ take (nat size) ptr', unat plen + plen_len))
     else case inflate (take (nat size) ptr') of
       None \<Rightarrow> Some None
     | Some out \<Rightarrow> Some (Some (write_varint dlen @ out, unat plen + plen_len)) }"

lemma zlib_in_packet_moves:
  assumes "zlib_in_packet inflate ptr = Some (Some (out, n))" shows "0 < n \<and> ptr \<noteq> []"
proof -
  from assms obtain plen plen_len where p: "read_varint ptr = Some (plen, Some plen_len)" "n = unat plen + plen_len"
    by (auto simp: zlib_in_packet_def Let_def bind_eq_Some_conv split: if_splits option.splits)
  then show ?thesis using length_scan_got [of 5 0 ptr 0 plen plen_len] by (auto simp: read_varint_def)
qed

text \<open>
  \<open>transform_in\<close>: packets as long as another length field follows. Returned are the success, the
  output and the bytes consumed; a failure leaves no output. When the next length field is
  invalid, the code frees the output and goes on with it: \<open>None\<close>.
\<close>

function zlib_in ::
  "(byte list \<Rightarrow> byte list option) \<Rightarrow> byte list \<Rightarrow> byte list \<Rightarrow> nat \<Rightarrow> (bool \<times> byte list \<times> nat) option" where
  "zlib_in inflate ptr out consumed = (case zlib_in_packet inflate ptr of
     None \<Rightarrow> None
   | Some None \<Rightarrow> Some (False, [], consumed)
   | Some (Some (o1, n)) \<Rightarrow>
       let ptr' = drop n ptr in
       case got_varint ptr' (int (length ptr')) of
         None \<Rightarrow> None
       | Some got \<Rightarrow>
           if got = -1 then None
           else if got = 0 then Some (True, out @ o1, consumed + n)
           else zlib_in inflate ptr' (out @ o1) (consumed + n))"
  by pat_completeness auto
termination
  by (relation "measure (\<lambda>(_, ptr, _). length ptr)") (auto dest: zlib_in_packet_moves)

declare zlib_in.simps [simp del]

text \<open>
  \<open>transform_out\<close> on a finished packet. The inner \<open>None\<close> is a failure of \<open>deflate\<close>; the outer one
  is undefined behaviour, which includes sending bytes of the output block that were not written.
\<close>

definition zlib_out ::
  "(u32 \<Rightarrow> byte list \<Rightarrow> byte list option) \<Rightarrow> zlib_mc18_transformer \<Rightarrow> byte list \<Rightarrow> byte list option option" where
  "zlib_out deflate z data = do {
     (dlen, dl) \<leftarrow> read_varint data;
     dlen_len \<leftarrow> dl;
     let body = drop dlen_len data in
     if sint dlen < sint (z_threshold z) then do {
       let plen = of_nat (length data) - of_nat dlen_len + 1;
       plen_len \<leftarrow> varint_size plen;
       if sint dlen < 0 \<or> length body \<noteq> unat dlen then None
       else Some (Some (write_varint plen @ write_varint 0 @ body)) }
     else case deflate (z_level z) body of
       None \<Rightarrow> Some None
     | Some compressed \<Rightarrow> do {
         let plen = of_nat (length compressed) + of_nat dlen_len;
         plen_len \<leftarrow> varint_size plen;
         if length (write_varint dlen) \<noteq> dlen_len then None
         else Some (Some (write_varint plen @ write_varint dlen @ compressed)) } }"

subsection \<open>Encryption\<close>

record 'k aes_transformer =
  a_on :: bool
  a_encryptor :: "'k option"
  a_decryptor :: "'k option"

definition aes_init :: "'k aes_transformer" where
  "aes_init = \<lparr>a_on = False, a_encryptor = None, a_decryptor = None\<rparr>"

definition aes_setup :: "'k codec \<Rightarrow> byte list \<Rightarrow> 'k aes_transformer \<Rightarrow> 'k aes_transformer" where
  "aes_setup cd ssec a = a\<lparr>a_encryptor := Some (co_key cd ssec), a_decryptor := Some (co_key cd ssec)\<rparr>"

definition aes_in :: "'k codec \<Rightarrow> 'k aes_transformer \<Rightarrow> byte list \<Rightarrow> (byte list \<times> 'k aes_transformer) option" where
  "aes_in cd a data = (case a_decryptor a of
     None \<Rightarrow> None
   | Some k \<Rightarrow> let (out, k') = co_decrypt cd k data in Some (out, a\<lparr>a_decryptor := Some k'\<rparr>))"

definition aes_out :: "'k codec \<Rightarrow> 'k aes_transformer \<Rightarrow> byte list \<Rightarrow> (byte list \<times> 'k aes_transformer) option" where
  "aes_out cd a data = (case a_encryptor a of
     None \<Rightarrow> None
   | Some k \<Rightarrow> let (out, k') = co_encrypt cd k data in Some (out, a\<lparr>a_encryptor := Some k'\<rparr>))"

subsection \<open>The interface\<close>

datatype 'k transformer = Zlib zlib_mc18_transformer | Aes "'k aes_transformer"

fun tr_on :: "'k transformer \<Rightarrow> bool" where
  "tr_on (Zlib z) = z_on z"
| "tr_on (Aes a) = a_on a"

fun tr_start :: "bool \<Rightarrow> 'k transformer \<Rightarrow> 'k transformer" where
  "tr_start ok (Zlib z) = Zlib (zlib_start ok z)"
| "tr_start ok (Aes a) = Aes (a\<lparr>a_on := True\<rparr>)"

fun tr_stop :: "'k transformer \<Rightarrow> 'k transformer" where
  "tr_stop (Zlib z) = Zlib (zlib_stop z)"
| "tr_stop (Aes a) = Aes (a\<lparr>a_on := False\<rparr>)"

fun tr_in_enough :: "'k transformer \<Rightarrow> byte list \<Rightarrow> int option" where
  "tr_in_enough (Zlib z) data = zlib_in_enough data"
| "tr_in_enough (Aes a) data = Some 1"

text \<open>The result of \<open>transform_in\<close>: output, bytes consumed, the transformer afterwards. The code
  ignores the success; after a failure there is no output.\<close>

fun tr_in :: "'k codec \<Rightarrow> 'k transformer \<Rightarrow> byte list \<Rightarrow> (byte list \<times> nat \<times> 'k transformer) option" where
  "tr_in cd (Zlib z) data = (case zlib_in (co_inflate cd) data [] 0 of
     None \<Rightarrow> None | Some (ok, out, consumed) \<Rightarrow> Some (out, consumed, Zlib z))"
| "tr_in cd (Aes a) data = (case aes_in cd a data of
     None \<Rightarrow> None | Some (out, a') \<Rightarrow> Some (out, length data, Aes a'))"

fun tr_out :: "'k codec \<Rightarrow> 'k transformer \<Rightarrow> byte list \<Rightarrow> (byte list \<times> 'k transformer) option option" where
  "tr_out cd (Zlib z) data = (case zlib_out (co_deflate cd) z data of
     None \<Rightarrow> None | Some None \<Rightarrow> Some None | Some (Some out) \<Rightarrow> Some (Some (out, Zlib z)))"
| "tr_out cd (Aes a) data = (case aes_out cd a data of
     None \<Rightarrow> None | Some (out, a') \<Rightarrow> Some (Some (out, Aes a')))"

subsection \<open>Round trips\<close>

text \<open>What zlib documents: a string compressed at any level inflates back to itself.\<close>

definition zlib_inverse :: "'k codec \<Rightarrow> bool" where
  "zlib_inverse cd \<longleftrightarrow> (\<forall>level s z. co_deflate cd level s = Some z \<longrightarrow> co_inflate cd z = Some s)"

definition small :: "byte list \<Rightarrow> bool" where "small s \<longleftrightarrow> length s < 2 ^ 20"

lemma of_nat_small:
  assumes "n < 2 ^ 31"
  shows "sint (of_nat n :: u32) = int n" "unat (of_nat n :: u32) = n" "of_nat n = (0 :: u32) \<longleftrightarrow> n = 0"
proof -
  show "sint (of_nat n :: u32) = int n" using room_sum [of 0 n] assms by simp
  show u: "unat (of_nat n :: u32) = n" using assms by (simp add: unsigned_of_nat take_bit_nat_eq_self)
  show "of_nat n = (0 :: u32) \<longleftrightarrow> n = 0" using u by (cases "n = 0") force+
qed

lemma zlib_in_packet_eq:
  assumes "sint (pw - of_nat (length (write_varint dw))) = int (length z)"
    "unat pw = length (write_varint dw) + length z"
  shows "zlib_in_packet inflate (write_varint pw @ write_varint dw @ z @ rest) =
    Some (map_option (\<lambda>out. (out, length (write_varint pw) + unat pw))
      (if dw = 0 then Some (write_varint (pw - of_nat (length (write_varint dw))) @ z)
       else map_option (\<lambda>out. write_varint dw @ out) (inflate z)))"
proof -
  have r: "read_varint (write_varint pw @ write_varint dw @ z @ rest) = Some (pw, Some (length (write_varint pw)))"
    "drop (length (write_varint pw)) (write_varint pw @ write_varint dw @ z @ rest) = write_varint dw @ z @ rest"
    "drop (length (write_varint pw) + length (write_varint dw)) (write_varint pw @ write_varint dw @ z @ rest) = z @ rest"
    by simp_all
  show ?thesis
    unfolding zlib_in_packet_def r read_write_varint Option.bind.bind_lunit prod.case Let_def assms(1)
    by (simp split: option.split)
qed

text \<open>One packet, out and in again.\<close>

lemma zlib_roundtrip1:
  assumes inv: "zlib_inverse cd" and out: "zlib_out (co_deflate cd) z (frame body) = Some (Some w)"
    and small: "small body" "small w" and thr: "0 < sint (z_threshold z)"
  shows "(\<exists>v x. w = write_varint v @ x) \<and>
    zlib_in_packet (co_inflate cd) (w @ rest) = Some (Some (frame body, length w))"
proof -
  let ?L = "length body" and ?d = "write_varint (of_nat (length body))"
  have L: "?L + 10 < 2 ^ 31" using small by (simp add: small_def)
  note wL = of_nat_small [of ?L, simplified]
  have rd: "read_varint (frame body) = Some (of_nat ?L, Some (length ?d))" "drop (length ?d) (frame body) = body"
    by (simp_all add: frame_def)
  show ?thesis
  proof (cases "sint (of_nat ?L :: u32) < sint (z_threshold z)")
    case True
    have p: "of_nat (length (frame body)) - of_nat (length ?d) + 1 = (of_nat (Suc ?L) :: u32)"
      by (simp add: frame_def)
    have w: "w = write_varint (of_nat (Suc ?L)) @ write_varint 0 @ body"
      using out True L unfolding zlib_out_def rd Option.bind.bind_lunit prod.case Let_def p
      by (auto simp: bind_eq_Some_conv split: if_splits)
    have o: "length (write_varint 0) = Suc 0" by (simp add: write_varint_def)
    have "sint (of_nat (Suc ?L) - of_nat (length (write_varint 0)) :: u32) = int ?L"
      "unat (of_nat (Suc ?L) :: u32) = length (write_varint 0) + ?L"
      using of_nat_small(1) [of ?L] of_nat_small(2) [of "Suc ?L"] L by (simp_all add: o)
    note e = zlib_in_packet_eq [OF this, of "co_inflate cd" rest]
    then show ?thesis using of_nat_small(2) [of "Suc ?L"] L unfolding w
      by (auto simp: o frame_def)
  next
    case False
    then obtain c where c: "co_deflate cd (z_level z) body = Some c"
      "w = write_varint (of_nat (length c) + of_nat (length ?d)) @ ?d @ c"
      using out unfolding zlib_out_def rd Option.bind.bind_lunit prod.case Let_def
      by (auto simp: bind_eq_Some_conv split: if_splits option.splits)
    have i: "co_inflate cd c = Some body" using inv c(1) by (auto simp: zlib_inverse_def)
    have l: "length c + length ?d < 2 ^ 31" using small c(2) length_write_varint [of "of_nat ?L"] by (simp add: small_def)
    have "of_nat (length c) + of_nat (length ?d) = (of_nat (length ?d + length c) :: u32)" by simp
    then have "sint (of_nat (length c) + of_nat (length ?d) - of_nat (length ?d) :: u32) = int (length c)"
      and u: "unat (of_nat (length c) + of_nat (length ?d) :: u32) = length ?d + length c"
      using of_nat_small(1) [of "length c"] of_nat_small(2) [of "length ?d + length c"] l
      by (simp_all add: add.commute)
    note e = zlib_in_packet_eq [OF this, of "co_inflate cd" rest]
    have "of_nat ?L \<noteq> (0 :: u32)" using False thr of_nat_small(1) [of ?L] L by auto
    then show ?thesis using e u i unfolding c(2) by (auto simp: frame_def)
  qed
qed

lemma got_varint_next:
  "got_varint (write_varint v @ x) (int (length (write_varint v @ x))) = Some 1"
  by (rule got_varint_written) simp

definition sent_as :: "'k codec \<Rightarrow> zlib_mc18_transformer \<Rightarrow> byte list \<Rightarrow> byte list \<Rightarrow> bool" where
  "sent_as cd z body w \<longleftrightarrow> zlib_out (co_deflate cd) z (frame body) = Some (Some w) \<and> small body \<and> small w"

lemma zlib_in_packets:
  assumes "zlib_inverse cd" "0 < sint (z_threshold z)"
  shows "list_all2 (sent_as cd z) bodies ws \<Longrightarrow> ws \<noteq> [] \<Longrightarrow>
    zlib_in (co_inflate cd) (concat ws) out n = Some (True, out @ concat (map frame bodies), n + length (concat ws))"
proof (induction bodies ws arbitrary: out n rule: list_all2_induct)
  case (Cons body bodies w ws)
  note one = zlib_roundtrip1 [OF assms(1) _ _ _ assms(2), of body w]
  from Cons.hyps(1) one [of "concat ws"]
  have p: "zlib_in_packet (co_inflate cd) (w @ concat ws) = Some (Some (frame body, length w))"
    by (simp add: sent_as_def)
  show ?case
  proof (cases ws)
    case Nil
    then show ?thesis using p Cons.hyps(2) by (subst zlib_in.simps) (simp add: got_varint_none)
  next
    case more: (Cons w' ws')
    then obtain body' where "sent_as cd z body' w'" using Cons.hyps(2) by (auto simp: list_all2_Cons2)
    then obtain v x where "w' = write_varint v @ x"
      using zlib_roundtrip1 [OF assms(1) _ _ _ assms(2), of body' w' "[]"] by (auto simp: sent_as_def)
    then have "concat ws = write_varint v @ x @ concat ws'" using more by simp
    then have g: "got_varint (concat ws) (int (length (concat ws))) = Some 1"
      using got_varint_next [of v "x @ concat ws'"] by simp
    have "zlib_in (co_inflate cd) (w @ concat ws) out n = zlib_in (co_inflate cd) (concat ws) (out @ frame body) (n + length w)"
      by (subst zlib_in.simps) (simp add: p g del: length_concat)
    then show ?thesis using Cons.IH [of "out @ frame body" "n + length w"] more by simp
  qed
qed simp

text \<open>
  C28: packets that one side compresses and puts on the stream one behind the other come out of
  the other side's decompression as they were, all of them, with the whole input consumed; for
  every compression level, every positive threshold, and any compressor that its decompressor
  inverts.
\<close>

theorem zlib_roundtrip:
  assumes "zlib_inverse cd" "0 < sint (z_threshold z)" "list_all2 (sent_as cd z) bodies ws" "ws \<noteq> []"
  shows "zlib_in (co_inflate cd) (concat ws) [] 0 = Some (True, concat (map frame bodies), length (concat ws))"
  using zlib_in_packets [OF assms, of "[]" 0] by simp

definition plain_codec :: "nat codec" where
  "plain_codec = \<lparr>co_inflate = \<lambda>s. Some (drop 1 s), co_deflate = \<lambda>_ s. Some (0x78 # s), co_key = length,
     co_encrypt = \<lambda>k s. (map (\<lambda>b. b XOR of_nat k) s, k), co_decrypt = \<lambda>k s. (map (\<lambda>b. b XOR of_nat k) s, k)\<rparr>"

theorem zlib_roundtrip_witness:
  "zlib_in (co_inflate plain_codec) [3, 0, 0x41, 0x42, 5, 3, 0x78, 0x41, 0x42, 0x43] [] 0
     = Some (True, [2, 0x41, 0x42, 3, 0x41, 0x42, 0x43], 10)"
proof -
  let ?z = "zlib_setup 3 6 zlib_init"
  have "zlib_inverse plain_codec" "0 < sint (z_threshold ?z)"
    by (auto simp: zlib_inverse_def plain_codec_def zlib_setup_def)
  moreover have "zlib_out (co_deflate plain_codec) ?z (frame [0x41, 0x42]) = Some (Some [3, 0, 0x41, 0x42])"
    "zlib_out (co_deflate plain_codec) ?z (frame [0x41, 0x42, 0x43]) = Some (Some [5, 3, 0x78, 0x41, 0x42, 0x43])"
    "frame [0x41, 0x42] = [2, 0x41, 0x42]" "frame [0x41, 0x42, 0x43] = [3, 0x41, 0x42, 0x43]"
    unfolding zlib_out_def varint_size_eq by code_simp+
  ultimately show ?thesis
    using zlib_roundtrip [of plain_codec ?z "[[0x41, 0x42], [0x41, 0x42, 0x43]]" "[[3, 0, 0x41, 0x42], [5, 3, 0x78, 0x41, 0x42, 0x43]]"]
    by (simp add: sent_as_def small_def)
qed

text \<open>
  When the input ends inside the packet behind a complete one, \<open>in_enough\<close> still calls it
  enough, and \<open>transform_in\<close> reads past its end; and when what follows a complete packet is not
  a length, it goes on with freed memory.
\<close>

theorem zlib_in_partial:
  "zlib_in_enough [2, 0, 0x41, 2] = Some 1 \<and> zlib_in inflate [2, 0, 0x41, 2] [] 0 = None
   \<and> zlib_in_enough ([2, 0, 0x41] @ replicate 6 0x80 @ [0]) = Some 1
   \<and> zlib_in inflate ([2, 0, 0x41] @ replicate 6 0x80 @ [0]) [] 0 = None"
proof -
  have w: "write_varint 2 = [2]" "write_varint 1 = [1]" "write_varint 0 = [0]" by code_simp+
  have p: "zlib_in_packet inflate (2 # 0 # 0x41 # rest) = Some (Some ([1, 0x41], 3))" for rest
    using zlib_in_packet_eq [of 2 0 "[0x41]" inflate rest] by (simp add: w)
  have "zlib_in inflate (2 # 0 # 0x41 # rest) [] 0 =
      (case got_varint rest (int (length rest)) of None \<Rightarrow> None | Some got \<Rightarrow>
         if got = -1 then None else if got = 0 then Some (True, [1, 0x41], 3) else zlib_in inflate rest [1, 0x41] 3)" for rest
    by (subst zlib_in.simps) (simp add: p split: option.split)
  moreover have "got_varint [2] 1 = Some 1" "got_varint (replicate 6 0x80 @ [0]) 7 = Some (- 1)"
    "zlib_in_enough [2, 0, 0x41, 2] = Some 1" "zlib_in_enough ([2, 0, 0x41] @ replicate 6 0x80 @ [0]) = Some 1"
    by code_simp+
  moreover have "zlib_in_packet inflate [2] = None"
    by (simp add: zlib_in_packet_def read_varint_def numeral_eq_Suc)
  then have "zlib_in inflate [2] [1, 0x41] 3 = None" by (subst zlib_in.simps) simp
  ultimately show ?thesis by simp
qed

end
