(* ===== verification/Connection.thy ===== *)
theory Connection
  imports Transformers Packet
begin

text \<open>
  \<open>class connection\<close> (\<open>src/network/connection.cpp\<close>), the protocols it runs
  (\<open>src/network/protocol.cpp\<close>) and the handler that detects the protocol of a client
  (\<open>src/network/handlers/infer.cpp\<close>). libevent is modelled by its contract: bytes given to
  \<open>bufferevent_write\<close> are appended to an output buffer which drains to the socket in order, the
  write callback runs once the buffer has drained, and the callbacks of one connection exclude
  each other, as they do by \<open>dc_mtx\<close>.
\<close>

subsection \<open>Protocols\<close>

datatype packet_handler = Infer_packet_handler | Mc18_packet_handler
datatype packet_builder = No_packet_builder | Mc18_packet_builder

record 'k protocol =
  pt_name :: string
  pt_delim :: packet_delimiter
  pt_handler :: packet_handler
  pt_builder :: packet_builder
  pt_transformers :: "'k transformer list"

definition protocol_make ::
  "string \<Rightarrow> packet_delimiter \<Rightarrow> packet_handler \<Rightarrow> packet_builder \<Rightarrow> 'k protocol" where
  "protocol_make name delim handler builder =
     \<lparr>pt_name = name, pt_delim = delim, pt_handler = handler, pt_builder = builder, pt_transformers = []\<rparr>"

definition add_transformer :: "'k transformer \<Rightarrow> 'k protocol \<Rightarrow> 'k protocol" where
  "add_transformer tr p = p\<lparr>pt_transformers := pt_transformers p @ [tr]\<rparr>"

definition create_mc18 :: "'k protocol" where
  "create_mc18 =
     (let proto = protocol_make ''1.8'' Mc17_packet_delimiter Mc18_packet_handler Mc18_packet_builder;
          proto = add_transformer (Zlib zlib_init) proto
      in add_transformer (Aes aes_init) proto)"

definition protocol_create :: "string \<Rightarrow> 'k protocol option" where
  "protocol_create version = map_option (\<lambda>f. f ())
     (map_of [(''1.8.3'', \<lambda>_. create_mc18), (''1.8.2'', \<lambda>_. create_mc18),
              (''1.8.1'', \<lambda>_. create_mc18), (''1.8'', \<lambda>_. create_mc18)] version)"

subsection \<open>The state\<close>

text \<open>Containers are told apart by their number, which no two share.\<close>

record packet_container =
  pc_id :: nat
  pc_pack :: packet
  pc_flags :: u32

text \<open>
  \<open>cn_input\<close> is the input buffer of the bufferevent, \<open>cn_out\<close> its output buffer, \<open>cn_wire\<close> what
  the socket has been given; \<open>cn_timer\<close> says whether the timer event is pending; \<open>cn_unlinked\<close>
  that the connection is on the server's list of disconnected ones.
\<close>

record 'k connection = read_state +
  cn_proto :: "'k protocol"
  cn_input :: "byte list"
  cn_tbs :: "byte list list"
  cn_outq :: "packet_container list"
  cn_can_send :: bool
  cn_init_pack :: "packet_container option"
  cn_next_packet_id :: nat
  cn_disconnected :: bool
  cn_out :: "byte list"
  cn_wire :: "byte list"
  cn_timer :: bool
  cn_unlinked :: bool

definition CONN_SEND_DISCONNECT :: u32 where "CONN_SEND_DISCONNECT = 1"

text \<open>The constructor followed by \<open>infer_protocol\<close> and \<open>start_io\<close>, as the server calls them.\<close>

definition infer_proto :: "'k protocol" where
  "infer_proto = protocol_make ''<infer>'' Infer_packet_delimiter Infer_packet_handler No_packet_builder"

definition connection_start :: "'k connection" where
  "connection_start =
     \<lparr>rs_rbuf = [], rs_ftb = [], rs_jobs = [], rs_disconnect_req = False,
      cn_proto = infer_proto, cn_input = [], cn_tbs = [], cn_outq = [], cn_can_send = True,
      cn_init_pack = None, cn_next_packet_id = 1, cn_disconnected = False, cn_out = [],
      cn_wire = [], cn_timer = True, cn_unlinked = False\<rparr>"

definition set_protocol :: "'k protocol \<Rightarrow> 'k connection \<Rightarrow> 'k connection" where
  "set_protocol proto c = c\<lparr>cn_proto := proto, cn_tbs := map (\<lambda>_. []) (pt_transformers proto)\<rparr>"

abbreviation transformers :: "'k connection \<Rightarrow> 'k transformer list" where
  "transformers c \<equiv> pt_transformers (cn_proto c)"

definition set_transformer :: "nat \<Rightarrow> 'k transformer \<Rightarrow> 'k connection \<Rightarrow> 'k connection" where
  "set_transformer i tr c = c\<lparr>cn_proto := (cn_proto c)\<lparr>pt_transformers := (transformers c)[i := tr]\<rparr>\<rparr>"

subsection \<open>Protocol detection\<close>

text \<open>\<open>infer_packet_handler::handle\<close>: the protocol the client is switched to, if any.\<close>

definition infer_handle :: "packet_reader \<Rightarrow> string option option" where
  "infer_handle reader = do {
     (len, reader) \<leftarrow> pr_read_byte reader;
     if unat len > 127 then Some None
     else do {
       (opcode, reader) \<leftarrow> pr_read_byte reader;
       if opcode \<noteq> 0x00 then Some None
       else do {
         (pv, reader) \<leftarrow> pr_read_byte reader;
         if pv = 47 then Some (Some ''1.8'') else Some None } } }"

text \<open>What the handler does to the connection; on success the packet goes to the new handler.\<close>

definition infer_run :: "packet_reader \<Rightarrow> 'k connection \<Rightarrow> (packet_reader option \<times> 'k connection) option" where
  "infer_run reader c = (case infer_handle reader of
     None \<Rightarrow> None
   | Some None \<Rightarrow> Some (None, c\<lparr>rs_disconnect_req := True\<rparr>)
   | Some (Some name) \<Rightarrow> (case protocol_create name of
       None \<Rightarrow> None
     | Some proto \<Rightarrow> Some (Some (pr_rewind reader), set_protocol proto c)))"

subsection \<open>Transformations\<close>

text \<open>
  The buffer that feeds the next transformer: the input of the bufferevent, or the buffer of the
  transformer before. \<open>evbuffer_add_buffer\<close> moves its contents.
\<close>

datatype buf = Input | Tb nat

fun buf_get :: "buf \<Rightarrow> 'k connection \<Rightarrow> byte list" where
  "buf_get Input c = cn_input c"
| "buf_get (Tb i) c = cn_tbs c ! i"

fun buf_clear :: "buf \<Rightarrow> 'k connection \<Rightarrow> 'k connection" where
  "buf_clear Input c = c\<lparr>cn_input := []\<rparr>"
| "buf_clear (Tb i) c = c\<lparr>cn_tbs := (cn_tbs c)[i := []]\<rparr>"

definition tb_put :: "nat \<Rightarrow> byte list \<Rightarrow> 'k connection \<Rightarrow> 'k connection" where
  "tb_put i bs c = c\<lparr>cn_tbs := (cn_tbs c)[i := bs]\<rparr>"

text \<open>The search for the next buffer goes on to the lowest transformer that is on.\<close>

definition next_buf :: "'k transformer list \<Rightarrow> nat \<Rightarrow> nat option" where
  "next_buf trs i = find (\<lambda>j. tr_on (trs ! j)) [0..<i]"

definition put_next :: "nat \<Rightarrow> byte list \<Rightarrow> 'k connection \<Rightarrow> 'k connection" where
  "put_next i bs c = (case next_buf (transformers c) i of
     None \<Rightarrow> c\<lparr>rs_ftb := rs_ftb c @ bs\<rparr>
   | Some j \<Rightarrow> tb_put j (cn_tbs c ! j @ bs) c)"

fun apply_in_loop :: "'k codec \<Rightarrow> nat \<Rightarrow> buf \<Rightarrow> 'k connection \<Rightarrow> 'k connection option" where
  "apply_in_loop cd 0 lastbuf c = Some c"
| "apply_in_loop cd (Suc i) lastbuf c =
     (if i \<ge> length (cn_tbs c) \<or> i \<ge> length (transformers c) then None
      else let tr = transformers c ! i in
      if \<not> tr_on tr then apply_in_loop cd i lastbuf c
      else let from' = cn_tbs c ! i @ buf_get lastbuf c;
               c = tb_put i [] (buf_clear lastbuf c)
           in case tr_in_enough tr from' of
             None \<Rightarrow> None
           | Some res \<Rightarrow>
               if res = -1 then Some (c\<lparr>rs_disconnect_req := True\<rparr>)
               else if res \<noteq> 1 then Some (tb_put i from' c)
               else (case tr_in cd tr from' of
                   None \<Rightarrow> None
                 | Some (to, consumed, tr') \<Rightarrow>
                     apply_in_loop cd i (Tb i)
                       (tb_put i (drop consumed from') (put_next i to (set_transformer i tr' c)))))"

definition apply_in_transformations :: "'k codec \<Rightarrow> 'k connection \<Rightarrow> 'k connection option" where
  "apply_in_transformations cd c =
     (if \<not> list_ex tr_on (transformers c)
      then Some (c\<lparr>rs_ftb := rs_ftb c @ cn_input c, cn_input := []\<rparr>)
      else apply_in_loop cd (length (transformers c)) Input c)"

text \<open>
  Outgoing data goes through the transformers in order; when one of them fails the packet keeps
  the data it had. The first component of the result is the transformed data, if all succeeded.
\<close>

fun apply_out_loop ::
  "'k codec \<Rightarrow> 'k transformer list \<Rightarrow> byte list \<Rightarrow> (byte list option \<times> 'k transformer list) option" where
  "apply_out_loop cd [] data = Some (Some data, [])"
| "apply_out_loop cd (tr # trs) data =
     (if \<not> tr_on tr then map_option (\<lambda>(r, ts). (r, tr # ts)) (apply_out_loop cd trs data)
      else case tr_out cd tr data of
        None \<Rightarrow> None
      | Some None \<Rightarrow> Some (None, tr # trs)
      | Some (Some (out, tr')) \<Rightarrow> map_option (\<lambda>(r, ts). (r, tr' # ts)) (apply_out_loop cd trs out))"

definition apply_out_transformations ::
  "'k codec \<Rightarrow> packet \<Rightarrow> 'k connection \<Rightarrow> (packet \<times> 'k connection) option" where
  "apply_out_transformations cd pack c =
     (if \<not> list_ex tr_on (transformers c) then Some (pack, c)
      else case apply_out_loop cd (transformers c) (pk_contents pack) of
        None \<Rightarrow> None
      | Some (r, trs) \<Rightarrow>
          let c = c\<lparr>cn_proto := (cn_proto c)\<lparr>pt_transformers := trs\<rparr>\<rparr>
          in case r of None \<Rightarrow> Some (pack, c)
             | Some data \<Rightarrow> map_option (\<lambda>pack. (pack, c)) (pk_put_bytes data (pk_reset pack)))"

subsection \<open>Disconnecting\<close>

definition conn_disconnect :: "'k connection \<Rightarrow> 'k connection" where
  "conn_disconnect c = c\<lparr>rs_disconnect_req := True\<rparr>"

text \<open>
  \<open>disconnect_\<close>: the packets that were not sent are freed and the timer stops. The handler's own
  disconnection belongs to the game side and is not part of this state. (The queue keeps its
  dangling entries; nothing reads them again, as the callbacks are disabled.)
\<close>

definition disconnect_now :: "'k connection \<Rightarrow> 'k connection" where
  "disconnect_now c =
     (if cn_disconnected c then c
      else c\<lparr>cn_outq := [], cn_timer := False, cn_disconnected := True, cn_unlinked := True\<rparr>)"

subsection \<open>Callbacks\<close>

text \<open>\<open>len\<close> bytes have arrived in the input buffer when \<open>on_read\<close> runs.\<close>

definition on_read :: "'k codec \<Rightarrow> 'k connection \<Rightarrow> 'k connection option" where
  "on_read cd c =
     (if cn_input c = [] then Some (conn_disconnect c)
      else case apply_in_transformations cd c of
        None \<Rightarrow> None
      | Some c \<Rightarrow> read_loop (pt_delim (cn_proto c)) c)"

definition on_write :: "'k connection \<Rightarrow> 'k connection" where
  "on_write c = (case cn_outq c of
     [] \<Rightarrow> c
   | cont # rest \<Rightarrow>
       if map_option pc_id (cn_init_pack c) = Some (pc_id cont) then c
       else let c = c\<lparr>cn_outq := rest\<rparr> in
         if pc_flags cont AND CONN_SEND_DISCONNECT \<noteq> 0 then conn_disconnect c
         else case rest of
           [] \<Rightarrow> c
         | cont' # _ \<Rightarrow> c\<lparr>cn_out := cn_out c @ pk_contents (pc_pack cont')\<rparr>)"

definition on_event :: "'k connection \<Rightarrow> 'k connection" where
  "on_event c = conn_disconnect c"

text \<open>The handler's tick runs after the timer's own work; the timer is re-armed.\<close>

definition on_time :: "'k connection \<Rightarrow> 'k connection" where
  "on_time c =
     (if rs_disconnect_req c then disconnect_now (c\<lparr>cn_timer := False\<rparr>)
      else let c = (case cn_init_pack c of
             None \<Rightarrow> c
           | Some cont \<Rightarrow> c\<lparr>cn_out := cn_out c @ pk_contents (pc_pack cont), cn_init_pack := None\<rparr>)
        in c\<lparr>cn_timer := True\<rparr>)"

definition send :: "'k codec \<Rightarrow> packet \<Rightarrow> u32 \<Rightarrow> 'k connection \<Rightarrow> 'k connection option" where
  "send cd pack flags c =
     (if \<not> cn_can_send c \<or> cn_disconnected c \<or> rs_disconnect_req c then Some c
      else let pack_id = cn_next_packet_id c;
               c = c\<lparr>cn_next_packet_id := cn_next_packet_id c + 1\<rparr>
      in case apply_out_transformations cd pack c of
        None \<Rightarrow> None
      | Some (pack, c) \<Rightarrow>
          let cont = \<lparr>pc_id = pack_id, pc_pack = pack, pc_flags = flags\<rparr>;
              c = (if flags AND CONN_SEND_DISCONNECT \<noteq> 0 then c\<lparr>cn_can_send := False\<rparr> else c);
              c = c\<lparr>cn_outq := cn_outq c @ [cont]\<rparr>
          in Some (if length (cn_outq c) = 1 then c\<lparr>cn_init_pack := Some cont\<rparr> else c))"

subsection \<open>Receiving\<close>

text \<open>
  A connection in a state of the byte machine of \<open>Framing\<close>, with no transformer on. \<open>receive\<close> is
  a sequence of read callbacks, each with the bytes that arrived before it.
\<close>

fun receive :: "'k codec \<Rightarrow> byte list list \<Rightarrow> 'k connection \<Rightarrow> 'k connection option" where
  "receive cd [] c = Some c"
| "receive cd (bs # chunks) c =
     Option.bind (on_read cd (c\<lparr>cn_input := cn_input c @ bs\<rparr>)) (receive cd chunks)"

definition conn_stream :: "'k connection \<Rightarrow> stream_state \<Rightarrow> bool" where
  "conn_stream c st \<longleftrightarrow> \<not> list_ex tr_on (transformers c) \<and> cn_input c = [] \<and> (case st of
     Reading b \<Rightarrow> rs_rbuf c = b \<and> rs_ftb c = [] \<and> \<not> rs_disconnect_req c \<and> (\<exists>r. pending b r)
   | Refused b \<Rightarrow> rs_rbuf c = b \<and> refused b \<and> rs_disconnect_req c
   | Overlong \<Rightarrow> False)"

lemma on_read_feed:
  assumes "conn_stream c st" "bs \<noteq> []" "feed bs st = (js, st')" "st' \<noteq> Overlong"
  shows "\<exists>c'. on_read cd (c\<lparr>cn_input := cn_input c @ bs\<rparr>) = Some c' \<and> conn_stream c' st'
    \<and> rs_jobs c' = rs_jobs c @ js"
proof -
  let ?c = "c\<lparr>rs_ftb := rs_ftb c @ bs, cn_input := []\<rparr>"
  have r: "on_read cd (c\<lparr>cn_input := cn_input c @ bs\<rparr>) = read_loop (pt_delim (cn_proto c)) ?c"
    using assms(1,2) by (simp add: on_read_def apply_in_transformations_def conn_stream_def)
  show ?thesis
  proof (cases st)
    case (Reading b)
    with assms(1) obtain n where "pending (rs_rbuf ?c) n" "rs_rbuf ?c = b" "rs_ftb ?c = bs"
      by (auto simp: conn_stream_def)
    with read_loop_feed [of ?c n js st' "pt_delim (cn_proto c)"] assms(3,4) Reading
    obtain c' where "read_loop (pt_delim (cn_proto c)) ?c = Some c'" "leaves ?c js st' c'" by auto
    then show ?thesis using r assms(1) Reading
      by (auto simp: leaves_def conn_stream_def split: stream_state.splits)
  next
    case (Refused b)
    then have "js = []" "st' = st" using assms(3) by simp_all
    moreover have "read_loop (pt_delim (cn_proto c)) ?c = Some (?c\<lparr>rs_disconnect_req := True\<rparr>)"
      by (rule read_loop_refused) (use assms(1) Refused in \<open>simp add: conn_stream_def\<close>)
    ultimately show ?thesis using r assms(1) Refused by (simp add: conn_stream_def)
  qed (use assms(1) in \<open>simp add: conn_stream_def\<close>)
qed

lemma receive_feed:
  assumes "conn_stream c st" "[] \<notin> set chunks" "feed (concat chunks) st = (js, st')" "st' \<noteq> Overlong"
  shows "\<exists>c'. receive cd chunks c = Some c' \<and> conn_stream c' st' \<and> rs_jobs c' = rs_jobs c @ js"
  using assms
proof (induction chunks arbitrary: c st js)
  case (Cons bs chunks)
  obtain j1 s1 where 1: "feed bs st = (j1, s1)" by fastforce
  obtain j2 s2 where 2: "feed (concat chunks) s1 = (j2, s2)" by fastforce
  have js: "js = j1 @ j2" "st' = s2" using Cons.prems(3) by (simp_all add: feed_append 1 2)
  then have "s1 \<noteq> Overlong" using Cons.prems(4) 2 by auto
  with on_read_feed [OF Cons.prems(1) _ 1, of cd] Cons.prems(2) obtain c1 where
    c1: "on_read cd (c\<lparr>cn_input := cn_input c @ bs\<rparr>) = Some c1" "conn_stream c1 s1" "rs_jobs c1 = rs_jobs c @ j1"
    by auto
  with Cons.IH [OF c1(2), of j2] 2 js Cons.prems(2,4) show ?case by auto
qed auto

lemma conn_stream_start: "conn_stream connection_start (Reading [])"
  using pending_Nil by (auto simp: conn_stream_def connection_start_def infer_proto_def protocol_make_def)

text \<open>
  C23: reassembly refines a machine that takes the bytes one at a time. Whatever way the network
  cuts the stream into reads, the packets handed to the handler, and the packet that is being
  assembled, are those of the machine on the whole stream; the machine and the code also refuse
  the same streams, and after a refusal hand out nothing more. The one kind of stream excepted
  announces a length for which the room check overflows.
\<close>

theorem on_read_refines:
  assumes "[] \<notin> set chunks" "feed (concat chunks) (Reading []) = (js, st)" "st \<noteq> Overlong"
  shows "\<exists>c. receive cd chunks connection_start = Some c \<and> rs_jobs c = js \<and> (case st of
     Reading buf \<Rightarrow> rs_rbuf c = buf \<and> rs_ftb c = [] \<and> \<not> rs_disconnect_req c
   | Refused _ \<Rightarrow> rs_disconnect_req c | Overlong \<Rightarrow> False)"
proof -
  from receive_feed [OF conn_stream_start assms, of cd] obtain c where
    "receive cd chunks connection_start = Some c" "conn_stream c st" "rs_jobs c = js"
    by (auto simp: connection_start_def)
  then show ?thesis by (auto simp: conn_stream_def split: stream_state.splits)
qed

theorem on_read_refines_witness:
  "\<exists>c. receive plain_codec [[2, 0x41], [0x42, 3], [0x41]] connection_start = Some c
    \<and> rs_jobs c = [[2, 0x41, 0x42]] \<and> rs_rbuf c = [3, 0x41]"
proof -
  have "feed [2, 0x41, 0x42, 3, 0x41] (Reading []) = ([[2, 0x41, 0x42]], Reading [3, 0x41])" by code_simp
  then show ?thesis
    using on_read_refines [of "[[2, 0x41], [0x42, 3], [0x41]]" "[[2, 0x41, 0x42]]" "Reading [3, 0x41]" plain_codec]
    by auto
qed

text \<open>
  C24: packets whose frames fit the read buffer arrive whole, in order and once each, however the
  stream of their frames is cut into reads; nothing is left over and the connection stays up.
\<close>

theorem frames_delivered:
  assumes "list_all fits_buffer bodies" "concat chunks = concat (map frame bodies)" "[] \<notin> set chunks"
  shows "\<exists>c. receive cd chunks connection_start = Some c \<and> rs_jobs c = map frame bodies
    \<and> rs_rbuf c = [] \<and> rs_ftb c = [] \<and> \<not> rs_disconnect_req c"
proof -
  have "feed (concat chunks) (Reading []) = (map frame bodies, Reading [])"
    using feed_frames [OF assms(1)] assms(2) by simp
  from receive_feed [OF conn_stream_start assms(3) this, of cd] show ?thesis
    by (auto simp: conn_stream_def connection_start_def)
qed

theorem frames_delivered_witness:
  "\<exists>c. receive plain_codec [[3, 0], [0x41, 0x42, 1, 7]] connection_start = Some c
    \<and> rs_jobs c = [frame [0, 0x41, 0x42], frame [7]]"
proof -
  have "fits_buffer [0, 0x41, 0x42]" "fits_buffer [7]" "frame [0, 0x41, 0x42] = [3, 0, 0x41, 0x42]" "frame [7] = [1, 7]"
    by code_simp+
  then show ?thesis
    using frames_delivered [of "[[0, 0x41, 0x42], [7]]" "[[3, 0], [0x41, 0x42, 1, 7]]" plain_codec] by auto
qed

text \<open>
  C25: a client that announces 2147483647 bytes passes the room check, whose sum wraps to a
  negative number, and the bytes it sends next are copied past the end of the read buffer.
\<close>

theorem room_check_overflow:
  "on_read cd (connection_start\<lparr>cn_input := [0xFF, 0xFF, 0xFF, 0xFF, 0x07] @ replicate 508 b\<rparr>) = None"
proof -
  have rem: "mc17_remaining [0xFF] = Some 1" "mc17_remaining [0xFF, 0xFF] = Some 1"
    "mc17_remaining [0xFF, 0xFF, 0xFF] = Some 1" "mc17_remaining [0xFF, 0xFF, 0xFF, 0xFF] = Some 1"
    "mc17_remaining [0xFF, 0xFF, 0xFF, 0xFF, 0x07] = Some 2147483647" by code_simp+
  have wrap: "sint (of_nat 5 + word_of_int 2147483647 :: u32) < 0" by simp
  have step: "read_loop d c = read_loop d (c\<lparr>rs_rbuf := rs_rbuf c @ [x], rs_ftb := xs\<rparr>)"
    if "mc17_remaining (rs_rbuf c) = Some 1" "rs_ftb c = x # xs" "length (rs_rbuf c) \<le> 5" for d c x xs
    using that read_step_pending [of c 1 d]
    by (subst read_loop.simps) (simp add: pending_def READ_BUFFER_SIZE_def)
  let ?c = "connection_start\<lparr>rs_rbuf := [0xFF, 0xFF, 0xFF, 0xFF, 0x07], rs_ftb := replicate 508 b\<rparr>"
  have header: "read_loop d (connection_start\<lparr>rs_ftb := [0xFF, 0xFF, 0xFF, 0xFF, 0x07] @ replicate 508 b\<rparr>) = read_loop d ?c" for d
    by (simp add: step rem connection_start_def)
  have overrun: "read_step d ?c = None" for d
    using wrap by (simp add: read_step_def rem READ_BUFFER_SIZE_def)
  have "read_loop d ?c = None" for d by (subst read_loop.simps) (simp only: overrun option.case)
  then have lost: "read_loop d (connection_start\<lparr>rs_ftb := [0xFF, 0xFF, 0xFF, 0xFF, 0x07] @ replicate 508 b\<rparr>) = None" for d
    by (simp only: header)
  have "on_read cd (connection_start\<lparr>cn_input := [0xFF, 0xFF, 0xFF, 0xFF, 0x07] @ replicate 508 b\<rparr>)
    = read_loop Infer_packet_delimiter (connection_start\<lparr>rs_ftb := [0xFF, 0xFF, 0xFF, 0xFF, 0x07] @ replicate 508 b\<rparr>)"
    by (simp add: on_read_def apply_in_transformations_def connection_start_def infer_proto_def protocol_make_def)
  then show ?thesis by (rule trans [OF _ lost])
qed

subsection \<open>Sending\<close>

text \<open>The output buffer drains to the socket, then the write callback runs.\<close>

definition drained :: "'k connection \<Rightarrow> 'k connection" where
  "drained c = on_write (c\<lparr>cn_wire := cn_wire c @ cn_out c, cn_out := []\<rparr>)"

text \<open>
  The connection together with the list of the packets it has accepted: every interleaving of
  the calls of \<open>send\<close>, of \<open>disconnect\<close> and of the callbacks.
\<close>

definition accepted :: "'k connection \<Rightarrow> 'k connection \<Rightarrow> packet_container list" where
  "accepted c c' = drop (length (cn_outq c)) (cn_outq c')"

inductive conn_reach :: "'k codec \<Rightarrow> packet_container list \<Rightarrow> 'k connection \<Rightarrow> bool" for cd where
  start: "conn_reach cd [] connection_start"
| send: "conn_reach cd ps c \<Longrightarrow> send cd p f c = Some c' \<Longrightarrow> conn_reach cd (ps @ accepted c c') c'"
| read: "conn_reach cd ps c \<Longrightarrow> \<not> cn_disconnected c \<Longrightarrow> on_read cd (c\<lparr>cn_input := bs\<rparr>) = Some c' \<Longrightarrow> conn_reach cd ps c'"
| drain: "conn_reach cd ps c \<Longrightarrow> \<not> cn_disconnected c \<Longrightarrow> conn_reach cd ps (drained c)"
| time: "conn_reach cd ps c \<Longrightarrow> cn_timer c \<Longrightarrow> conn_reach cd ps (on_time c)"
| event: "conn_reach cd ps c \<Longrightarrow> conn_reach cd ps (on_event c)"
| disconnect: "conn_reach cd ps c \<Longrightarrow> conn_reach cd ps (conn_disconnect c)"
| protocol: "conn_reach cd ps c \<Longrightarrow> conn_reach cd ps (set_protocol proto c)"

definition data_of :: "packet_container list \<Rightarrow> byte list" where
  "data_of ps = concat (map (\<lambda>x. pk_contents (pc_pack x)) ps)"

definition flagged :: "packet_container \<Rightarrow> bool" where
  "flagged x \<longleftrightarrow> pc_flags x AND CONN_SEND_DISCONNECT \<noteq> 0"

lemma data_of_simps [simp]: "data_of [] = []" "data_of (x # ps) = pk_contents (pc_pack x) @ data_of ps"
  "data_of (ps @ qs) = data_of ps @ data_of qs"
  by (simp_all add: data_of_def)

text \<open>
  What has been written is the packets sent and, unless the front packet still waits for the
  timer, the front packet. Only the last packet of the queue can ask for the disconnection.
\<close>

definition written ::
  "packet_container list \<Rightarrow> packet_container list \<Rightarrow> packet_container option \<Rightarrow> byte list \<Rightarrow> byte list \<Rightarrow> bool" where
  "written ps q init wire out \<longleftrightarrow> (\<exists>sent. ps = sent @ q \<and> (case q of
     [] \<Rightarrow> init = None \<and> out = [] \<and> wire = data_of sent
   | x # _ \<Rightarrow> (init = None \<and> wire @ out = data_of sent @ pk_contents (pc_pack x))
       \<or> (init = Some x \<and> out = [] \<and> wire = data_of sent)))"

definition flags_ok :: "packet_container list \<Rightarrow> bool \<Rightarrow> bool \<Rightarrow> bool" where
  "flags_ok q can req \<longleftrightarrow> list_all (\<lambda>x. \<not> flagged x) (butlast q) \<and> (q \<noteq> [] \<and> flagged (last q) \<longrightarrow> \<not> can)
     \<and> (\<not> can \<and> \<not> req \<longrightarrow> q \<noteq> [] \<and> flagged (last q))"

definition ids_ok :: "packet_container list \<Rightarrow> nat \<Rightarrow> bool" where
  "ids_ok ps n \<longleftrightarrow> distinct (map pc_id ps) \<and> (\<forall>x \<in> set ps. pc_id x < n)"

definition conn_ok :: "packet_container list \<Rightarrow> 'k connection \<Rightarrow> bool" where
  "conn_ok ps c \<longleftrightarrow> (if cn_disconnected c
     then rs_disconnect_req c \<and> \<not> cn_timer c \<and> (\<exists>k. cn_wire c @ cn_out c = data_of (take k ps))
     else written ps (cn_outq c) (cn_init_pack c) (cn_wire c) (cn_out c)
       \<and> flags_ok (cn_outq c) (cn_can_send c) (rs_disconnect_req c) \<and> ids_ok ps (cn_next_packet_id c))"

lemma written_prefix: "written ps q init wire out \<Longrightarrow> \<exists>k. wire @ out = data_of (take k ps)"
proof -
  assume "written ps q init wire out"
  then obtain sent where s: "ps = sent @ q" "(case q of
     [] \<Rightarrow> init = None \<and> out = [] \<and> wire = data_of sent
   | x # _ \<Rightarrow> (init = None \<and> wire @ out = data_of sent @ pk_contents (pc_pack x))
       \<or> (init = Some x \<and> out = [] \<and> wire = data_of sent))" unfolding written_def by blast
  then consider "wire @ out = data_of sent" | x r where "q = x # r" "wire @ out = data_of sent @ pk_contents (pc_pack x)"
    by (auto split: list.splits)
  then show ?thesis
  proof cases
    case 1
    then show ?thesis using s(1) by (intro exI [of _ "length sent"]) simp
  next
    case 2
    then show ?thesis using s(1) by (intro exI [of _ "Suc (length sent)"]) simp
  qed
qed

lemma written_send:
  "written ps q init wire out \<Longrightarrow> written (ps @ [x]) (q @ [x]) (if q = [] then Some x else init) wire out"
  by (cases q) (auto simp: written_def)

lemma written_drain: "written ps q init wire out \<Longrightarrow> written ps q init (wire @ out) []"
  by (cases q) (auto simp: written_def)

lemma written_time: "written ps q (Some x) wire out \<Longrightarrow> written ps q None wire (out @ pk_contents (pc_pack x))"
  by (cases q) (auto simp: written_def)

lemma written_pop:
  "written ps (x # q) None wire [] \<Longrightarrow>
   written ps q None wire (case q of [] \<Rightarrow> [] | y # _ \<Rightarrow> pk_contents (pc_pack y))"
  unfolding written_def by (cases q) (auto intro: exI [of _ "_ @ [x]"])

lemma written_init: "written ps (x # q) (Some y) wire out \<Longrightarrow> y = x"
  by (auto simp: written_def)

lemma written_all: "written ps [] init wire out \<Longrightarrow> wire = data_of ps \<and> out = [] \<and> init = None"
  by (auto simp: written_def)

lemma conn_ok_cong:
  assumes "conn_ok ps c" "cn_outq c' = cn_outq c" "cn_init_pack c' = cn_init_pack c" "cn_can_send c' = cn_can_send c"
    "cn_out c' = cn_out c" "cn_wire c' = cn_wire c" "cn_disconnected c' = cn_disconnected c"
    "cn_next_packet_id c' = cn_next_packet_id c" "rs_disconnect_req c \<Longrightarrow> rs_disconnect_req c'" "cn_timer c' = cn_timer c"
  shows "conn_ok ps c'"
  using assms unfolding conn_ok_def by (auto simp: flags_ok_def)

text \<open>Writing: the drained front packet is popped.\<close>

lemma conn_ok_drained:
  assumes "conn_ok ps c" "\<not> cn_disconnected c" shows "conn_ok ps (drained c)"
proof -
  let ?c = "c\<lparr>cn_wire := cn_wire c @ cn_out c, cn_out := []\<rparr>"
  have w: "written ps (cn_outq c) (cn_init_pack c) (cn_wire c @ cn_out c) []"
    and f: "flags_ok (cn_outq c) (cn_can_send c) (rs_disconnect_req c)" and i: "ids_ok ps (cn_next_packet_id c)"
    using assms written_drain by (auto simp: conn_ok_def)
  have ok: "conn_ok ps ?c" using w f i assms(2) by (simp add: conn_ok_def)
  show ?thesis
  proof (cases "cn_outq c")
    case Nil
    then show ?thesis using ok by (simp add: drained_def on_write_def)
  next
    case (Cons x q)
    show ?thesis
    proof (cases "cn_init_pack c")
      case (Some y)
      then have "y = x" using w Cons written_init by metis
      then show ?thesis using ok Cons Some by (simp add: drained_def on_write_def)
    next
      case None
      note p = written_pop [OF w [unfolded Cons None]]
      show ?thesis
      proof (cases "flagged x")
        case True
        then have "q = []" using f Cons by (cases q) (auto simp: flags_ok_def)
        then show ?thesis using p f i True Cons None assms(2)
          by (simp add: drained_def on_write_def conn_disconnect_def flagged_def conn_ok_def flags_ok_def)
      next
        case False
        then show ?thesis using p f i Cons None assms(2)
          by (cases q) (auto simp: drained_def on_write_def flagged_def conn_ok_def flags_ok_def)
      qed
    qed
  qed
qed

text \<open>Reading leaves the sending side alone.\<close>

definition same_out :: "'k connection \<Rightarrow> 'k connection \<Rightarrow> bool" where
  "same_out c c' \<longleftrightarrow> cn_outq c' = cn_outq c \<and> cn_init_pack c' = cn_init_pack c \<and> cn_can_send c' = cn_can_send c
     \<and> cn_out c' = cn_out c \<and> cn_wire c' = cn_wire c \<and> cn_disconnected c' = cn_disconnected c
     \<and> cn_next_packet_id c' = cn_next_packet_id c \<and> cn_timer c' = cn_timer c
     \<and> (rs_disconnect_req c \<longrightarrow> rs_disconnect_req c')"

lemma same_out_ok: "same_out c c' \<Longrightarrow> conn_ok ps c \<Longrightarrow> conn_ok ps c'"
  unfolding same_out_def by (erule conn_ok_cong) simp_all

lemma same_out_refl [simp]: "same_out c c" by (simp add: same_out_def)

lemma same_out_trans: "same_out a b \<Longrightarrow> same_out b c \<Longrightarrow> same_out a c"
  by (simp add: same_out_def)

lemma read_loop_same_out:
  fixes c :: "'k connection" shows "read_loop d c = Some c' \<Longrightarrow> same_out c c'"
proof (induction d c rule: read_loop.induct)
  case (1 d c)
  from "1.prems" obtain go c1 where s: "read_step d c = Some (go, c1)"
    by (subst (asm) read_loop.simps) (auto split: option.splits)
  have "same_out c c1" using s
    by (auto simp: read_step_def Let_def same_out_def split: option.splits if_splits)
  moreover have "same_out c1 c'"
  proof (cases go)
    case True
    then have "read_loop d c1 = Some c'" using "1.prems" s by (subst (asm) read_loop.simps) simp
    then show ?thesis using "1.IH" [OF s refl True] by simp
  next
    case False
    then show ?thesis using "1.prems" s by (subst (asm) read_loop.simps) simp
  qed
  ultimately show ?case by (rule same_out_trans)
qed

lemma buffers_same_out [simp]:
  "same_out c (tb_put i bs c')  = same_out c c'" "same_out c (buf_clear b c') = same_out c c'"
  "same_out c (put_next i bs c') = same_out c c'" "same_out c (set_transformer i tr c') = same_out c c'"
  "same_out c (c'\<lparr>rs_disconnect_req := True\<rparr>) \<longleftrightarrow> same_out c (c'\<lparr>rs_disconnect_req := True\<rparr>)"
  by (auto simp: same_out_def tb_put_def put_next_def set_transformer_def split: option.splits)
     (cases b; simp)+

lemma same_out_req: "same_out c c' \<Longrightarrow> same_out c (c'\<lparr>rs_disconnect_req := True\<rparr>)"
  by (simp add: same_out_def)

lemma apply_in_loop_same_out: "apply_in_loop cd n b c = Some c' \<Longrightarrow> same_out c c'"
proof (induction n arbitrary: b c)
  case (Suc i)
  let ?f = "cn_tbs c ! i @ buf_get b c" and ?c = "tb_put i [] (buf_clear b c)"
  have g: "\<not> (i \<ge> length (cn_tbs c) \<or> i \<ge> length (transformers c))" using Suc.prems by (auto split: if_splits)
  note run = Suc.prems [unfolded apply_in_loop.simps Let_def if_not_P [OF g]]
  show ?case
  proof (cases "tr_on (transformers c ! i)")
    case False
    then show ?thesis using Suc.IH [of b c] run by simp
  next
    case True
    obtain res where r: "tr_in_enough (transformers c ! i) ?f = Some res"
      using run True by (cases "tr_in_enough (transformers c ! i) ?f") auto
    consider "res = -1" | "res \<noteq> -1" "res \<noteq> 1" | "res = 1" by blast
    then show ?thesis
    proof cases
      case 1
      then show ?thesis using run True r same_out_req [of c ?c] by simp
    next
      case 2
      then have "c' = tb_put i ?f ?c" using run True r by simp
      then show ?thesis by (simp only: buffers_same_out same_out_refl)
    next
      case 3
      obtain to' n tr' where t: "tr_in cd (transformers c ! i) ?f = Some (to', n, tr')"
        using run True r 3 by (cases "tr_in cd (transformers c ! i) ?f") auto
      let ?c2 = "tb_put i (drop n ?f) (put_next i to' (set_transformer i tr' ?c))"
      have "apply_in_loop cd i (Tb i) ?c2 = Some c'" using run True r 3 t by simp
      then have "same_out ?c2 c'" by (rule Suc.IH)
      moreover have "same_out c ?c2" by (simp only: buffers_same_out same_out_refl)
      ultimately show ?thesis by (rule same_out_trans [rotated])
    qed
  qed
qed simp

lemma apply_in_same_out: "apply_in_transformations cd c = Some c' \<Longrightarrow> same_out c c'"
proof (cases "list_ex tr_on (transformers c)")
  case True
  then show "apply_in_transformations cd c = Some c' \<Longrightarrow> same_out c c'"
    using apply_in_loop_same_out by (simp add: apply_in_transformations_def)
qed (auto simp: apply_in_transformations_def same_out_def)

lemma on_read_same_out:
  assumes "on_read cd (c\<lparr>cn_input := bs\<rparr>) = Some c'" shows "same_out c c'"
proof -
  have i: "same_out c (c\<lparr>cn_input := bs\<rparr>)" by (simp add: same_out_def)
  have "same_out (c\<lparr>cn_input := bs\<rparr>) c'"
  proof (cases "bs = []")
    case True
    then show ?thesis using assms by (auto simp: on_read_def conn_disconnect_def same_out_def)
  next
    case False
    with assms obtain c1 where c1: "apply_in_transformations cd (c\<lparr>cn_input := bs\<rparr>) = Some c1"
      "read_loop (pt_delim (cn_proto c1)) c1 = Some c'"
      by (auto simp: on_read_def split: option.splits)
    have "same_out (c\<lparr>cn_input := bs\<rparr>) c1" by (rule apply_in_same_out [OF c1(1)])
    then show ?thesis using read_loop_same_out [OF c1(2)] same_out_trans by blast
  qed
  with i show ?thesis by (rule same_out_trans)
qed

text \<open>Sending appends one container, or drops the packet.\<close>

lemma apply_out_same_out: "apply_out_transformations cd p c = Some (p', c') \<Longrightarrow> same_out c c'"
  by (auto simp: apply_out_transformations_def same_out_def Let_def split: if_splits option.splits prod.splits)

lemma send_cases:
  assumes "send cd p f c = Some c'"
  obtains (refused) "c' = c" "\<not> cn_can_send c \<or> cn_disconnected c \<or> rs_disconnect_req c"
  | (queued) x where "cn_can_send c" "\<not> cn_disconnected c" "\<not> rs_disconnect_req c"
      "pc_id x = cn_next_packet_id c" "pc_flags x = f" "cn_outq c' = cn_outq c @ [x]"
      "cn_next_packet_id c' = Suc (cn_next_packet_id c)" "cn_can_send c' \<longleftrightarrow> \<not> flagged x"
      "cn_init_pack c' = (if cn_outq c = [] then Some x else cn_init_pack c)"
      "cn_wire c' = cn_wire c" "cn_out c' = cn_out c" "\<not> cn_disconnected c'" "\<not> rs_disconnect_req c'"
proof (cases "\<not> cn_can_send c \<or> cn_disconnected c \<or> rs_disconnect_req c")
  case True
  then show thesis using assms refused by (simp add: send_def)
next
  case False
  let ?c = "c\<lparr>cn_next_packet_id := cn_next_packet_id c + 1\<rparr>"
  from assms False obtain p1 c1 where a: "apply_out_transformations cd p ?c = Some (p1, c1)"
    by (auto simp: send_def Let_def split: option.splits)
  then have so: "same_out ?c c1" by (rule apply_out_same_out)
  have rq: "rs_disconnect_req c1 = rs_disconnect_req c"
    using a by (auto simp: apply_out_transformations_def Let_def split: if_splits option.splits prod.splits)
  let ?x = "\<lparr>pc_id = cn_next_packet_id c, pc_pack = p1, pc_flags = f\<rparr>"
  show thesis
    by (rule queued [of ?x])
       (use assms a False so rq in \<open>auto simp: send_def Let_def same_out_def flagged_def split: if_splits\<close>)
qed

lemma conn_ok_send:
  assumes "conn_ok ps c" "send cd p f c = Some c'" shows "conn_ok (ps @ accepted c c') c'"
  using assms(2)
proof (cases rule: send_cases)
  case refused
  then show ?thesis using assms(1) by (simp add: accepted_def)
next
  case (queued x)
  have "accepted c c' = [x]" using queued by (simp add: accepted_def)
  moreover have "written (ps @ [x]) (cn_outq c @ [x]) (cn_init_pack c') (cn_wire c') (cn_out c')"
    using assms(1) queued written_send [of ps "cn_outq c"] by (auto simp: conn_ok_def)
  moreover have "flags_ok (cn_outq c @ [x]) (cn_can_send c') (rs_disconnect_req c')"
  proof -
    have f: "flags_ok (cn_outq c) True False" using assms(1) queued(1-3) by (simp add: conn_ok_def)
    then have "list_all (\<lambda>y. \<not> flagged y) (cn_outq c)"
      by (cases "cn_outq c" rule: rev_cases) (auto simp: flags_ok_def)
    then show ?thesis using queued by (auto simp: flags_ok_def)
  qed
  moreover have "ids_ok (ps @ [x]) (cn_next_packet_id c')"
    using assms(1) queued by (auto simp: conn_ok_def ids_ok_def)
  ultimately show ?thesis using queued by (simp add: conn_ok_def)
qed

lemma conn_ok_time:
  assumes "conn_ok ps c" "\<not> cn_disconnected c" shows "conn_ok ps (on_time c)"
proof (cases "rs_disconnect_req c")
  case True
  then show ?thesis using assms written_prefix
    by (auto simp: on_time_def disconnect_now_def conn_ok_def)
next
  case False
  then show ?thesis using assms written_time [of ps "cn_outq c"]
    by (cases "cn_init_pack c") (auto simp: on_time_def conn_ok_def)
qed

lemma conn_reach_ok: "conn_reach cd ps c \<Longrightarrow> conn_ok ps c"
proof (induction rule: conn_reach.induct)
  case start
  show ?case by (simp add: conn_ok_def connection_start_def written_def flags_ok_def ids_ok_def)
next
  case (send ps c p f c')
  then show ?case by (intro conn_ok_send)
next
  case (read ps c bs c')
  then show ?case using on_read_same_out same_out_ok by blast
next
  case (drain ps c)
  then show ?case by (intro conn_ok_drained)
next
  case (time ps c)
  then show ?case by (intro conn_ok_time) (auto simp: conn_ok_def)
next
  case (event ps c)
  show ?case by (rule conn_ok_cong [OF event.IH]) (simp_all add: on_event_def conn_disconnect_def)
next
  case (disconnect ps c)
  show ?case by (rule conn_ok_cong [OF disconnect.IH]) (simp_all add: conn_disconnect_def)
next
  case (protocol ps c proto)
  show ?case by (rule conn_ok_cong [OF protocol.IH]) (simp_all add: set_protocol_def)
qed

text \<open>
  C26: in every interleaving of calls and callbacks, what has been handed to the socket is the
  data of a prefix of the packets accepted by \<open>send\<close>, whole packets in the order of the calls,
  none twice and none skipped; and once the queue of a live connection is empty, all of it is
  on the wire.
\<close>

theorem connection_fifo:
  assumes "conn_reach cd ps c"
  shows "(\<exists>k. cn_wire c @ cn_out c = data_of (take k ps))
    \<and> (\<not> cn_disconnected c \<longrightarrow> cn_outq c = [] \<longrightarrow> cn_wire c = data_of ps)"
proof
  have ok: "conn_ok ps c" using assms by (rule conn_reach_ok)
  then show "\<exists>k. cn_wire c @ cn_out c = data_of (take k ps)"
    using written_prefix by (auto simp: conn_ok_def split: if_splits)
  show "\<not> cn_disconnected c \<longrightarrow> cn_outq c = [] \<longrightarrow> cn_wire c = data_of ps"
    using ok written_all by (auto simp: conn_ok_def)
qed

text \<open>A connection that was told to say goodbye in one packet.\<close>

definition goodbye :: packet where "goodbye = the (pk_put_byte 7 packet_new)"

definition goodbye_cont :: packet_container where
  "goodbye_cont = \<lparr>pc_id = 1, pc_pack = goodbye, pc_flags = CONN_SEND_DISCONNECT\<rparr>"

definition goodbye_sent :: "nat connection" where
  "goodbye_sent = connection_start\<lparr>cn_next_packet_id := 2, cn_can_send := False,
     cn_outq := [goodbye_cont], cn_init_pack := Some goodbye_cont\<rparr>"

lemma goodbye_reach: "conn_reach plain_codec [goodbye_cont] goodbye_sent"
proof -
  have s: "send plain_codec goodbye CONN_SEND_DISCONNECT connection_start = Some goodbye_sent"
    by (simp add: send_def Let_def apply_out_transformations_def connection_start_def goodbye_sent_def
        goodbye_cont_def infer_proto_def protocol_make_def CONN_SEND_DISCONNECT_def)
  have "accepted connection_start goodbye_sent = [goodbye_cont]"
    by (simp add: accepted_def goodbye_sent_def connection_start_def)
  with conn_reach.send [OF conn_reach.start s] show ?thesis by simp
qed

lemma goodbye_data: "data_of [goodbye_cont] = [7]"
proof -
  have n: "pk_len packet_new + 1 \<le> pk_limit" "pk_contents packet_new = []"
    by (simp_all add: packet_new_def packet_init_def pk_limit_def pk_contents_def)
  obtain q where "pk_put_byte 7 packet_new = Some q" "pk_contents q = pk_contents packet_new @ [7]"
    using emitsD [OF emits_fixed(2) at_end_new n(1)] by blast
  then show ?thesis by (simp add: goodbye_cont_def goodbye_def n(2))
qed

theorem connection_fifo_witness:
  "\<exists>k. cn_wire (on_time goodbye_sent) @ cn_out (on_time goodbye_sent) = data_of (take k [goodbye_cont])"
proof -
  have "cn_timer goodbye_sent" by (simp add: goodbye_sent_def connection_start_def)
  from connection_fifo [OF conn_reach.time [OF goodbye_reach this]] show ?thesis by (rule conjunct1)
qed

lemma drained_Cons:
  assumes "cn_outq c = x # q" "cn_init_pack c = None"
  shows "drained c = (if flagged x
     then c\<lparr>cn_wire := cn_wire c @ cn_out c, cn_out := [], cn_outq := q, rs_disconnect_req := True\<rparr>
     else c\<lparr>cn_wire := cn_wire c @ cn_out c, cn_outq := q,
            cn_out := (case q of [] \<Rightarrow> [] | y # _ \<Rightarrow> pk_contents (pc_pack y))\<rparr>)"
  using assms by (cases q) (simp_all add: drained_def on_write_def conn_disconnect_def flagged_def Let_def)

lemma drained_pops:
  assumes "cn_outq c = x # q" "cn_init_pack c = None" "\<not> cn_disconnected c"
  shows "cn_outq (drained c) = q" "cn_init_pack (drained c) = None" "\<not> cn_disconnected (drained c)"
    "cn_can_send (drained c) = cn_can_send c" "rs_disconnect_req (drained c) \<longleftrightarrow> rs_disconnect_req c \<or> flagged x"
  using assms(2,3) by (cases "flagged x"; simp add: drained_Cons [OF assms(1,2)])+

lemma drain_all:
  assumes "conn_ok ps c" "\<not> cn_disconnected c" "cn_init_pack c = None" "rs_disconnect_req c \<longrightarrow> \<not> cn_can_send c"
  shows "let c' = (drained ^^ length (cn_outq c)) c in conn_ok ps c' \<and> \<not> cn_disconnected c' \<and> cn_outq c' = []
    \<and> cn_can_send c' = cn_can_send c \<and> (rs_disconnect_req c' \<longrightarrow> \<not> cn_can_send c')"
  using assms
proof (induction "cn_outq c" arbitrary: c)
  case (Cons x q)
  note pop = drained_pops [OF Cons.hyps(2) [symmetric] Cons.prems(3,2)]
  have ok: "conn_ok ps (drained c)" by (rule conn_ok_drained [OF Cons.prems(1,2)])
  have "flagged x \<Longrightarrow> \<not> cn_can_send c"
    using Cons.prems(1,2) Cons.hyps(2) [symmetric] by (cases q) (auto simp: conn_ok_def flags_ok_def)
  then have "rs_disconnect_req (drained c) \<longrightarrow> \<not> cn_can_send (drained c)"
    using pop Cons.prems(4) by auto
  note IH = Cons.hyps(1) [OF pop(1) [symmetric] ok pop(3,2) this]
  have "(drained ^^ length (cn_outq c)) c = (drained ^^ length (cn_outq (drained c))) (drained c)"
    unfolding Cons.hyps(2) [symmetric] pop(1) by (simp add: funpow_swap1)
  then show ?case using IH pop(4) by simp
qed simp

text \<open>
  C27: a live connection with no disconnection asked for delivers: after one tick of the timer
  and as many drained writes as packets are queued, exactly the accepted packets are on the
  wire. If the last of them asks for a disconnection, the next tick disconnects, after the
  packet has gone out; otherwise the connection stays up.
\<close>

theorem connection_delivers:
  assumes "conn_reach cd ps c" "\<not> cn_disconnected c" "\<not> rs_disconnect_req c"
  shows "let c' = (drained ^^ length (cn_outq c)) (on_time c) in
    cn_wire c' = data_of ps \<and> cn_outq c' = [] \<and> \<not> cn_disconnected c'
    \<and> (cn_disconnected (on_time c') \<longleftrightarrow> \<not> cn_can_send c)"
proof -
  have ok: "conn_ok ps c" by (rule conn_reach_ok [OF assms(1)])
  have t: "cn_outq (on_time c) = cn_outq c" "cn_init_pack (on_time c) = None" "\<not> cn_disconnected (on_time c)"
    "cn_can_send (on_time c) = cn_can_send c" "\<not> rs_disconnect_req (on_time c)"
    using assms(2,3) by (auto simp: on_time_def split: option.splits)
  define c' where "c' = (drained ^^ length (cn_outq c)) (on_time c)"
  have d: "conn_ok ps c'" "\<not> cn_disconnected c'" "cn_outq c' = []" "cn_can_send c' = cn_can_send c"
    "rs_disconnect_req c' \<longrightarrow> \<not> cn_can_send c'"
    using drain_all [OF conn_ok_time [OF ok assms(2)] t(3,2)] t unfolding c'_def by (auto simp: Let_def)
  then have "cn_wire c' = data_of ps" using written_all by (auto simp: conn_ok_def)
  moreover have "rs_disconnect_req c' \<longleftrightarrow> \<not> cn_can_send c"
    using d by (auto simp: conn_ok_def flags_ok_def)
  then have "cn_disconnected (on_time c') \<longleftrightarrow> \<not> cn_can_send c"
    using d(2) by (auto simp: on_time_def disconnect_now_def split: option.splits)
  ultimately show ?thesis using d(2,3) by (simp add: c'_def [symmetric])
qed

theorem connection_delivers_witness:
  "cn_wire (drained (on_time goodbye_sent)) = [7] \<and> cn_disconnected (on_time (drained (on_time goodbye_sent)))"
proof -
  have g: "\<not> cn_disconnected goodbye_sent" "\<not> rs_disconnect_req goodbye_sent" "length (cn_outq goodbye_sent) = 1"
    "\<not> cn_can_send goodbye_sent"
    by (simp_all add: goodbye_sent_def connection_start_def)
  from connection_delivers [OF goodbye_reach g(1,2)] g(3,4) show ?thesis
    using goodbye_data by (simp add: Let_def)
qed

end
