(* ===== verification/Thread_Pool.thy ===== *)
theory Thread_Pool
  imports Hc_Prelude "HOL-Library.Sublist" "HOL-Library.Multiset"
begin

text \<open>
  \<open>class thread_pool\<close> (\<open>src/util/thread_pool.cpp\<close>) and the counters of
  \<open>include/util/refc.hpp\<close>. The steps are the critical sections of the code: an operation of a
  client, a worker that takes the front job, the run of its function, and what \<open>seq_wrapper\<close>
  does after it. A job function is an opaque value; running it appends it to the log. A sequence
  class is known by a number, whose absence is a freed class.
\<close>

subsection \<open>State\<close>

record 'j job =
  jb_fn :: 'j
  jb_refc :: "nat option"

datatype 'j pool_job = Plain_job 'j "nat option" | Seq_wrapper nat 'j "nat option"

record 'j seq_class =
  sq_free :: bool
  sq_accepting :: bool
  sq_jobs :: "'j job list"

text \<open>\<open>After_fn\<close>: the function of a wrapper has returned, its critical section is to come.\<close>

datatype 'j worker = Idle | Before_fn "'j pool_job" | After_fn nat "nat option"

record 'j thread_pool =
  tp_running :: bool
  tp_accepting :: bool
  tp_jobs :: "'j pool_job list"
  tp_workers :: "'j worker list"
  tp_seqs :: "nat \<Rightarrow> 'j seq_class option"
  tp_refs :: "nat \<Rightarrow> int"
  tp_log :: "(nat option \<times> 'j) list"

definition thread_pool_new :: "'j thread_pool" where
  "thread_pool_new = \<lparr>tp_running = False, tp_accepting = False, tp_jobs = [], tp_workers = [],
     tp_seqs = Map.empty, tp_refs = (\<lambda>_. 0), tp_log = []\<rparr>"

definition pool_init :: "nat \<Rightarrow> 'j thread_pool \<Rightarrow> 'j thread_pool" where
  "pool_init n p = p\<lparr>tp_running := True, tp_accepting := True,
     tp_workers := tp_workers p @ replicate n Idle\<rparr>"

definition ref_add :: "int \<Rightarrow> nat option \<Rightarrow> 'j thread_pool \<Rightarrow> 'j thread_pool" where
  "ref_add d r p = (case r of None \<Rightarrow> p | Some r \<Rightarrow> p\<lparr>tp_refs := (tp_refs p)(r := tp_refs p r + d)\<rparr>)"

subsection \<open>Operations\<close>

text \<open>\<open>join\<close> stops the intake; the condition it waits for.\<close>

definition join_start :: "'j thread_pool \<Rightarrow> 'j thread_pool" where
  "join_start p = p\<lparr>tp_accepting := False\<rparr>"

definition join_returns :: "'j thread_pool \<Rightarrow> bool" where
  "join_returns p \<longleftrightarrow> tp_jobs p = []"

text \<open>\<open>stop\<close>: the workers end when they next look.\<close>

definition pool_stop :: "'j thread_pool \<Rightarrow> 'j thread_pool" where
  "pool_stop p = (if \<not> tp_running p then p else p\<lparr>tp_running := False\<rparr>)"

fun pj_refc :: "'j pool_job \<Rightarrow> nat option" where
  "pj_refc (Plain_job j r) = r"
| "pj_refc (Seq_wrapper s j r) = r"

definition enqueue :: "'j pool_job \<Rightarrow> 'j thread_pool \<Rightarrow> bool \<times> 'j thread_pool" where
  "enqueue j p = (if \<not> tp_accepting p then (False, p)
     else (True, ref_add 1 (pj_refc j) (p\<lparr>tp_jobs := tp_jobs p @ [j]\<rparr>)))"

definition create_seq :: "nat \<Rightarrow> 'j thread_pool \<Rightarrow> 'j thread_pool" where
  "create_seq s p = p\<lparr>tp_seqs := (tp_seqs p)(s \<mapsto> \<lparr>sq_free = True, sq_accepting = True, sq_jobs = []\<rparr>)\<rparr>"

definition put_seq :: "nat \<Rightarrow> 'j seq_class \<Rightarrow> 'j thread_pool \<Rightarrow> 'j thread_pool" where
  "put_seq s q p = p\<lparr>tp_seqs := (tp_seqs p)(s \<mapsto> q)\<rparr>"

text \<open>The jobs dropped are passed to the callback, which frees what they hold.\<close>

definition disable_seq :: "nat \<Rightarrow> 'j thread_pool \<Rightarrow> ('j list \<times> 'j thread_pool) option" where
  "disable_seq s p = (case tp_seqs p s of
     None \<Rightarrow> None
   | Some q \<Rightarrow> Some (map jb_fn (sq_jobs q),
       put_seq s (q\<lparr>sq_accepting := False, sq_free := True, sq_jobs := []\<rparr>) p))"

definition release_seq :: "nat \<Rightarrow> 'j thread_pool \<Rightarrow> ('j list \<times> 'j thread_pool) option" where
  "release_seq s p = (case disable_seq s p of
     None \<Rightarrow> None | Some (js, p) \<Rightarrow> Some (js, p\<lparr>tp_seqs := (tp_seqs p)(s := None)\<rparr>))"

definition stop_jobs :: "nat \<Rightarrow> ('j \<Rightarrow> bool) \<Rightarrow> 'j thread_pool \<Rightarrow> 'j thread_pool option" where
  "stop_jobs s cb p = (case tp_seqs p s of
     None \<Rightarrow> None
   | Some q \<Rightarrow> let q = q\<lparr>sq_jobs := filter (\<lambda>j. \<not> cb (jb_fn j)) (sq_jobs q)\<rparr>
       in Some (put_seq s (if sq_jobs q = [] then q\<lparr>sq_free := True\<rparr> else q) p))"

definition enqueue_seq :: "nat \<Rightarrow> 'j \<Rightarrow> nat option \<Rightarrow> 'j thread_pool \<Rightarrow> (bool \<times> 'j thread_pool) option" where
  "enqueue_seq s fn r p = (case tp_seqs p s of
     None \<Rightarrow> None
   | Some q \<Rightarrow>
       if \<not> sq_accepting q then Some (False, p)
       else if sq_free q then Some (enqueue (Seq_wrapper s fn r) (put_seq s (q\<lparr>sq_free := False\<rparr>) p))
       else Some (True, put_seq s (q\<lparr>sq_jobs := sq_jobs q @ [\<lparr>jb_fn = fn, jb_refc = r\<rparr>]\<rparr>) p))"

subsection \<open>Workers\<close>

definition worker_take :: "nat \<Rightarrow> 'j thread_pool \<Rightarrow> 'j thread_pool option" where
  "worker_take k p = (if k < length (tp_workers p) \<and> tp_workers p ! k = Idle \<and> tp_running p
     then (case tp_jobs p of [] \<Rightarrow> None
       | j # js \<Rightarrow> Some (p\<lparr>tp_jobs := js, tp_workers := (tp_workers p)[k := Before_fn j]\<rparr>))
     else None)"

definition worker_run :: "nat \<Rightarrow> 'j thread_pool \<Rightarrow> 'j thread_pool option" where
  "worker_run k p = (if k < length (tp_workers p) then (case tp_workers p ! k of
       Before_fn (Plain_job j r) \<Rightarrow>
         Some (ref_add (-1) r (p\<lparr>tp_log := tp_log p @ [(None, j)], tp_workers := (tp_workers p)[k := Idle]\<rparr>))
     | Before_fn (Seq_wrapper s j r) \<Rightarrow>
         Some (p\<lparr>tp_log := tp_log p @ [(Some s, j)], tp_workers := (tp_workers p)[k := After_fn s r]\<rparr>)
     | _ \<Rightarrow> None) else None)"

text \<open>
  The critical section of \<open>seq_wrapper\<close>: the next job of the sequence, if any, goes into the
  pool in the same context. The outer \<open>None\<close>: not this worker's step; the inner one: the
  sequence class has been freed.
\<close>

definition worker_next :: "nat \<Rightarrow> 'j thread_pool \<Rightarrow> 'j thread_pool option option" where
  "worker_next k p = (if k < length (tp_workers p) then (case tp_workers p ! k of
       After_fn s r \<Rightarrow> Some (case tp_seqs p s of
           None \<Rightarrow> None
         | Some q \<Rightarrow>
             let p = p\<lparr>tp_workers := (tp_workers p)[k := Idle]\<rparr>;
                 p = (case sq_jobs q of
                     [] \<Rightarrow> put_seq s (q\<lparr>sq_free := True\<rparr>) p
                   | j # js \<Rightarrow> snd (enqueue (Seq_wrapper s (jb_fn j) (jb_refc j)) (put_seq s (q\<lparr>sq_jobs := js\<rparr>) p)))
             in Some (ref_add (-1) r p))
     | _ \<Rightarrow> None) else None)"

subsection \<open>Runs\<close>

text \<open>
  The reachable states, each with the jobs its sequences have accepted, in order. Sequences are
  not released while they run: the owner's obligation.
\<close>

inductive pool_reach :: "(nat \<times> 'j) list \<Rightarrow> 'j thread_pool \<Rightarrow> bool" where
  init: "pool_reach [] (pool_init n thread_pool_new)"
| create: "pool_reach acc p \<Longrightarrow> s \<notin> fst ` set acc \<Longrightarrow> tp_seqs p s = None \<Longrightarrow> pool_reach acc (create_seq s p)"
| enqueue: "pool_reach acc p \<Longrightarrow> pool_reach acc (snd (enqueue (Plain_job j r) p))"
| enqueue_seq: "pool_reach acc p \<Longrightarrow> enqueue_seq s j r p = Some (ok, p') \<Longrightarrow>
    pool_reach (if ok then acc @ [(s, j)] else acc) p'"
| disable: "pool_reach acc p \<Longrightarrow> disable_seq s p = Some (js, p') \<Longrightarrow> pool_reach acc p'"
| take: "pool_reach acc p \<Longrightarrow> worker_take k p = Some p' \<Longrightarrow> pool_reach acc p'"
| run: "pool_reach acc p \<Longrightarrow> worker_run k p = Some p' \<Longrightarrow> pool_reach acc p'"
| continue: "pool_reach acc p \<Longrightarrow> worker_next k p = Some (Some p') \<Longrightarrow> pool_reach acc p'"
| join: "pool_reach acc p \<Longrightarrow> pool_reach acc (join_start p)"
| stop: "pool_reach acc p \<Longrightarrow> pool_reach acc (pool_stop p)"

text \<open>The jobs of a sequence that wait in the pool or at a worker, and the wrappers past theirs.\<close>

fun pj_of :: "nat \<Rightarrow> 'j pool_job \<Rightarrow> 'j list" where
  "pj_of s (Plain_job j r) = []"
| "pj_of s (Seq_wrapper s' j r) = (if s' = s then [j] else [])"

fun wk_of :: "nat \<Rightarrow> 'j worker \<Rightarrow> 'j list" where
  "wk_of s (Before_fn pj) = pj_of s pj"
| "wk_of s _ = []"

fun wk_after :: "nat \<Rightarrow> 'j worker \<Rightarrow> nat" where
  "wk_after s (After_fn s' r) = (if s' = s then 1 else 0)"
| "wk_after s _ = 0"

definition waiting :: "nat \<Rightarrow> 'j thread_pool \<Rightarrow> 'j list" where
  "waiting s p = concat (map (pj_of s) (tp_jobs p)) @ concat (map (wk_of s) (tp_workers p))"

definition after :: "nat \<Rightarrow> 'j thread_pool \<Rightarrow> nat" where
  "after s p = sum_list (map (wk_after s) (tp_workers p))"

definition log_of :: "nat \<Rightarrow> 'j thread_pool \<Rightarrow> 'j list" where
  "log_of s p = map snd (filter (\<lambda>(s', j). s' = Some s) (tp_log p))"

definition accepted_of :: "nat \<Rightarrow> (nat \<times> 'j) list \<Rightarrow> 'j list" where
  "accepted_of s acc = map snd (filter (\<lambda>(s', j). s' = s) acc)"

definition seq_jobs_of :: "nat \<Rightarrow> 'j thread_pool \<Rightarrow> 'j list" where
  "seq_jobs_of s p = (case tp_seqs p s of None \<Rightarrow> [] | Some q \<Rightarrow> map jb_fn (sq_jobs q))"

text \<open>At most one job of a sequence is on its way, and order is kept.\<close>

definition seq_ok :: "(nat \<times> 'j) list \<Rightarrow> nat \<Rightarrow> 'j thread_pool \<Rightarrow> bool" where
  "seq_ok acc s p \<longleftrightarrow>
     length (waiting s p) + after s p \<le> 1
     \<and> subseq (log_of s p @ waiting s p @ seq_jobs_of s p) (accepted_of s acc)
     \<and> (case tp_seqs p s of None \<Rightarrow> waiting s p = [] \<and> after s p = 0 \<and> s \<notin> fst ` set acc
        | Some q \<Rightarrow> sq_accepting q \<longrightarrow>
            (sq_free q \<longrightarrow> length (waiting s p) + after s p = 0 \<and> sq_jobs q = [])
            \<and> (tp_accepting p \<longrightarrow> log_of s p @ waiting s p @ seq_jobs_of s p = accepted_of s acc
                \<and> (\<not> sq_free q \<longrightarrow> length (waiting s p) + after s p = 1)))"

subsection \<open>Bookkeeping\<close>

lemma mset_list_update:
  "k < length ws \<Longrightarrow> mset (concat (map f (ws[k := w]))) + mset (f (ws ! k)) = mset (concat (map f ws)) + mset (f w)"
proof (induction ws arbitrary: k)
  case (Cons x ws)
  show ?case
  proof (cases k)
    case (Suc i)
    then show ?thesis using Cons.IH [of i] Cons.prems by (simp add: add.assoc)
  qed (simp add: ac_simps)
qed simp

lemma sum_list_update_nat:
  fixes g :: "'a \<Rightarrow> nat"
  shows "k < length ws \<Longrightarrow> sum_list (map g (ws[k := w])) + g (ws ! k) = sum_list (map g ws) + g w"
proof (induction ws arbitrary: k)
  case (Cons x ws)
  then show ?case by (cases k) (auto simp: ac_simps)
qed simp

lemma mset_short_eq: "mset xs = mset ys \<Longrightarrow> length xs \<le> 1 \<Longrightarrow> xs = ys"
proof -
  assume m: "mset xs = mset ys" and l: "length xs \<le> 1"
  from m have "length ys = length xs" by (metis size_mset)
  with l m show ?thesis by (cases xs; cases ys) auto
qed

lemma waiting_worker:
  assumes "k < length (tp_workers p)" "tp_jobs p' = tp_jobs p" "tp_workers p' = (tp_workers p)[k := w]"
  shows "mset (waiting s p') + mset (wk_of s (tp_workers p ! k)) = mset (waiting s p) + mset (wk_of s w)"
  using mset_list_update [OF assms(1), of "wk_of s" w] by (simp add: waiting_def assms(2,3) ac_simps)

lemma after_worker:
  assumes "k < length (tp_workers p)" "tp_workers p' = (tp_workers p)[k := w]"
  shows "after s p' + wk_after s (tp_workers p ! k) = after s p + wk_after s w"
  using sum_list_update_nat [OF assms(1), of "wk_after s" w] by (simp add: after_def assms(2))

text \<open>Operations that leave a sequence alone.\<close>

lemma seq_ok_cong:
  assumes "seq_ok acc s p" "mset (waiting s p') = mset (waiting s p)" "after s p' = after s p"
    "log_of s p' = log_of s p" "tp_seqs p' s = tp_seqs p s" "tp_accepting p' \<Longrightarrow> tp_accepting p"
    "accepted_of s acc' = accepted_of s acc" "s \<in> fst ` set acc' \<longleftrightarrow> s \<in> fst ` set acc"
  shows "seq_ok acc' s p'"
proof -
  have "waiting s p' = waiting s p"
    using mset_short_eq [OF assms(2) [symmetric]] assms(1) by (simp add: seq_ok_def)
  then show ?thesis using assms(1,3-8)
    unfolding seq_ok_def seq_jobs_of_def by (auto split: option.splits)
qed

lemma ref_add_simps [simp]:
  "tp_jobs (ref_add d r p) = tp_jobs p" "tp_workers (ref_add d r p) = tp_workers p" "tp_seqs (ref_add d r p) = tp_seqs p"
  "tp_accepting (ref_add d r p) = tp_accepting p" "tp_running (ref_add d r p) = tp_running p" "tp_log (ref_add d r p) = tp_log p"
  by (simp_all add: ref_add_def split: option.split)

lemma put_seq_simps [simp]:
  "tp_jobs (put_seq s q p) = tp_jobs p" "tp_workers (put_seq s q p) = tp_workers p"
  "tp_accepting (put_seq s q p) = tp_accepting p" "tp_log (put_seq s q p) = tp_log p"
  "tp_seqs (put_seq s q p) = (tp_seqs p)(s \<mapsto> q)"
  by (simp_all add: put_seq_def)

lemma ghost_simps [simp]:
  "waiting s (ref_add d r p) = waiting s p" "after s (ref_add d r p) = after s p" "log_of s (ref_add d r p) = log_of s p"
  "waiting s (put_seq s' q p) = waiting s p" "after s (put_seq s' q p) = after s p" "log_of s (put_seq s' q p) = log_of s p"
  "waiting s (p\<lparr>tp_jobs := js\<rparr>) = concat (map (pj_of s) js) @ concat (map (wk_of s) (tp_workers p))"
  "after s (p\<lparr>tp_jobs := js\<rparr>) = after s p" "log_of s (p\<lparr>tp_jobs := js\<rparr>) = log_of s p"
  by (simp_all add: waiting_def after_def log_of_def)

lemma enqueue_simps:
  "tp_accepting p \<Longrightarrow> enqueue j p = (True, ref_add 1 (pj_refc j) (p\<lparr>tp_jobs := tp_jobs p @ [j]\<rparr>))"
  "\<not> tp_accepting p \<Longrightarrow> enqueue j p = (False, p)"
  by (simp_all add: enqueue_def)

lemma waiting_enqueue: "mset (waiting s (p\<lparr>tp_jobs := tp_jobs p @ [j]\<rparr>)) = mset (waiting s p) + mset (pj_of s j)"
  by (simp add: waiting_def)

subsection \<open>Every step keeps the order\<close>

lemma seq_ok_alone:
  assumes "seq_ok acc s p" "tp_seqs p' s = tp_seqs p s" "tp_jobs p' = tp_jobs p" "tp_workers p' = tp_workers p"
    "tp_log p' = tp_log p" "tp_accepting p' \<Longrightarrow> tp_accepting p"
  shows "seq_ok acc s p'"
  by (rule seq_ok_cong [OF assms(1)]) (use assms in \<open>simp_all add: waiting_def after_def log_of_def\<close>)

lemma seq_ok_init: "seq_ok [] s (pool_init n thread_pool_new :: 'j thread_pool)"
proof -
  have "waiting s (pool_init n thread_pool_new :: 'j thread_pool) = []" "after s (pool_init n thread_pool_new :: 'j thread_pool) = 0"
    by (simp_all add: waiting_def after_def pool_init_def thread_pool_new_def sum_list_replicate concat_replicate_trivial)
  moreover have "tp_seqs (pool_init n thread_pool_new :: 'j thread_pool) s = None"
    "log_of s (pool_init n thread_pool_new :: 'j thread_pool) = []" "seq_jobs_of s (pool_init n thread_pool_new :: 'j thread_pool) = []"
    by (simp_all add: pool_init_def thread_pool_new_def log_of_def seq_jobs_of_def)
  ultimately show ?thesis by (simp add: seq_ok_def)
qed

lemma seq_ok_create:
  assumes "seq_ok acc s p" "tp_seqs p s' = None" shows "seq_ok acc s (create_seq s' p)"
proof (cases "s = s'")
  case True
  have n: "accepted_of s acc = []" using assms True by (auto simp: seq_ok_def accepted_of_def filter_empty_conv image_iff)
  then have l: "log_of s p = []" "accepted_of s acc = []" using assms True by (auto simp: seq_ok_def)
  have "waiting s (create_seq s' p) = waiting s p" "after s (create_seq s' p) = after s p" "log_of s (create_seq s' p) = log_of s p"
    by (simp_all add: create_seq_def waiting_def after_def log_of_def)
  then show ?thesis using assms True l
    by (simp add: seq_ok_def) (simp add: create_seq_def seq_jobs_of_def)
next
  case False
  then show ?thesis using assms by (intro seq_ok_alone [OF assms(1)]) (simp_all add: create_seq_def)
qed

lemma seq_ok_enqueue_other:
  assumes "seq_ok acc s p" "pj_of s j = []" shows "seq_ok acc s (snd (enqueue j p))"
proof (cases "tp_accepting p")
  case True
  show ?thesis
    by (rule seq_ok_cong [OF assms(1)])
       (use assms(2) in \<open>simp_all add: enqueue_simps(1) [OF True] waiting_enqueue\<close>, simp add: waiting_def)
qed (simp add: enqueue_simps assms(1))

lemma subseq_cut: "subseq (xs @ ys) zs \<Longrightarrow> subseq xs zs"
  using prefix_imp_subseq [of xs "xs @ ys"] subseq_order.trans by (simp add: prefix_def)

lemma seq_ok_disable:
  assumes "seq_ok acc s p" "disable_seq s' p = Some (js, p')" shows "seq_ok acc s p'"
proof -
  from assms(2) obtain q where q: "tp_seqs p s' = Some q" "p' = put_seq s' (q\<lparr>sq_accepting := False, sq_free := True, sq_jobs := []\<rparr>) p"
    by (auto simp: disable_seq_def split: option.splits)
  show ?thesis
  proof (cases "s = s'")
    case True
    have "subseq (log_of s p @ waiting s p) (accepted_of s acc)"
      using assms(1) subseq_cut [of "log_of s p @ waiting s p" "seq_jobs_of s p" "accepted_of s acc"] by (simp add: seq_ok_def)
    then show ?thesis using assms(1) q True by (simp add: seq_ok_def seq_jobs_of_def)
  next
    case False
    then show ?thesis using q by (intro seq_ok_alone [OF assms(1)]) simp_all
  qed
qed

lemma accepted_of_snoc [simp]: "accepted_of s (acc @ [(s', j)]) = accepted_of s acc @ (if s = s' then [j] else [])"
  by (simp add: accepted_of_def)

text \<open>A wrapper that enters the pool for a sequence that has none there.\<close>

lemma waiting_new:
  assumes "waiting s p = []" "tp_accepting p"
  shows "waiting s (snd (enqueue (Seq_wrapper s j r) p)) = [j]"
proof -
  have "mset (waiting s (snd (enqueue (Seq_wrapper s j r) p))) = mset [j]"
    using waiting_enqueue [of s p "Seq_wrapper s j r"] assms by (simp add: enqueue_simps)
  then show ?thesis using mset_short_eq [of "[j]"] by fastforce
qed

lemma enqueue_same:
  "after s (snd (enqueue j p)) = after s p" "log_of s (snd (enqueue j p)) = log_of s p"
  "tp_seqs (snd (enqueue j p)) = tp_seqs p" "tp_accepting (snd (enqueue j p)) = tp_accepting p"
  by (cases "tp_accepting p"; simp add: enqueue_simps)+

lemma seq_ok_enqueue_seq:
  assumes ok: "seq_ok acc s p" and e: "enqueue_seq s' j r p = Some (b, p')"
  shows "seq_ok (if b then acc @ [(s', j)] else acc) s p'"
proof -
  from e obtain q where q: "tp_seqs p s' = Some q" by (auto simp: enqueue_seq_def split: option.splits)
  consider (refused) "\<not> sq_accepting q" | (first) "sq_accepting q" "sq_free q" | (queued) "sq_accepting q" "\<not> sq_free q" by blast
  then show ?thesis
  proof cases
    case refused
    then show ?thesis using e q ok by (auto simp: enqueue_seq_def)
  next
    case first
    let ?p = "put_seq s' (q\<lparr>sq_free := False\<rparr>) p"
    have p': "b = fst (enqueue (Seq_wrapper s' j r) ?p)" "p' = snd (enqueue (Seq_wrapper s' j r) ?p)"
      using e q first by (simp_all add: enqueue_seq_def)
    show ?thesis
    proof (cases "s = s'")
      case same: True
      have idle: "waiting s p = []" "after s p = 0" "sq_jobs q = []"
        using ok same q first by (simp_all add: seq_ok_def)
      have free: "\<not> tp_accepting p \<Longrightarrow> seq_ok acc s ?p"
        using ok same q first idle by (auto simp: seq_ok_def seq_jobs_of_def)
      show ?thesis
      proof (cases "tp_accepting p")
        case True
        then have "b" by (simp add: p'(1) enqueue_simps)
        moreover have "waiting s p' = [j]" unfolding p'(2) same
          by (rule waiting_new) (use idle same True in simp_all)
        moreover have "log_of s p = accepted_of s acc"
          using ok same q first idle True by (auto simp: seq_ok_def seq_jobs_of_def)
        ultimately show ?thesis using same idle True
          by (simp add: seq_ok_def seq_jobs_of_def p'(2) enqueue_same)
      next
        case False
        then show ?thesis using free by (simp add: p' enqueue_simps)
      qed
    next
      case False
      have "seq_ok acc s ?p" by (rule seq_ok_alone [OF ok]) (use False in simp_all)
      then have "seq_ok acc s p'" unfolding p'(2) using False by (intro seq_ok_enqueue_other) simp_all
      then have "seq_ok (acc @ [(s', j)]) s p'" by (rule seq_ok_cong) (use False in simp_all)
      with \<open>seq_ok acc s p'\<close> show ?thesis by simp
    qed
  next
    case queued
    then have b: "b" and p': "p' = put_seq s' (q\<lparr>sq_jobs := sq_jobs q @ [\<lparr>jb_fn = j, jb_refc = r\<rparr>]\<rparr>) p"
      using e q by (simp_all add: enqueue_seq_def)
    show ?thesis
    proof (cases "s = s'")
      case True
      have "subseq ((log_of s p @ waiting s p @ seq_jobs_of s p) @ [j]) (accepted_of s acc @ [j])"
        using ok by (simp only: seq_ok_def subseq_append)
      then show ?thesis using ok b p' q queued True
        by (simp add: seq_ok_def seq_jobs_of_def)
    next
      case False
      have "seq_ok acc s p'" by (rule seq_ok_alone [OF ok]) (use False p' in simp_all)
      then have "seq_ok (acc @ [(s', j)]) s p'" by (rule seq_ok_cong) (use False in simp_all)
      then show ?thesis using b by simp
    qed
  qed
qed

lemma seq_ok_take:
  assumes "seq_ok acc s p" "worker_take k p = Some p'" shows "seq_ok acc s p'"
proof -
  from assms(2) obtain j js where k: "k < length (tp_workers p)" "tp_workers p ! k = Idle" "tp_jobs p = j # js"
    and p': "p' = p\<lparr>tp_jobs := js, tp_workers := (tp_workers p)[k := Before_fn j]\<rparr>"
    by (auto simp: worker_take_def split: if_splits list.splits)
  show ?thesis
  proof (rule seq_ok_cong [OF assms(1)])
    show "mset (waiting s p') = mset (waiting s p)"
      using mset_list_update [OF k(1), of "wk_of s" "Before_fn j"] k p' by (simp add: waiting_def)
    show "after s p' = after s p"
      using after_worker [OF k(1), of p' "Before_fn j" s] k p' by simp
  qed (simp_all add: p' log_of_def)
qed

lemma seq_ok_run:
  assumes ok: "seq_ok acc s p" and r: "worker_run k p = Some p'" shows "seq_ok acc s p'"
proof -
  have k: "k < length (tp_workers p)" using r by (simp add: worker_run_def split: if_splits)
  from r k consider (plain) j c where "tp_workers p ! k = Before_fn (Plain_job j c)"
      "p' = ref_add (-1) c (p\<lparr>tp_log := tp_log p @ [(None, j)], tp_workers := (tp_workers p)[k := Idle]\<rparr>)"
    | (seq) s' j c where "tp_workers p ! k = Before_fn (Seq_wrapper s' j c)"
      "p' = p\<lparr>tp_log := tp_log p @ [(Some s', j)], tp_workers := (tp_workers p)[k := After_fn s' c]\<rparr>"
    by (auto simp: worker_run_def split: worker.splits pool_job.splits)
  then show ?thesis
  proof cases
    case plain
    show ?thesis
    proof (rule seq_ok_cong [OF ok])
      show "mset (waiting s p') = mset (waiting s p)"
        using waiting_worker [OF k, of p' Idle s] plain by simp
      show "after s p' = after s p"
        using after_worker [OF k, of p' Idle s] plain by simp
    qed (simp_all add: plain(2), simp add: log_of_def)
  next
    case seq
    have w: "mset (waiting s p') + mset (if s' = s then [j] else []) = mset (waiting s p)"
      and a: "after s p' = after s p + (if s' = s then 1 else 0)"
      using waiting_worker [OF k, of p' "After_fn s' c" s] after_worker [OF k, of p' "After_fn s' c" s] seq by simp_all
    show ?thesis
    proof (cases "s' = s")
      case True
      then have "mset (waiting s p' @ [j]) = mset (waiting s p)" using w by simp
      then have "waiting s p = waiting s p' @ [j]"
        using mset_short_eq [of "waiting s p" "waiting s p' @ [j]"] ok by (simp add: seq_ok_def)
      then have w1: "waiting s p = [j]" "waiting s p' = []" using ok by (auto simp: seq_ok_def)
      moreover have "log_of s p' = log_of s p @ [j]" using seq(2) True by (simp add: log_of_def)
      ultimately show ?thesis using ok a True seq(2)
        by (simp add: seq_ok_def seq_jobs_of_def split: option.splits)
    next
      case False
      show ?thesis
        by (rule seq_ok_cong [OF ok]) (use w a False seq(2) in \<open>simp_all add: log_of_def\<close>)
    qed
  qed
qed

lemma seq_ok_next:
  assumes ok: "seq_ok acc s p" and n: "worker_next k p = Some (Some p')" shows "seq_ok acc s p'"
proof -
  from n obtain s' c q where k: "k < length (tp_workers p)" "tp_workers p ! k = After_fn s' c" "tp_seqs p s' = Some q"
    by (auto simp: worker_next_def Let_def split: if_splits worker.splits option.splits)
  let ?p = "p\<lparr>tp_workers := (tp_workers p)[k := Idle]\<rparr>"
  have w: "mset (waiting t ?p) = mset (waiting t p)"
    and a: "after t ?p + (if s' = t then 1 else 0) = after t p" for t
    using waiting_worker [OF k(1), of ?p Idle t] after_worker [OF k(1), of ?p Idle t] k(2) by simp_all
  have lg: "log_of t ?p = log_of t p" for t by (simp add: log_of_def)
  show ?thesis
  proof (cases "s = s'")
    case same: True
    have "length (waiting s p) + after s p \<le> 1" "after s ?p + 1 = after s p"
      using ok a [of s] same by (simp_all add: seq_ok_def)
    then have "after s p = 1" "length (waiting s p) = 0" "after s ?p = 0" by linarith+
    then have one: "after s p = 1" "waiting s p = []" "after s ?p = 0" by simp_all
    then have w0: "waiting s ?p = []" using w [of s] by simp
    show ?thesis
    proof (cases "sq_jobs q")
      case Nil
      then have "p' = ref_add (-1) c (put_seq s (q\<lparr>sq_free := True\<rparr>) ?p)"
        using n k same by (simp add: worker_next_def)
      then show ?thesis using ok one w0 lg k(3) same Nil
        by (simp add: seq_ok_def seq_jobs_of_def)
    next
      case (Cons j js)
      let ?p1 = "put_seq s (q\<lparr>sq_jobs := js\<rparr>) ?p"
      have p': "p' = ref_add (-1) c (snd (enqueue (Seq_wrapper s (jb_fn j) (jb_refc j)) ?p1))"
        using n k same Cons by (simp add: worker_next_def Let_def)
      have sub: "subseq (log_of s p @ jb_fn j # map jb_fn js) (accepted_of s acc)"
        using ok one k(3) same Cons by (simp add: seq_ok_def seq_jobs_of_def)
      show ?thesis
      proof (cases "tp_accepting p")
        case True
        have "waiting s (snd (enqueue (Seq_wrapper s (jb_fn j) (jb_refc j)) ?p1)) = [jb_fn j]"
          by (rule waiting_new) (use w0 True in simp_all)
        then show ?thesis using ok one k(3) same Cons sub lg
          by (auto simp: seq_ok_def seq_jobs_of_def p' enqueue_same)
      next
        case False
        have "subseq (log_of s p @ map jb_fn js) (log_of s p @ jb_fn j # map jb_fn js)"
          unfolding subseq_append' by (rule list_emb_Cons) (rule subseq_order.order_refl)
        then have "subseq (log_of s p @ map jb_fn js) (accepted_of s acc)" using sub subseq_order.trans by blast
        then show ?thesis using ok one w0 k(3) same Cons False lg
          by (auto simp: seq_ok_def seq_jobs_of_def p' enqueue_simps)
      qed
    qed
  next
    case False
    have other: "seq_ok acc s (put_seq s' q' ?p)" for q'
      by (rule seq_ok_cong [OF ok]) (use w [of s] a [of s] lg False in simp_all)
    have ref: "seq_ok acc s x \<Longrightarrow> seq_ok acc s (ref_add (-1) c x)" for x
      by (rule seq_ok_cong) simp_all
    have "p' = ref_add (-1) c (case sq_jobs q of [] \<Rightarrow> put_seq s' (q\<lparr>sq_free := True\<rparr>) ?p
        | j # js \<Rightarrow> snd (enqueue (Seq_wrapper s' (jb_fn j) (jb_refc j)) (put_seq s' (q\<lparr>sq_jobs := js\<rparr>) ?p)))"
      using n k by (simp add: worker_next_def Let_def)
    then show ?thesis using other seq_ok_enqueue_other [OF other] False
      by (auto intro!: ref split: list.split)
  qed
qed

lemma pool_reach_ok: "pool_reach acc p \<Longrightarrow> seq_ok acc s p"
proof (induction arbitrary: s rule: pool_reach.induct)
  case (create acc p s')
  then show ?case by (intro seq_ok_create)
next
  case (enqueue acc p j r)
  then show ?case by (intro seq_ok_enqueue_other) simp_all
next
  case (join acc p)
  show ?case by (rule seq_ok_alone [OF join.IH]) (simp_all add: join_start_def)
next
  case (stop acc p)
  show ?case by (rule seq_ok_alone [OF stop.IH]) (auto simp: pool_stop_def split: if_splits)
qed (blast intro: seq_ok_init seq_ok_enqueue_seq seq_ok_disable seq_ok_take seq_ok_run seq_ok_next)+


text \<open>A run on concrete data: two jobs of a sequence and one worker.\<close>

definition run_steps :: "('j thread_pool \<Rightarrow> 'j thread_pool option) list \<Rightarrow> 'j thread_pool \<Rightarrow> 'j thread_pool option" where
  "run_steps fs p = foldl Option.bind (Some p) fs"

definition enq :: "nat \<Rightarrow> nat \<Rightarrow> nat option \<Rightarrow> nat thread_pool \<Rightarrow> nat thread_pool option" where
  "enq s j r p = map_option snd (enqueue_seq s j r p)"

definition one_worker :: "nat thread_pool" where
  "one_worker = create_seq 0 (pool_init 1 thread_pool_new)"

definition two_workers :: "nat thread_pool" where
  "two_workers = create_seq 0 (pool_init 2 thread_pool_new)"


text \<open>
  C0: \<open>stop_jobs\<close> marks a sequence free while its current job still runs, so the next job starts
  on another worker at once: the two jobs of the sequence overlap.
\<close>

theorem stop_jobs_breaks_sequence:
  "case run_steps [enq 0 1 None, worker_take 0, stop_jobs 0 (\<lambda>_. False), enq 0 2 None, worker_take 1] two_workers of
     None \<Rightarrow> False
   | Some p \<Rightarrow> tp_workers p = [Before_fn (Seq_wrapper 0 1 None), Before_fn (Seq_wrapper 0 2 None)]"
  by code_simp

text \<open>
  C0: \<open>join\<close> returns although a job is still running and another one of its sequence waits.
\<close>

theorem join_returns_early:
  "case run_steps [enq 0 1 None, enq 0 2 None, worker_take 0, Some \<circ> join_start] one_worker of
     None \<Rightarrow> False
   | Some p \<Rightarrow> join_returns p \<and> log_of 0 p = [] \<and> waiting 0 p = [1] \<and> seq_jobs_of 0 p = [2]"
  by code_simp

text \<open>
  A counter given with a job of a busy sequence is not incremented until the job reaches the
  pool: with a job of counter 5 queued, the counter reads zero, and its owner may be freed.
\<close>

theorem queued_job_not_counted:
  "case run_steps [enq 0 1 None, enq 0 2 (Some 5), worker_take 0, worker_run 0] one_worker of
     None \<Rightarrow> False
   | Some p \<Rightarrow> tp_refs p 5 = 0 \<and> seq_jobs_of 0 p = [2]"
  by code_simp

end
