(* ===== verification/World.thy ===== *)
theory World
  imports Generators
begin

text \<open>
  \<open>class world\<close> (\<open>src/world/world.cpp\<close>) with the block-change side of the lighting manager
  (\<open>src/world/lighting.cpp\<close>). Chunks live in a heap and are known by their addresses, so that
  neighbour pointers and the shared edge chunk alias as they do in the code; \<open>None\<close> is a use of a
  null or dangling pointer, or an access outside a chunk. The world provider is an argument, the
  record of its operations over its own state. The queue of light updates holds the items of this
  world.
\<close>

record world_data =
  wd_name :: string
  wd_seed :: u64
  wd_gen_name :: string
  wd_spawn_pos :: entity_pos
  wd_width :: int
  wd_depth :: int

datatype chunk_load = No_chunk | Chunk_loaded chunk | World_load_error

record 'p provider_ops =
  po_load :: "'p \<Rightarrow> u32 \<Rightarrow> u32 \<Rightarrow> chunk_load \<times> 'p"
  po_save :: "chunk \<Rightarrow> 'p \<Rightarrow> 'p"
  po_save_data :: "world_data \<Rightarrow> 'p \<Rightarrow> 'p"

type_synonym light_item = "u32 \<times> u32 \<times> u32"

record 'p world =
  w_inf :: world_data
  w_gen :: generator
  w_prov :: "'p option"
  w_heap :: "nat \<Rightarrow> chunk option"
  w_next :: nat
  w_chunks :: "(u64 \<times> nat) list"
  w_edge :: nat
  w_pls :: "nat list"
  w_updates :: "light_item list"

subsection \<open>Making a world\<close>

definition alloc_chunk :: "chunk \<Rightarrow> 'p world \<Rightarrow> nat \<times> 'p world" where
  "alloc_chunk c w = (w_next w, w\<lparr>w_heap := (w_heap w)(w_next w \<mapsto> c), w_next := Suc (w_next w)\<rparr>)"

definition upd_chunk :: "nat \<Rightarrow> (chunk \<Rightarrow> chunk option) \<Rightarrow> 'p world \<Rightarrow> 'p world option" where
  "upd_chunk a f w = do {
     c \<leftarrow> w_heap w a;
     c \<leftarrow> f c;
     Some (w\<lparr>w_heap := (w_heap w)(a \<mapsto> c)\<rparr>) }"

definition prepare_oob_chunk :: "'p world \<Rightarrow> 'p world option" where
  "prepare_oob_chunk w = do {
     let (a, w) = alloc_chunk (chunk_init 0 0) w;
     w \<leftarrow> upd_chunk a generate_edge (w\<lparr>w_edge := a\<rparr>);
     upd_chunk a light_chunk w }"

definition world_empty :: "world_data \<Rightarrow> generator \<Rightarrow> 'p option \<Rightarrow> 'p world" where
  "world_empty info gen prov = \<lparr>w_inf = info, w_gen = gen, w_prov = prov, w_heap = Map.empty, w_next = 0,
     w_chunks = [], w_edge = 0, w_pls = [], w_updates = []\<rparr>"

definition world_create ::
  "'p provider_ops \<Rightarrow> string \<Rightarrow> u64 \<Rightarrow> generator \<Rightarrow> 'p option \<Rightarrow> int \<Rightarrow> int \<Rightarrow> 'p world option" where
  "world_create ops name seed gen prov width depth =
     (let info = \<lparr>wd_name = name, wd_seed = seed, wd_gen_name = generator_name gen,
                 wd_spawn_pos = generator_find_spawn gen, wd_width = width, wd_depth = depth\<rparr>
      in prepare_oob_chunk (world_empty info gen (map_option (po_save_data ops info) prov)))"

text \<open>
  \<open>load_from\<close>, given the outcome of loading the world data: an unknown generator is replaced by
  flatgrass.
\<close>

definition world_load_from :: "world_data option \<Rightarrow> 'p \<Rightarrow> 'p world option option" where
  "world_load_from wd prov = (case wd of
     None \<Rightarrow> Some None
   | Some wd \<Rightarrow> let gen = (case world_generator_create (wd_gen_name wd) of None \<Rightarrow> Flatgrass | Some g \<Rightarrow> g)
       in map_option Some (prepare_oob_chunk (world_empty wd gen (Some prov))))"

subsection \<open>Chunks\<close>

definition chunk_key :: "u32 \<Rightarrow> u32 \<Rightarrow> u64" where
  "chunk_key x z = ucast x OR push_bit 32 (ucast z)"

definition out_of_bounds :: "'p world \<Rightarrow> u32 \<Rightarrow> u32 \<Rightarrow> bool" where
  "out_of_bounds w x z \<longleftrightarrow>
     (wd_width (w_inf w) > -1 \<and> (sint x < 0 \<or> sint x \<ge> drop_bit 4 (wd_width (w_inf w)))) \<or>
     (wd_depth (w_inf w) > -1 \<and> (sint z < 0 \<or> sint z \<ge> drop_bit 4 (wd_depth (w_inf w))))"

definition get_chunk :: "u32 \<Rightarrow> u32 \<Rightarrow> 'p world \<Rightarrow> nat option" where
  "get_chunk x z w = (if out_of_bounds w x z then Some (w_edge w)
     else map_of (w_chunks w) (chunk_key x z))"

text \<open>One of the four paragraphs of \<open>set_chunk_neighbours\<close>.\<close>

definition link_neighbour :: "nat \<Rightarrow> u32 \<Rightarrow> u32 \<Rightarrow> direction \<Rightarrow> direction \<Rightarrow> 'p world \<Rightarrow> 'p world option" where
  "link_neighbour ch nx nz dir back w = do {
     let nch = get_chunk nx nz w;
     w \<leftarrow> upd_chunk ch (Some \<circ> set_neighbour dir nch) w;
     case nch of None \<Rightarrow> Some w
     | Some n \<Rightarrow> upd_chunk n (Some \<circ> set_neighbour back (Some ch)) w }"

definition set_chunk_neighbours :: "nat \<Rightarrow> 'p world \<Rightarrow> 'p world option" where
  "set_chunk_neighbours ch w = do {
     c \<leftarrow> w_heap w ch;
     let cx = cp_x (ch_pos c);
     let cz = cp_z (ch_pos c);
     w \<leftarrow> link_neighbour ch (cx + 1) cz DIR_EAST DIR_WEST w;
     w \<leftarrow> link_neighbour ch (cx - 1) cz DIR_WEST DIR_EAST w;
     w \<leftarrow> link_neighbour ch cx (cz + 1) DIR_SOUTH DIR_NORTH w;
     link_neighbour ch cx (cz - 1) DIR_NORTH DIR_SOUTH w }"

definition put_chunk :: "nat \<Rightarrow> 'p world \<Rightarrow> 'p world option" where
  "put_chunk ch w = do {
     c \<leftarrow> w_heap w ch;
     let index = chunk_key (cp_x (ch_pos c)) (cp_z (ch_pos c));
     let w = (case map_of (w_chunks w) index of
         None \<Rightarrow> w | Some old \<Rightarrow> w\<lparr>w_heap := (w_heap w)(old := None)\<rparr>);
     set_chunk_neighbours ch (w\<lparr>w_chunks := umap_set index ch (w_chunks w)\<rparr>) }"

definition load_chunk :: "'p provider_ops \<Rightarrow> u32 \<Rightarrow> u32 \<Rightarrow> 'p world \<Rightarrow> (nat \<times> 'p world) option" where
  "load_chunk ops x z w =
     (if out_of_bounds w x z then Some (w_edge w, w)
      else case map_of (w_chunks w) (chunk_key x z) of
        Some ch \<Rightarrow> Some (ch, w)
      | None \<Rightarrow>
          let (found, w) = (case w_prov w of
                None \<Rightarrow> (No_chunk, w)
              | Some p \<Rightarrow> let (r, p) = po_load ops p x z in (r, w\<lparr>w_prov := Some p\<rparr>))
          in case found of
               Chunk_loaded c \<Rightarrow> do {
                 let (ch, w) = alloc_chunk c w;
                 w \<leftarrow> set_chunk_neighbours ch (w\<lparr>w_chunks := umap_set (chunk_key x z) ch (w_chunks w)\<rparr>);
                 Some (ch, w) }
             | _ \<Rightarrow> do {
                 let (ch, w) = alloc_chunk (chunk_init x z) w;
                 w \<leftarrow> upd_chunk ch (generator_generate (w_gen w)) w;
                 w \<leftarrow> set_chunk_neighbours ch (w\<lparr>w_chunks := umap_set (chunk_key x z) ch (w_chunks w)\<rparr>);
                 w \<leftarrow> upd_chunk ch light_chunk w;
                 Some (ch, w) })"

subsection \<open>Light updates\<close>

definition lo4 :: "u32 \<Rightarrow> nat" where "lo4 x = unat (x AND 15)"

abbreviation hi28 :: "u32 \<Rightarrow> u32" where "hi28 x \<equiv> signed_drop_bit 4 x"

text \<open>
  \<open>enqueue_sl_no_lock\<close> and \<open>enqueue_sl_neighbours\<close> call each other: the outer \<open>None\<close> is a call
  that does not return, the inner one a crash (a chunk that is not loaded, a block without
  information). A block that passes light is queued; an opaque one gets its level at once.
\<close>

partial_function (option) enqueue_sl :: "u32 \<Rightarrow> u32 \<Rightarrow> u32 \<Rightarrow> 'p world \<Rightarrow> 'p world option option" where
  "enqueue_sl x y z w = (case get_chunk (hi28 x) (hi28 z) w of
     None \<Rightarrow> Some None
   | Some a \<Rightarrow> (case w_heap w a of
       None \<Rightarrow> Some None
     | Some ch \<Rightarrow> (case chunk_get_id (lo4 x) (unat y) (lo4 z) ch of
         None \<Rightarrow> Some None
       | Some id' \<Rightarrow> (case block_from_id id' of
           None \<Rightarrow> Some None
         | Some binf \<Rightarrow>
             if bi_opaque binf then
               (case chunk_get_sky_light (lo4 x) (unat y) (lo4 z) ch of
                 None \<Rightarrow> Some None
               | Some (sl, ch) \<Rightarrow>
                   if 15 - bi_opacity binf = sl then Some (Some (w\<lparr>w_heap := (w_heap w)(a \<mapsto> ch)\<rparr>))
                   else (case chunk_set_sky_light (lo4 x) (unat y) (lo4 z) (15 - bi_opacity binf) ch of
                     None \<Rightarrow> Some None
                   | Some ch \<Rightarrow>
                       Option.bind (enqueue_sl (x - 1) y z (w\<lparr>w_heap := (w_heap w)(a \<mapsto> ch)\<rparr>)) (\<lambda>r. case r of None \<Rightarrow> Some None | Some w \<Rightarrow>
                       Option.bind (enqueue_sl (x + 1) y z w) (\<lambda>r. case r of None \<Rightarrow> Some None | Some w \<Rightarrow>
                       Option.bind (enqueue_sl x y (z - 1) w) (\<lambda>r. case r of None \<Rightarrow> Some None | Some w \<Rightarrow>
                       Option.bind (enqueue_sl x y (z + 1) w) (\<lambda>r. case r of None \<Rightarrow> Some None | Some w \<Rightarrow>
                       Option.bind (if sint y > 0 then enqueue_sl x (y - 1) z w else Some (Some w)) (\<lambda>r. case r of None \<Rightarrow> Some None | Some w \<Rightarrow>
                       if sint y < 255 then enqueue_sl x (y + 1) z w else Some (Some w))))))))
             else Some (Some (w\<lparr>w_updates := w_updates w @ [(x, y, z)]\<rparr>))))))"

text \<open>\<open>calc_sl\<close>: the level of a neighbouring block, in its chunk; reading it may create its sub-chunk.\<close>

definition sky_of :: "nat option \<Rightarrow> nat \<Rightarrow> u32 \<Rightarrow> nat \<Rightarrow> 'p world \<Rightarrow> (int \<times> 'p world) option" where
  "sky_of a bx y bz w = (case a of
     None \<Rightarrow> Some (0, w)
   | Some a \<Rightarrow> do {
       c \<leftarrow> w_heap w a;
       (sl, c) \<leftarrow> chunk_get_sky_light bx (unat y) bz c;
       Some (uint sl, w\<lparr>w_heap := (w_heap w)(a \<mapsto> c)\<rparr>) })"

definition calc_level :: "nat \<Rightarrow> nat \<Rightarrow> u32 \<Rightarrow> nat \<Rightarrow> 'p world \<Rightarrow> (int \<times> 'p world) option" where
  "calc_level a bx y bz w = do {
     ch \<leftarrow> w_heap w a;
     h \<leftarrow> get_height bx bz ch;
     if sint y \<ge> h then Some (15, w)
     else do {
       (n_xp, w) \<leftarrow> (if bx = 15 then sky_of (get_neighbour DIR_EAST ch) 0 y bz w else sky_of (Some a) (bx + 1) y bz w);
       (n_xn, w) \<leftarrow> (if bx = 0 then sky_of (get_neighbour DIR_WEST ch) 15 y bz w else sky_of (Some a) (bx - 1) y bz w);
       (n_zp, w) \<leftarrow> (if bz = 15 then sky_of (get_neighbour DIR_SOUTH ch) bx y 0 w else sky_of (Some a) bx y (bz + 1) w);
       (n_zn, w) \<leftarrow> (if bz = 0 then sky_of (get_neighbour DIR_NORTH ch) bx y 15 w else sky_of (Some a) bx y (bz - 1) w);
       (n_yp, w) \<leftarrow> (if y = 255 then Some (15, w) else sky_of (Some a) bx (y + 1) bz w);
       (n_yn, w) \<leftarrow> (if y = 0 then Some (0, w) else sky_of (Some a) bx (y - 1) bz w);
       let m = max n_xp (max n_xn (max n_zp (max n_zn (max n_yp (max n_yn 0)))));
       Some (if m - 1 < 0 then 0 else m - 1, w) } }"

definition enqueue_sl_neighbours :: "u32 \<Rightarrow> u32 \<Rightarrow> u32 \<Rightarrow> 'p world \<Rightarrow> 'p world option option" where
  "enqueue_sl_neighbours x y z w =
     Option.bind (enqueue_sl (x - 1) y z w) (\<lambda>r. case r of None \<Rightarrow> Some None | Some w \<Rightarrow>
     Option.bind (enqueue_sl (x + 1) y z w) (\<lambda>r. case r of None \<Rightarrow> Some None | Some w \<Rightarrow>
     Option.bind (enqueue_sl x y (z - 1) w) (\<lambda>r. case r of None \<Rightarrow> Some None | Some w \<Rightarrow>
     Option.bind (enqueue_sl x y (z + 1) w) (\<lambda>r. case r of None \<Rightarrow> Some None | Some w \<Rightarrow>
     Option.bind (if sint y > 0 then enqueue_sl x (y - 1) z w else Some (Some w)) (\<lambda>r. case r of None \<Rightarrow> Some None | Some w \<Rightarrow>
     if sint y < 255 then enqueue_sl x (y + 1) z w else Some (Some w))))))"

definition calc_sl :: "u32 \<Rightarrow> u32 \<Rightarrow> u32 \<Rightarrow> 'p world \<Rightarrow> 'p world option option" where
  "calc_sl x y z w = (case get_chunk (hi28 x) (hi28 z) w of
     None \<Rightarrow> Some (Some w)
   | Some a \<Rightarrow> (case calc_level a (lo4 x) y (lo4 z) w of
       None \<Rightarrow> Some None
     | Some (sl, w) \<Rightarrow> (case sky_of (Some a) (lo4 x) y (lo4 z) w of
         None \<Rightarrow> Some None
       | Some (old, w) \<Rightarrow>
           if sl = old then Some (Some w)
           else (case upd_chunk a (chunk_set_sky_light (lo4 x) (unat y) (lo4 z) (word_of_int sl)) w of
             None \<Rightarrow> Some None
           | Some w \<Rightarrow> enqueue_sl_neighbours x y z w))))"

text \<open>One item of the worker's loop: the last of the queue.\<close>

definition process_update :: "'p world \<Rightarrow> 'p world option option" where
  "process_update w = (if w_updates w = [] then Some (Some w)
     else case last (w_updates w) of (x, y, z) \<Rightarrow>
       calc_sl x y z (w\<lparr>w_updates := butlast (w_updates w)\<rparr>))"

subsection \<open>Blocks\<close>

text \<open>The chunk to be written, loaded unless a block of air is set in a chunk that is not there.\<close>

definition chunk_to_set :: "'p provider_ops \<Rightarrow> u32 \<Rightarrow> u32 \<Rightarrow> u16 \<Rightarrow> 'p world \<Rightarrow> (nat option \<times> 'p world) option" where
  "chunk_to_set ops x z id' w = (case get_chunk (hi28 x) (hi28 z) w of
     Some a \<Rightarrow> Some (Some a, w)
   | None \<Rightarrow> if id' = 0 then Some (None, w)
       else map_option (\<lambda>(a, w). (Some a, w)) (load_chunk ops (hi28 x) (hi28 z) w))"

definition world_set_id :: "'p provider_ops \<Rightarrow> u32 \<Rightarrow> u32 \<Rightarrow> u32 \<Rightarrow> u16 \<Rightarrow> 'p world \<Rightarrow> 'p world option option" where
  "world_set_id ops x y z id' w = (case chunk_to_set ops x z id' w of
     None \<Rightarrow> Some None
   | Some (None, w) \<Rightarrow> Some (Some w)
   | Some (Some a, w) \<Rightarrow> (case upd_chunk a (chunk_set_id (lo4 x) (unat y) (lo4 z) id') w of
       None \<Rightarrow> Some None
     | Some w \<Rightarrow> enqueue_sl x y z w))"

definition world_set_id_and_meta ::
  "'p provider_ops \<Rightarrow> u32 \<Rightarrow> u32 \<Rightarrow> u32 \<Rightarrow> u16 \<Rightarrow> byte \<Rightarrow> 'p world \<Rightarrow> 'p world option option" where
  "world_set_id_and_meta ops x y z id' meta w = (case chunk_to_set ops x z id' w of
     None \<Rightarrow> Some None
   | Some (None, w) \<Rightarrow> Some (Some w)
   | Some (Some a, w) \<Rightarrow> (case upd_chunk a (chunk_set_id_and_meta (lo4 x) (unat y) (lo4 z) id' meta) w of
       None \<Rightarrow> Some None
     | Some w \<Rightarrow> enqueue_sl x y z w))"

definition world_get_id :: "u32 \<Rightarrow> u32 \<Rightarrow> u32 \<Rightarrow> 'p world \<Rightarrow> u16 option" where
  "world_get_id x y z w = (case get_chunk (hi28 x) (hi28 z) w of
     None \<Rightarrow> Some 0
   | Some a \<Rightarrow> Option.bind (w_heap w a) (chunk_get_id (lo4 x) (unat y) (lo4 z)))"

definition world_set_sky_light :: "u32 \<Rightarrow> u32 \<Rightarrow> u32 \<Rightarrow> byte \<Rightarrow> 'p world \<Rightarrow> 'p world option" where
  "world_set_sky_light x y z sl w = (case get_chunk (hi28 x) (hi28 z) w of
     None \<Rightarrow> Some w
   | Some a \<Rightarrow> upd_chunk a (chunk_set_sky_light (lo4 x) (unat y) (lo4 z) sl) w)"

definition world_get_sky_light :: "u32 \<Rightarrow> u32 \<Rightarrow> u32 \<Rightarrow> 'p world \<Rightarrow> (byte \<times> 'p world) option" where
  "world_get_sky_light x y z w = (case get_chunk (hi28 x) (hi28 z) w of
     None \<Rightarrow> Some (15, w)
   | Some a \<Rightarrow> do {
       c \<leftarrow> w_heap w a;
       (sl, c) \<leftarrow> chunk_get_sky_light (lo4 x) (unat y) (lo4 z) c;
       Some (sl, w\<lparr>w_heap := (w_heap w)(a \<mapsto> c)\<rparr>) })"

subsection \<open>Players and saving\<close>

definition add_player :: "nat \<Rightarrow> 'p world \<Rightarrow> 'p world" where
  "add_player pl w = w\<lparr>w_pls := w_pls w @ [pl]\<rparr>"

definition remove_player :: "nat \<Rightarrow> 'p world \<Rightarrow> 'p world" where
  "remove_player pl w = w\<lparr>w_pls := filter (\<lambda>p. p \<noteq> pl) (w_pls w)\<rparr>"

definition all_players :: "(nat \<Rightarrow> 's \<Rightarrow> 's) \<Rightarrow> 'p world \<Rightarrow> 's \<Rightarrow> 's" where
  "all_players cb w s = fold cb (w_pls w) s"

fun save_chunks :: "'p provider_ops \<Rightarrow> (u64 \<times> nat) list \<Rightarrow> (nat \<Rightarrow> chunk option) \<Rightarrow> 'p \<Rightarrow> 'p option" where
  "save_chunks ops [] heap p = Some p"
| "save_chunks ops ((i, a) # cs) heap p = (case heap a of
     None \<Rightarrow> None | Some c \<Rightarrow> save_chunks ops cs heap (po_save ops c p))"

definition save_all :: "'p provider_ops \<Rightarrow> 'p world \<Rightarrow> 'p world option" where
  "save_all ops w = (case w_prov w of
     None \<Rightarrow> Some w
   | Some p \<Rightarrow> map_option (\<lambda>p. w\<lparr>w_prov := Some (po_save_data ops (w_inf w) p)\<rparr>)
       (save_chunks ops (w_chunks w) (w_heap w) p))"

subsection \<open>Keys\<close>

lemma chunk_key_inj [simp]: "chunk_key x z = chunk_key x' z' \<longleftrightarrow> x = x' \<and> z = z'"
proof
  assume k: "chunk_key x z = chunk_key x' z'"
  have parts: "ucast (chunk_key a b) = a" "ucast (drop_bit 32 (chunk_key a b)) = b" for a b :: u32
    unfolding chunk_key_def by (rule bit_word_eqI, auto simp: bit_simps dest: bit_imp_le_length)+
  show "x = x' \<and> z = z'" using parts [of x z] parts [of x' z'] k by simp
qed simp

fun step_to :: "direction \<Rightarrow> u32 \<times> u32 \<Rightarrow> u32 \<times> u32" where
  "step_to DIR_EAST (x, z) = (x + 1, z)"
| "step_to DIR_WEST (x, z) = (x - 1, z)"
| "step_to DIR_SOUTH (x, z) = (x, z + 1)"
| "step_to DIR_NORTH (x, z) = (x, z - 1)"

fun opposite :: "direction \<Rightarrow> direction" where
  "opposite DIR_EAST = DIR_WEST" | "opposite DIR_WEST = DIR_EAST"
| "opposite DIR_SOUTH = DIR_NORTH" | "opposite DIR_NORTH = DIR_SOUTH"

lemma step_to_opposite [simp]: "step_to (opposite d) (step_to d p) = p" "step_to d (step_to (opposite d) p) = p"
  "opposite (opposite d) = d"
  by (cases p; cases d; simp)+

lemma step_to_ne [simp]: "step_to d p \<noteq> p"
  by (cases p; cases d) simp_all

lemma step_to_inj [simp]: "step_to d p = step_to d q \<longleftrightarrow> p = q"
  by (cases p; cases q; cases d) auto

lemma dir_index_inj [simp]: "dir_index d = dir_index e \<longleftrightarrow> d = e"
  by (cases d; cases e) simp_all

lemma dir_index_less [simp]: "dir_index d < 4"
  by (cases d) simp_all

lemma get_set_neighbour:
  "length (ch_neighbours c) = 4 \<Longrightarrow> get_neighbour e (set_neighbour d n c) = (if e = d then n else get_neighbour e c)"
  by (simp add: get_neighbour_def set_neighbour_def nth_list_update)

subsection \<open>Neighbours\<close>

definition pos_of :: "chunk \<Rightarrow> u32 \<times> u32" where
  "pos_of c = (cp_x (ch_pos c), cp_z (ch_pos c))"

definition chunk_by :: "u32 \<times> u32 \<Rightarrow> 'p world \<Rightarrow> nat option" where
  "chunk_by p w = get_chunk (fst p) (snd p) w"

text \<open>Two worlds that differ in the neighbour pointers of their chunks only.\<close>

definition relinked_chunk :: "chunk \<Rightarrow> chunk \<Rightarrow> bool" where
  "relinked_chunk c c' \<longleftrightarrow> (\<exists>ns. length ns = length (ch_neighbours c) \<and> c' = c\<lparr>ch_neighbours := ns\<rparr>)"

definition relinked :: "'p world \<Rightarrow> 'p world \<Rightarrow> bool" where
  "relinked w w' \<longleftrightarrow> (\<exists>h. w' = w\<lparr>w_heap := h\<rparr> \<and> (\<forall>a. rel_option relinked_chunk (w_heap w a) (h a)))"

lemma relinked_chunk_refl [simp]: "relinked_chunk c c"
  unfolding relinked_chunk_def by (rule exI [of _ "ch_neighbours c"]) simp

lemma relinked_chunk_trans: "relinked_chunk a b \<Longrightarrow> relinked_chunk b c \<Longrightarrow> relinked_chunk a c"
  by (auto simp: relinked_chunk_def)

lemma relinked_chunk_set [simp]: "relinked_chunk c (set_neighbour d n c)"
  unfolding relinked_chunk_def set_neighbour_def by (rule exI [of _ "(ch_neighbours c)[dir_index d := n]"]) simp

lemma relinked_refl [simp]: "relinked w w"
  unfolding relinked_def by (rule exI [of _ "w_heap w"]) (simp add: option.rel_refl)

lemma relinked_trans: "relinked u v \<Longrightarrow> relinked v w \<Longrightarrow> relinked u w"
proof -
  assume "relinked u v" "relinked v w"
  then obtain h1 h2 where 1: "v = u\<lparr>w_heap := h1\<rparr>" "\<And>a. rel_option relinked_chunk (w_heap u a) (h1 a)"
    and 2: "w = v\<lparr>w_heap := h2\<rparr>" "\<And>a. rel_option relinked_chunk (h1 a) (h2 a)"
    unfolding relinked_def by auto
  have "rel_option relinked_chunk (w_heap u a) (h2 a)" for a
    using 1(2) [of a] 2(2) [of a]
    by (cases "w_heap u a"; cases "h1 a"; cases "h2 a") (auto intro: relinked_chunk_trans)
  then show ?thesis unfolding relinked_def using 1(1) 2(1) by auto
qed

lemma out_of_bounds_frame [simp]:
  "out_of_bounds (w\<lparr>w_heap := h\<rparr>) = out_of_bounds w" "out_of_bounds (w\<lparr>w_prov := p\<rparr>) = out_of_bounds w"
  "out_of_bounds (w\<lparr>w_updates := u\<rparr>) = out_of_bounds w" "out_of_bounds (w\<lparr>w_next := n\<rparr>) = out_of_bounds w"
  "out_of_bounds (w\<lparr>w_chunks := m\<rparr>) = out_of_bounds w" "out_of_bounds (w\<lparr>w_pls := ps\<rparr>) = out_of_bounds w"
  by (simp_all add: out_of_bounds_def fun_eq_iff)

lemma get_chunk_frame [simp]:
  "get_chunk x z (w\<lparr>w_heap := h\<rparr>) = get_chunk x z w" "get_chunk x z (w\<lparr>w_prov := p\<rparr>) = get_chunk x z w"
  "get_chunk x z (w\<lparr>w_updates := u\<rparr>) = get_chunk x z w" "get_chunk x z (w\<lparr>w_next := n\<rparr>) = get_chunk x z w"
  "get_chunk x z (w\<lparr>w_pls := ps\<rparr>) = get_chunk x z w"
  by (simp_all add: get_chunk_def)

lemma relinked_get: "relinked w w' \<Longrightarrow> get_chunk x z w' = get_chunk x z w"
  by (auto simp: relinked_def get_chunk_def out_of_bounds_def)

lemma relinked_heap:
  assumes "relinked w w'" "w_heap w a = Some c"
  obtains ns where "w_heap w' a = Some (c\<lparr>ch_neighbours := ns\<rparr>)" "length ns = length (ch_neighbours c)"
proof -
  from assms obtain h where h: "w' = w\<lparr>w_heap := h\<rparr>" "rel_option relinked_chunk (Some c) (h a)"
    unfolding relinked_def by metis
  from h(2) obtain c' where "h a = Some c'" "relinked_chunk c c'" by (cases "h a") simp_all
  with h(1) that show thesis by (auto simp: relinked_chunk_def)
qed

text \<open>The neighbour pointer of a chunk in the heap.\<close>

definition link_of :: "'p world \<Rightarrow> nat \<Rightarrow> direction \<Rightarrow> nat option" where
  "link_of w a d = (case w_heap w a of None \<Rightarrow> None | Some c \<Rightarrow> get_neighbour d c)"

definition heap_ok :: "'p world \<Rightarrow> bool" where
  "heap_ok w \<longleftrightarrow> (\<forall>a c. w_heap w a = Some c \<longrightarrow> length (ch_neighbours c) = 4)"

lemma heap_ok_relinked: "relinked w w' \<Longrightarrow> heap_ok w \<Longrightarrow> heap_ok w'"
proof -
  assume r: "relinked w w'" and ok: "heap_ok w"
  then obtain h where h: "w' = w\<lparr>w_heap := h\<rparr>" "\<And>a. rel_option relinked_chunk (w_heap w a) (h a)"
    unfolding relinked_def by blast
  have "length (ch_neighbours c) = 4" if "h a = Some c" for a c
    using h(2) [of a] that ok by (cases "w_heap w a") (auto simp: relinked_chunk_def heap_ok_def)
  then show "heap_ok w'" using h(1) by (simp add: heap_ok_def)
qed

lemma upd_neighbour:
  fixes n :: "nat option" and d :: direction and w :: "'p world"
  assumes "w_heap w a = Some c" "heap_ok w"
  defines "w' \<equiv> w\<lparr>w_heap := (w_heap w)(a \<mapsto> set_neighbour d n c)\<rparr>"
  shows "upd_chunk a (Some \<circ> set_neighbour d n) w = Some w'" "relinked w w'"
    "link_of w' b e = (if b = a \<and> e = d then n else link_of w b e)"
proof -
  show "upd_chunk a (Some \<circ> set_neighbour d n) w = Some w'" using assms by (simp add: upd_chunk_def)
  show "relinked w w'" unfolding relinked_def w'_def
    by (rule exI, rule conjI [OF refl]) (use assms(1) in \<open>simp add: option.rel_refl\<close>)
  show "link_of w' b e = (if b = a \<and> e = d then n else link_of w b e)"
    using assms(1,2) by (auto simp: link_of_def w'_def get_set_neighbour heap_ok_def)
qed

lemma link_neighbour_links:
  assumes "w_heap w ch \<noteq> None" "heap_ok w" "\<And>n. get_chunk nx nz w = Some n \<Longrightarrow> w_heap w n \<noteq> None \<and> n \<noteq> ch"
  shows "\<exists>w'. link_neighbour ch nx nz d back w = Some w' \<and> relinked w w' \<and>
    (\<forall>b e. link_of w' b e = (if b = ch \<and> e = d then get_chunk nx nz w
       else if get_chunk nx nz w = Some b \<and> e = back then Some ch else link_of w b e))"
proof -
  from assms(1) obtain c where c: "w_heap w ch = Some c" by blast
  note u1 = upd_neighbour [OF c assms(2), of d "get_chunk nx nz w"]
  define w1 where "w1 = w\<lparr>w_heap := (w_heap w)(ch \<mapsto> set_neighbour d (get_chunk nx nz w) c)\<rparr>"
  show ?thesis
  proof (cases "get_chunk nx nz w")
    case None
    then show ?thesis using u1 by (auto simp: link_neighbour_def w1_def [symmetric])
  next
    case (Some n)
    with assms(3) obtain cn where cn: "w_heap w n = Some cn" "n \<noteq> ch" by blast
    then have n1: "w_heap w1 n = Some cn" by (simp add: w1_def)
    have r1: "relinked w w1" using u1(2) by (simp add: w1_def)
    note u2 = upd_neighbour [OF n1 heap_ok_relinked [OF r1 assms(2)], of "back" "Some ch"]
    have "link_neighbour ch nx nz d back w = Some (w1\<lparr>w_heap := (w_heap w1)(n \<mapsto> set_neighbour back (Some ch) cn)\<rparr>)"
    proof -
      have "upd_chunk ch (Some \<circ> set_neighbour d (Some n)) w = Some w1" using u1(1) Some by (simp add: w1_def)
      then show ?thesis unfolding link_neighbour_def Let_def Some option.case using u2(1) by simp
    qed
    moreover have "link_of w1 b e = (if b = ch \<and> e = d then get_chunk nx nz w else link_of w b e)" for b e
      using u1(3) by (simp add: w1_def)
    ultimately show ?thesis using u2(2,3) relinked_trans [OF r1] cn(2) Some by auto
  qed
qed

text \<open>The four paragraphs together.\<close>

definition sides :: "direction list" where
  "sides = [DIR_EAST, DIR_WEST, DIR_SOUTH, DIR_NORTH]"

definition link_side :: "nat \<Rightarrow> u32 \<times> u32 \<Rightarrow> direction \<Rightarrow> 'p world \<Rightarrow> 'p world option" where
  "link_side ch p d w = link_neighbour ch (fst (step_to d p)) (snd (step_to d p)) d (opposite d) w"

lemma set_chunk_neighbours_sides:
  assumes "w_heap w ch = Some c"
  shows "set_chunk_neighbours ch w = foldl (\<lambda>r d. Option.bind r (link_side ch (pos_of c) d)) (Some w) sides"
  using assms by (simp add: set_chunk_neighbours_def sides_def link_side_def [abs_def] pos_of_def Let_def)

lemma link_sides:
  assumes "w_heap w ch \<noteq> None" "heap_ok w" "distinct ds"
    "\<And>d n. chunk_by (step_to d p) w = Some n \<Longrightarrow> w_heap w n \<noteq> None \<and> n \<noteq> ch"
  shows "\<exists>w'. foldl (\<lambda>r d. Option.bind r (link_side ch p d)) (Some w) ds = Some w' \<and> relinked w w' \<and>
    (\<forall>b e. link_of w' b e = (if b = ch \<and> e \<in> set ds then chunk_by (step_to e p) w
       else if chunk_by (step_to (opposite e) p) w = Some b \<and> opposite e \<in> set ds then Some ch else link_of w b e))"
  using assms
proof (induction ds rule: rev_induct)
  case (snoc d ds)
  then obtain w1 where w1: "foldl (\<lambda>r d. Option.bind r (link_side ch p d)) (Some w) ds = Some w1" "relinked w w1"
    "\<And>b e. link_of w1 b e = (if b = ch \<and> e \<in> set ds then chunk_by (step_to e p) w
       else if chunk_by (step_to (opposite e) p) w = Some b \<and> opposite e \<in> set ds then Some ch else link_of w b e)"
    by auto
  have gc: "get_chunk x z w1 = get_chunk x z w" for x z by (rule relinked_get [OF w1(2)])
  have live: "w_heap w1 a \<noteq> None" if "w_heap w a \<noteq> None" for a
    using that relinked_heap [OF w1(2), of a] by (cases "w_heap w a") (simp, metis option.distinct(1))
  obtain w2 where w2: "link_side ch p d w1 = Some w2" "relinked w1 w2"
    "\<And>b e. link_of w2 b e = (if b = ch \<and> e = d then chunk_by (step_to d p) w
       else if chunk_by (step_to d p) w = Some b \<and> e = opposite d then Some ch else link_of w1 b e)"
    using link_neighbour_links [OF live [OF snoc.prems(1)] heap_ok_relinked [OF w1(2) snoc.prems(2)],
        of "fst (step_to d p)" "snd (step_to d p)" d "opposite d"] snoc.prems(4) [of d] live
    by (auto simp: link_side_def chunk_by_def gc)
  have ne: "chunk_by (step_to e p) w \<noteq> Some ch" for e using snoc.prems(4) by blast
  have op: "e = opposite d \<longleftrightarrow> opposite e = d" for e by (cases e; cases d) simp_all
  show ?case
    by (rule exI [of _ w2]) (use w1 w2 relinked_trans [OF w1(2) w2(2)] ne op in auto)
qed simp

subsection \<open>The invariant\<close>

definition key_of :: "chunk \<Rightarrow> u64" where
  "key_of c = chunk_key (fst (pos_of c)) (snd (pos_of c))"

definition inside :: "'p world \<Rightarrow> u32 \<times> u32 \<Rightarrow> bool" where
  "inside w p \<longleftrightarrow> \<not> out_of_bounds w (fst p) (snd p)"

definition store_ok :: "'p world \<Rightarrow> bool" where
  "store_ok w \<longleftrightarrow> distinct (map fst (w_chunks w)) \<and> (\<forall>a. w_heap w a \<noteq> None \<longrightarrow> a < w_next w)
     \<and> (\<forall>a c. w_heap w a = Some c \<longrightarrow> chunk_wf c) \<and> w_heap w (w_edge w) \<noteq> None
     \<and> (\<forall>i a. map_of (w_chunks w) i = Some a \<longrightarrow> a \<noteq> w_edge w
          \<and> (\<exists>c. w_heap w a = Some c \<and> i = key_of c \<and> inside w (pos_of c)))"

definition linked :: "'p world \<Rightarrow> bool" where
  "linked w \<longleftrightarrow> (\<forall>i a c d. map_of (w_chunks w) i = Some a \<longrightarrow> w_heap w a = Some c \<longrightarrow>
     get_neighbour d c = chunk_by (step_to d (pos_of c)) w)"

definition world_ok :: "'p world \<Rightarrow> bool" where
  "world_ok w \<longleftrightarrow> store_ok w \<and> linked w"

lemma chunk_by_eq: "chunk_by p w = (if inside w p then map_of (w_chunks w) (chunk_key (fst p) (snd p)) else Some (w_edge w))"
  by (simp add: chunk_by_def get_chunk_def inside_def)

lemma key_of_inj: "key_of c = chunk_key (fst p) (snd p) \<longleftrightarrow> pos_of c = p"
  by (auto simp: key_of_def prod_eq_iff)

lemma store_ok_heap_ok: "store_ok w \<Longrightarrow> heap_ok w"
  by (simp add: store_ok_def heap_ok_def chunk_wf_def chunk_ok_def)

lemma store_ok_chunk:
  assumes "store_ok w" "map_of (w_chunks w) i = Some a"
  obtains c where "w_heap w a = Some c" "chunk_wf c" "i = key_of c" "inside w (pos_of c)" "a \<noteq> w_edge w"
  using assms unfolding store_ok_def by blast

lemma store_ok_edge:
  assumes "store_ok w"
  obtains e where "w_heap w (w_edge w) = Some e" "chunk_wf e"
  using assms unfolding store_ok_def by blast

lemma store_ok_wf: "store_ok w \<Longrightarrow> w_heap w a = Some c \<Longrightarrow> chunk_wf c"
  unfolding store_ok_def by blast

lemma store_ok_not_edge: "store_ok w \<Longrightarrow> map_of (w_chunks w) i \<noteq> Some (w_edge w)"
  unfolding store_ok_def by blast

lemma chunk_wf_relinked:
  assumes "chunk_wf c" "relinked_chunk c c'" shows "chunk_wf c'" "pos_of c' = pos_of c" "key_of c' = key_of c"
proof -
  from assms(2) obtain ns where "length ns = length (ch_neighbours c)" "c' = c\<lparr>ch_neighbours := ns\<rparr>"
    by (auto simp: relinked_chunk_def)
  then show "chunk_wf c'" "pos_of c' = pos_of c" "key_of c' = key_of c"
    using assms(1) by (simp_all add: chunk_wf_def chunk_ok_def heights_ok_def id_at_def chunk_cell_def pos_of_def key_of_def)
qed

lemma relinkedD:
  assumes "relinked w w'"
  shows "w_chunks w' = w_chunks w" "w_edge w' = w_edge w" "w_next w' = w_next w" "w_inf w' = w_inf w"
    "w_gen w' = w_gen w" "w_prov w' = w_prov w" "w_updates w' = w_updates w" "w_pls w' = w_pls w"
    "\<And>a. rel_option relinked_chunk (w_heap w a) (w_heap w' a)" "inside w' = inside w" "chunk_by p w' = chunk_by p w"
  using assms by (auto simp: relinked_def inside_def out_of_bounds_def chunk_by_def get_chunk_def fun_eq_iff)

lemma store_ok_relinked: "store_ok w \<Longrightarrow> relinked w w' \<Longrightarrow> store_ok w'"
proof -
  assume ok: "store_ok w" and r: "relinked w w'"
  note d = relinkedD [OF r]
  have from_new: "\<exists>c. w_heap w a = Some c \<and> relinked_chunk c c'" if "w_heap w' a = Some c'" for a c'
    using d(9) [of a] that by (cases "w_heap w a") auto
  have to_new: "\<exists>c'. w_heap w' a = Some c' \<and> relinked_chunk c c'" if "w_heap w a = Some c" for a c
    using d(9) [of a] that by (cases "w_heap w' a") auto
  show "store_ok w'"
    unfolding store_ok_def d(1-3,10)
  proof (intro conjI allI impI)
    show "distinct (map fst (w_chunks w))" using ok by (simp add: store_ok_def)
    show "w_heap w' (w_edge w) \<noteq> None" using store_ok_edge [OF ok] to_new by blast
    show "a < w_next w" if "w_heap w' a \<noteq> None" for a using that from_new [of a] ok by (auto simp: store_ok_def)
    show "chunk_wf c'" if "w_heap w' a = Some c'" for a c'
      using from_new [OF that] store_ok_wf [OF ok] chunk_wf_relinked(1) by blast
    fix i a assume m: "map_of (w_chunks w) i = Some a"
    then show "a \<noteq> w_edge w" using ok by (auto simp: store_ok_def)
    from store_ok_chunk [OF ok m] obtain c where c: "w_heap w a = Some c" "chunk_wf c" "i = key_of c" "inside w (pos_of c)"
      by blast
    with to_new obtain c' where c': "w_heap w' a = Some c'" "relinked_chunk c c'" by blast
    then show "\<exists>c. w_heap w' a = Some c \<and> i = key_of c \<and> inside w (pos_of c)"
      using c chunk_wf_relinked [OF c(2) c'(2)] by auto
  qed
qed

text \<open>Putting a chunk in its place: what \<open>put_chunk\<close> and \<open>load_chunk\<close> have in common.\<close>

definition placed :: "nat \<Rightarrow> u64 \<Rightarrow> 'p world \<Rightarrow> 'p world" where
  "placed ch k w = (let w = (case map_of (w_chunks w) k of None \<Rightarrow> w | Some old \<Rightarrow> w\<lparr>w_heap := (w_heap w)(old := None)\<rparr>)
     in w\<lparr>w_chunks := umap_set k ch (w_chunks w)\<rparr>)"

lemma placed_simps [simp]:
  "w_chunks (placed ch k w) = umap_set k ch (w_chunks w)" "w_edge (placed ch k w) = w_edge w"
  "w_next (placed ch k w) = w_next w" "inside (placed ch k w) = inside w"
  "w_heap (placed ch k w) a = (if map_of (w_chunks w) k = Some a then None else w_heap w a)"
  by (auto simp: placed_def Let_def inside_def out_of_bounds_def fun_eq_iff split: option.split)

lemma place_store_ok:
  assumes ok: "store_ok w" and c: "w_heap w ch = Some c" and new: "ch \<noteq> w_edge w" "\<And>i. map_of (w_chunks w) i \<noteq> Some ch"
    and ins: "inside w (pos_of c)"
  shows "store_ok (placed ch (key_of c) w)"
  unfolding store_ok_def placed_simps
proof (intro conjI allI impI)
  show "distinct (map fst (umap_set (key_of c) ch (w_chunks w)))"
    using ok by (simp add: store_ok_def distinct_umap_set)
  show "(if map_of (w_chunks w) (key_of c) = Some (w_edge w) then None else w_heap w (w_edge w)) \<noteq> None"
    using store_ok_not_edge [OF ok] store_ok_edge [OF ok] by (metis option.distinct(1))
  show "a < w_next w" if "(if map_of (w_chunks w) (key_of c) = Some a then None else w_heap w a) \<noteq> None" for a
    using that ok by (auto simp: store_ok_def split: if_splits)
  show "chunk_wf c'" if "(if map_of (w_chunks w) (key_of c) = Some a then None else w_heap w a) = Some c'" for a c'
    using that ok by (auto simp: store_ok_def split: if_splits)
  fix i a assume m: "map_of (umap_set (key_of c) ch (w_chunks w)) i = Some a"
  show "a \<noteq> w_edge w" using m new(1) store_ok_not_edge [OF ok, of i] by (auto split: if_splits)
  show "\<exists>c'. (if map_of (w_chunks w) (key_of c) = Some a then None else w_heap w a) = Some c' \<and>
      i = key_of c' \<and> inside w (pos_of c')"
  proof (cases "i = key_of c")
    case True
    then show ?thesis using m c new ins by simp
  next
    case False
    then have m': "map_of (w_chunks w) i = Some a" using m by simp
    from store_ok_chunk [OF ok m'] obtain ca where ca: "w_heap w a = Some ca" "i = key_of ca" "inside w (pos_of ca)" by blast
    have "map_of (w_chunks w) (key_of c) \<noteq> Some a"
      using store_ok_chunk [OF ok, of "key_of c" a] ca False by (metis option.inject)
    then show ?thesis using ca by simp
  qed
qed

lemma place_chunk:
  assumes ok: "world_ok w" and c: "w_heap w ch = Some c" and new: "ch \<noteq> w_edge w" "\<And>i. map_of (w_chunks w) i \<noteq> Some ch"
    and ins: "inside w (pos_of c)"
  shows "\<exists>w'. set_chunk_neighbours ch (placed ch (key_of c) w) = Some w' \<and> world_ok w'
    \<and> relinked (placed ch (key_of c) w) w'"
proof -
  let ?w = "placed ch (key_of c) w" and ?p = "pos_of c"
  have st: "store_ok w" using ok by (simp add: world_ok_def)
  have st1: "store_ok ?w" by (rule place_store_ok [OF st c new ins])
  have c1: "w_heap ?w ch = Some c" using c new by simp
  have by_other: "chunk_by q ?w = (if q = ?p then Some ch else chunk_by q w)" if "inside w q \<or> q \<noteq> ?p" for q
    using ins that by (cases q, cases "pos_of c") (auto simp: chunk_by_eq key_of_def)
  have live: "w_heap ?w n \<noteq> None \<and> n \<noteq> ch" if "chunk_by (step_to d ?p) ?w = Some n" for d n
  proof (cases "inside w (step_to d ?p)")
    case True
    then have "map_of (w_chunks ?w) (chunk_key (fst (step_to d ?p)) (snd (step_to d ?p))) = Some n"
      using that by (simp add: chunk_by_eq)
    moreover have "map_of (w_chunks w) (chunk_key (fst (step_to d ?p)) (snd (step_to d ?p))) = Some n"
      using that True by_other [of "step_to d ?p"] by (simp add: chunk_by_eq)
    ultimately show ?thesis using new store_ok_chunk [OF st1] by (metis option.distinct(1))
  next
    case False
    then show ?thesis using that st1 new(1) by (auto simp: chunk_by_eq store_ok_def)
  qed
  obtain w' where w': "foldl (\<lambda>r d. Option.bind r (link_side ch ?p d)) (Some ?w) sides = Some w'" "relinked ?w w'"
    "\<And>b e. link_of w' b e = (if b = ch \<and> e \<in> set sides then chunk_by (step_to e ?p) ?w
       else if chunk_by (step_to (opposite e) ?p) ?w = Some b \<and> opposite e \<in> set sides then Some ch else link_of ?w b e)"
    using link_sides [of ?w ch sides ?p] c1 store_ok_heap_ok [OF st1] live by (auto simp: sides_def)
  have sides: "e \<in> set sides" for e by (cases e) (simp_all add: sides_def)
  have r: "set_chunk_neighbours ch ?w = Some w'" using set_chunk_neighbours_sides [OF c1] w'(1) by simp
  have st': "store_ok w'" by (rule store_ok_relinked [OF st1 w'(2)])
  have "linked w'" unfolding linked_def
  proof (intro allI impI)
    fix i a ca' d assume m: "map_of (w_chunks w') i = Some a" and h: "w_heap w' a = Some ca'"
    have gl: "get_neighbour d ca' = link_of w' a d" using h by (simp add: link_of_def)
    have cb: "chunk_by q w' = chunk_by q ?w" for q by (rule relinkedD(11) [OF w'(2)])
    obtain ca where ca: "w_heap ?w a = Some ca" "pos_of ca' = pos_of ca"
      using relinkedD(9) [OF w'(2), of a] h st1 chunk_wf_relinked(2)
      by (cases "w_heap ?w a") (auto simp: store_ok_def)
    show "get_neighbour d ca' = chunk_by (step_to d (pos_of ca')) w'"
    proof (cases "a = ch")
      case True
      then show ?thesis using gl w'(3) sides ca c1 by (simp add: cb)
    next
      case False
      have m1: "map_of (w_chunks w) i = Some a" "i \<noteq> key_of c"
        using m False relinkedD(1) [OF w'(2)] by (auto split: if_splits)
      from store_ok_chunk [OF st m1(1)] obtain c0 where c0: "w_heap w a = Some c0" "i = key_of c0" "inside w (pos_of c0)" "a \<noteq> w_edge w"
        by blast
      have cc: "ca = c0" using ca(1) c0(1) by (simp split: if_splits)
      have ne: "pos_of c0 \<noteq> ?p" using m1(2) c0(2) by (auto simp: key_of_def)
      have at: "chunk_by q ?w = Some a \<longleftrightarrow> q = pos_of c0" for q
      proof
        assume q: "chunk_by q ?w = Some a"
        then have "inside w q" using c0(4) by (auto simp: chunk_by_eq split: if_splits)
        then have "map_of (w_chunks ?w) (chunk_key (fst q) (snd q)) = Some a" using q by (simp add: chunk_by_eq)
        from store_ok_chunk [OF st1 this] ca(1) cc show "q = pos_of c0" by (metis key_of_inj option.inject)
      next
        assume "q = pos_of c0"
        then show "chunk_by q ?w = Some a" using c0 m1 by (simp add: chunk_by_eq key_of_def) (metis prod_eqI ne)
      qed
      show ?thesis
      proof (cases "step_to (opposite d) ?p = pos_of c0")
        case True
        then have "step_to d (pos_of c0) = ?p" by (metis step_to_opposite(2))
        moreover have "link_of w' a d = Some ch" using w'(3) [of a d] False sides at True by simp
        moreover have "chunk_by ?p ?w = Some ch" using by_other [of ?p] ins by simp
        ultimately show ?thesis using gl ca(2) cc by (simp add: cb)
      next
        case other: False
        then have s: "step_to d (pos_of c0) \<noteq> ?p" by (metis step_to_opposite(1))
        have "link_of w' a d = link_of ?w a d" using w'(3) [of a d] False at other by simp
        also have "\<dots> = link_of w a d" using ca(1) cc c0(1) by (simp add: link_of_def)
        also have "\<dots> = chunk_by (step_to d (pos_of c0)) w"
          using ok m1(1) c0(1) by (auto simp: world_ok_def linked_def link_of_def)
        also have "\<dots> = chunk_by (step_to d (pos_of c0)) ?w" using by_other s by simp
        finally show ?thesis using gl ca(2) cc by (simp add: cb)
      qed
    qed
  qed
  with r st' w'(2) show ?thesis by (auto simp: world_ok_def)
qed

text \<open>Work on a chunk that keeps its frame.\<close>

lemma frame_facts:
  assumes "chunk_frame c c'" shows "pos_of c' = pos_of c" "key_of c' = key_of c" "get_neighbour d c' = get_neighbour d c"
  using assms by (simp_all add: chunk_frame_def pos_of_def key_of_def get_neighbour_def)

lemma world_ok_upd_place:
  assumes ok: "world_ok w" and h: "w_heap w a = Some c" and c': "chunk_wf c'"
    and fr: "pos_of c' = pos_of c" "key_of c' = key_of c" "\<And>d. get_neighbour d c' = get_neighbour d c"
  shows "world_ok (w\<lparr>w_heap := (w_heap w)(a \<mapsto> c')\<rparr>)"
proof -
  let ?w = "w\<lparr>w_heap := (w_heap w)(a \<mapsto> c')\<rparr>"
  have st: "store_ok w" using ok by (simp add: world_ok_def)
  have ins: "inside ?w = inside w" by (simp add: inside_def out_of_bounds_def fun_eq_iff)
  have cb: "chunk_by p ?w = chunk_by p w" for p by (simp add: chunk_by_eq ins)
  have heap: "\<exists>c0. w_heap w b = Some c0 \<and> pos_of cb = pos_of c0 \<and> key_of cb = key_of c0
      \<and> (\<forall>d. get_neighbour d cb = get_neighbour d c0)" if "w_heap ?w b = Some cb" for b cb
    using that h fr by (cases "b = a") auto
  have "store_ok ?w" unfolding store_ok_def
  proof (intro conjI allI impI)
    show "distinct (map fst (w_chunks ?w))" using st by (simp add: store_ok_def)
    show "w_heap ?w (w_edge ?w) \<noteq> None" using store_ok_edge [OF st] by (metis fun_upd_apply option.distinct(1) world.select_convs(4) world.surjective world.update_convs(4) world.select_convs(7))
    show "b < w_next ?w" if "w_heap ?w b \<noteq> None" for b using that h st by (auto simp: store_ok_def split: if_splits)
    show "chunk_wf cb" if "w_heap ?w b = Some cb" for b cb
      using that c' store_ok_wf [OF st] by (auto split: if_splits)
    fix i b assume m: "map_of (w_chunks ?w) i = Some b"
    then have m': "map_of (w_chunks w) i = Some b" by simp
    from store_ok_chunk [OF st m'] obtain c0 where c0: "w_heap w b = Some c0" "i = key_of c0" "inside w (pos_of c0)" "b \<noteq> w_edge w"
      by blast
    then show "b \<noteq> w_edge ?w" by simp
    show "\<exists>c. w_heap ?w b = Some c \<and> i = key_of c \<and> inside ?w (pos_of c)"
      using c0 h fr by (cases "b = a") (simp_all add: ins)
  qed
  moreover have "linked ?w" unfolding linked_def
  proof (intro allI impI)
    fix i b cb d assume m: "map_of (w_chunks ?w) i = Some b" and hb: "w_heap ?w b = Some cb"
    from heap [OF hb] obtain c0 where c0: "w_heap w b = Some c0" "pos_of cb = pos_of c0"
      "get_neighbour d cb = get_neighbour d c0" by blast
    with ok m have "get_neighbour d c0 = chunk_by (step_to d (pos_of c0)) w"
      unfolding world_ok_def linked_def by simp
    then show "get_neighbour d cb = chunk_by (step_to d (pos_of cb)) ?w" using c0 cb by simp
  qed
  ultimately show ?thesis by (simp add: world_ok_def)
qed

lemma world_ok_upd:
  assumes ok: "world_ok w" and h: "w_heap w a = Some c" and c': "chunk_wf c'" "chunk_frame c c'"
  shows "world_ok (w\<lparr>w_heap := (w_heap w)(a \<mapsto> c')\<rparr>)"
  by (rule world_ok_upd_place [OF ok h c'(1) frame_facts [OF c'(2)]])

lemma world_ok_alloc:
  assumes ok: "world_ok w" and wf: "chunk_wf c" and w': "w' = w\<lparr>w_heap := (w_heap w)(w_next w \<mapsto> c), w_next := Suc (w_next w)\<rparr>"
  shows "world_ok w'" "w_next w \<noteq> w_edge w" "map_of (w_chunks w) i \<noteq> Some (w_next w)" "inside w' = inside w"
proof -
  have st: "store_ok w" using ok by (simp add: world_ok_def)
  have free: "w_heap w (w_next w) = None" using st unfolding store_ok_def by (metis less_irrefl)
  have f: "w_chunks w' = w_chunks w" "w_edge w' = w_edge w" "w_next w' = Suc (w_next w)"
    "w_heap w' = (w_heap w)(w_next w \<mapsto> c)" by (simp_all add: w')
  show ins: "inside w' = inside w" by (simp add: inside_def out_of_bounds_def fun_eq_iff w')
  have cb: "chunk_by p w' = chunk_by p w" for p using ins by (simp add: chunk_by_eq f)
  obtain e where e: "w_heap w (w_edge w) = Some e" by (rule store_ok_edge [OF st])
  show ne: "w_next w \<noteq> w_edge w"
  proof
    assume "w_next w = w_edge w"
    then show False using free e by simp
  qed
  show "map_of (w_chunks w) i \<noteq> Some (w_next w)"
  proof
    assume m: "map_of (w_chunks w) i = Some (w_next w)"
    obtain c0 where "w_heap w (w_next w) = Some c0" by (rule store_ok_chunk [OF st m])
    then show False using free by simp
  qed
  have old: "w_heap w' b = w_heap w b" if "w_heap w b = Some c0" for b c0
    using that free by (cases "b = w_next w") (simp_all add: f)
  have new: "b = w_next w \<and> cb = c \<or> w_heap w b = Some cb" if "w_heap w' b = Some cb" for b cb
    using that by (cases "b = w_next w") (simp_all add: f)
  have "store_ok w'" unfolding store_ok_def
  proof (intro conjI allI impI)
    show "distinct (map fst (w_chunks w'))" using st by (simp add: store_ok_def f)
    show "w_heap w' (w_edge w') \<noteq> None" using old [OF e] e by (simp add: f(2))
    show "b < w_next w'" if b: "w_heap w' b \<noteq> None" for b
    proof -
      from b obtain cb where "w_heap w' b = Some cb" by blast
      from new [OF this] show ?thesis using st unfolding store_ok_def f(3) by (metis less_SucI lessI option.distinct(1))
    qed
    show "chunk_wf cb" if "w_heap w' b = Some cb" for b cb
      using new [OF that] wf store_ok_wf [OF st] by blast
    fix i b assume "map_of (w_chunks w') i = Some b"
    then have m': "map_of (w_chunks w) i = Some b" by (simp add: f)
    from store_ok_chunk [OF st m'] obtain c0 where c0: "w_heap w b = Some c0" "i = key_of c0" "inside w (pos_of c0)" "b \<noteq> w_edge w"
      by blast
    then show "b \<noteq> w_edge w'" by (simp add: f)
    show "\<exists>c. w_heap w' b = Some c \<and> i = key_of c \<and> inside w' (pos_of c)"
      using c0 old [OF c0(1)] by (auto simp: ins)
  qed
  moreover have "linked w'" unfolding linked_def
  proof (intro allI impI)
    fix i b cb d assume m: "map_of (w_chunks w') i = Some b" and hb: "w_heap w' b = Some cb"
    from m have m': "map_of (w_chunks w) i = Some b" by (simp add: f)
    obtain c0 where c0: "w_heap w b = Some c0" by (rule store_ok_chunk [OF st m'])
    with old hb have "w_heap w b = Some cb" by metis
    with ok m' have "get_neighbour d cb = chunk_by (step_to d (pos_of cb)) w" unfolding world_ok_def linked_def by blast
    then show "get_neighbour d cb = chunk_by (step_to d (pos_of cb)) w'" using cb by simp
  qed
  ultimately show "world_ok w'" by (simp add: world_ok_def)
qed

subsection \<open>Making and loading keep the invariant\<close>

text \<open>What the world relies on from its provider: the chunk it was asked for, well-formed.\<close>

definition provider_ok :: "'p provider_ops \<Rightarrow> bool" where
  "provider_ok ops \<longleftrightarrow> (\<forall>p x z c. fst (po_load ops p x z) = Chunk_loaded c \<longrightarrow> chunk_wf c \<and> pos_of c = (x, z))"

lemma generate_ok:
  assumes "chunk_wf c"
  obtains c' where "generator_generate g c = Some c'" "chunk_wf c'" "chunk_frame c c'"
  using flatgrass_cells [OF assms] by (cases g) auto

lemma light_ok:
  assumes "chunk_wf c"
  obtains c' where "light_chunk c = Some c'" "chunk_wf c'" "chunk_frame c c'"
  using light_chunk_sky [OF assms] unfolding sky_only_def by metis

lemma world_create_ok:
  fixes info :: world_data and prov :: "'p option"
  obtains w where "prepare_oob_chunk (world_empty info gen prov) = Some w" "world_ok w" "w_chunks w = []"
    "w_inf w = info" "w_gen w = gen" "w_prov w = prov"
proof -
  from generate_edge_cells [of 0 0] obtain c1 where c1: "generate_edge (chunk_init 0 0) = Some c1" "chunk_wf c1" by blast
  from light_ok [OF c1(2)] obtain c2 where c2: "light_chunk c1 = Some c2" "chunk_wf c2" .
  let ?w = "\<lparr>w_inf = info, w_gen = gen, w_prov = prov, w_heap = [0 \<mapsto> c2], w_next = 1,
     w_chunks = [], w_edge = 0, w_pls = [], w_updates = []\<rparr> :: 'p world"
  have r: "prepare_oob_chunk (world_empty info gen prov) = Some ?w"
    by (simp add: prepare_oob_chunk_def world_empty_def alloc_chunk_def upd_chunk_def c1(1) c2(1))
  have "world_ok ?w" using c2(2) by (auto simp: world_ok_def store_ok_def linked_def)
  with r that show thesis by simp
qed

lemma place_new:
  assumes ok: "world_ok w" and wf: "chunk_wf c" and ins: "inside w (pos_of c)" and new: "map_of (w_chunks w) (key_of c) = None"
    and a: "a = w_next w"
  defines "w1 \<equiv> w\<lparr>w_heap := (w_heap w)(a \<mapsto> c), w_next := Suc a\<rparr>"
  obtains w' c' where "set_chunk_neighbours a (w1\<lparr>w_chunks := umap_set (key_of c) a (w_chunks w1)\<rparr>) = Some w'" "world_ok w'"
    "relinked (w1\<lparr>w_chunks := umap_set (key_of c) a (w_chunks w1)\<rparr>) w'" "w_heap w' a = Some c'" "relinked_chunk c c'"
proof -
  have w1: "w1 = w\<lparr>w_heap := (w_heap w)(w_next w \<mapsto> c), w_next := Suc (w_next w)\<rparr>" by (simp add: w1_def a)
  note al = world_ok_alloc [OF ok wf w1]
  have f: "w_edge w1 = w_edge w" "w_chunks w1 = w_chunks w" "w_heap w1 a = Some c" by (simp_all add: w1_def)
  have pl: "placed a (key_of c) w1 = w1\<lparr>w_chunks := umap_set (key_of c) a (w_chunks w1)\<rparr>"
    using new by (simp add: placed_def f)
  have "\<exists>w'. set_chunk_neighbours a (placed a (key_of c) w1) = Some w' \<and> world_ok w' \<and> relinked (placed a (key_of c) w1) w'"
    by (rule place_chunk [OF al(1) f(3)]) (use al(2-4) ins in \<open>simp_all add: f a\<close>)
  then obtain w' where w': "set_chunk_neighbours a (placed a (key_of c) w1) = Some w'" "world_ok w'" "relinked (placed a (key_of c) w1) w'"
    by blast
  have "w_heap (placed a (key_of c) w1) a = Some c" using new f by simp
  from relinkedD(9) [OF w'(3), of a] this obtain c' where "w_heap w' a = Some c'" "relinked_chunk c c'"
    by (cases "w_heap w' a") simp_all
  with w' that pl show thesis by simp
qed

lemma world_ok_prov [simp]: "world_ok (w\<lparr>w_prov := p\<rparr>) = world_ok w"
  by (simp add: world_ok_def store_ok_def linked_def inside_def out_of_bounds_def chunk_by_def get_chunk_def)

text \<open>What \<open>load_chunk\<close> guarantees.\<close>

definition loads :: "u32 \<Rightarrow> u32 \<Rightarrow> 'p world \<Rightarrow> nat \<Rightarrow> 'p world \<Rightarrow> bool" where
  "loads x z w a w' \<longleftrightarrow> world_ok w' \<and> w_inf w' = w_inf w \<and> w_heap w' a \<noteq> None \<and> get_chunk x z w' = Some a
     \<and> (\<forall>x' z'. (x', z') \<noteq> (x, z) \<longrightarrow> get_chunk x' z' w' = get_chunk x' z' w)
     \<and> (\<forall>b c. w_heap w b = Some c \<longrightarrow> (\<exists>c'. w_heap w' b = Some c' \<and> relinked_chunk c c'))"

lemma load_present:
  assumes ok: "world_ok w" and g: "get_chunk x z w = Some a"
  shows "load_chunk ops x z w = Some (a, w) \<and> loads x z w a w"
proof -
  have st: "store_ok w" using ok by (simp add: world_ok_def)
  have "w_heap w a \<noteq> None"
  proof (cases "out_of_bounds w x z")
    case True
    then have "a = w_edge w" using g by (simp add: get_chunk_def)
    then show ?thesis using store_ok_edge [OF st] by blast
  next
    case False
    then have m: "map_of (w_chunks w) (chunk_key x z) = Some a" using g by (simp add: get_chunk_def)
    obtain c where "w_heap w a = Some c" by (rule store_ok_chunk [OF st m])
    then show ?thesis by simp
  qed
  moreover have "load_chunk ops x z w = Some (a, w)"
    using g by (simp add: load_chunk_def get_chunk_def split: if_splits)
  moreover have "\<exists>c'. w_heap w b = Some c' \<and> relinked_chunk c c'" if "w_heap w b = Some c" for b c
    using that by (intro exI [of _ c]) simp
  ultimately show ?thesis using ok g unfolding loads_def by blast
qed

text \<open>A new chunk in its place, whatever work then keeps its frame.\<close>

lemma load_new:
  assumes ok: "world_ok w" and wf: "chunk_wf c" and p: "pos_of c = (x, z)" and ins: "inside w (x, z)"
    and new: "map_of (w_chunks w) (chunk_key x z) = None" and a: "a = w_next w"
    and s: "set_chunk_neighbours a (w\<lparr>w_heap := (w_heap w)(a \<mapsto> c), w_next := Suc a,
        w_chunks := umap_set (chunk_key x z) a (w_chunks w)\<rparr>) = Some w1"
    and h: "w_heap w1 a = Some c1" and c2: "chunk_wf c2" "chunk_frame c1 c2"
  shows "loads x z w a (w1\<lparr>w_heap := (w_heap w1)(a \<mapsto> c2)\<rparr>)"
proof -
  have k: "key_of c = chunk_key x z" using p by (simp add: key_of_def)
  let ?v = "w\<lparr>w_heap := (w_heap w)(a \<mapsto> c), w_next := Suc a, w_chunks := umap_set (chunk_key x z) a (w_chunks w)\<rparr>"
  obtain w' where w': "set_chunk_neighbours a ?v = Some w'" "world_ok w'" "relinked ?v w'"
    by (rule place_new [OF ok wf _ _ a]) (use ins new p k in simp_all)
  then have r: "world_ok w1" "relinked ?v w1" using s by simp_all
  let ?w = "w1\<lparr>w_heap := (w_heap w1)(a \<mapsto> c2)\<rparr>"
  have ok': "world_ok ?w" by (rule world_ok_upd [OF r(1) h c2])
  have free: "w_heap w a = None"
    using ok a unfolding world_ok_def store_ok_def by (metis less_irrefl)
  have g: "get_chunk x' z' ?w = get_chunk x' z' ?v" for x' z'
  proof -
    have "get_chunk x' z' ?w = get_chunk x' z' w1" by simp
    then show ?thesis using relinked_get [OF r(2)] by simp
  qed
  have "get_chunk x z ?w = Some a"
    unfolding g using ins by (simp add: get_chunk_def inside_def)
  moreover have "get_chunk x' z' ?w = get_chunk x' z' w" if "(x', z') \<noteq> (x, z)" for x' z'
    unfolding g using that by (auto simp: get_chunk_def)
  moreover have "\<exists>c'. w_heap ?w b = Some c' \<and> relinked_chunk cb c'" if b: "w_heap w b = Some cb" for b cb
  proof -
    have "b \<noteq> a" using b free by auto
    then show ?thesis using relinkedD(9) [OF r(2), of b] b by (cases "w_heap w1 b") simp_all
  qed
  moreover have "w_inf ?w = w_inf w" using relinkedD(4) [OF r(2)] by simp
  ultimately show ?thesis using ok' unfolding loads_def by simp
qed

lemma loads_prov: "loads x z (w\<lparr>w_prov := p\<rparr>) a w' = loads x z w a w'"
  by (simp add: loads_def)

lemma place_at:
  assumes ok: "world_ok w" and wf: "chunk_wf c" and p: "pos_of c = (x, z)" and ins: "inside w (x, z)"
    and new: "map_of (w_chunks w) (chunk_key x z) = None"
  obtains w1 c1 where "set_chunk_neighbours (w_next w) (w\<lparr>w_heap := (w_heap w)(w_next w \<mapsto> c), w_next := Suc (w_next w),
        w_chunks := umap_set (chunk_key x z) (w_next w) (w_chunks w)\<rparr>) = Some w1"
    "w_heap w1 (w_next w) = Some c1" "relinked_chunk c c1" "chunk_wf c1"
proof -
  have k: "key_of c = chunk_key x z" using p by (simp add: key_of_def)
  obtain w1 c1 where r: "set_chunk_neighbours (w_next w) (w\<lparr>w_heap := (w_heap w)(w_next w \<mapsto> c), w_next := Suc (w_next w),
        w_chunks := umap_set (chunk_key x z) (w_next w) (w_chunks w)\<rparr>) = Some w1"
    "w_heap w1 (w_next w) = Some c1" "relinked_chunk c c1"
    by (rule place_new [OF ok wf _ _ refl]) (use ins new p k in simp_all)
  with chunk_wf_relinked(1) [OF wf] that show thesis by blast
qed

lemma load_generated:
  assumes ok: "world_ok w" and ins: "inside w (x, z)" and new: "map_of (w_chunks w) (chunk_key x z) = None"
  shows "\<exists>w'. (do {
      let (ch, w) = alloc_chunk (chunk_init x z) w;
      w \<leftarrow> upd_chunk ch (generator_generate (w_gen w)) w;
      w \<leftarrow> set_chunk_neighbours ch (w\<lparr>w_chunks := umap_set (chunk_key x z) ch (w_chunks w)\<rparr>);
      w \<leftarrow> upd_chunk ch light_chunk w;
      Some (ch, w) }) = Some (w_next w, w') \<and> loads x z w (w_next w) w'"
proof -
  obtain c where c: "generator_generate (w_gen w) (chunk_init x z) = Some c" "chunk_wf c" "chunk_frame (chunk_init x z) c"
    by (rule generate_ok [OF chunk_init_wf])
  have p: "pos_of c = (x, z)" using frame_facts(1) [OF c(3)] by (simp add: pos_of_def chunk_init_def chunk_pos_make_def)
  obtain w1 c1 where w1: "set_chunk_neighbours (w_next w) (w\<lparr>w_heap := (w_heap w)(w_next w \<mapsto> c), w_next := Suc (w_next w),
        w_chunks := umap_set (chunk_key x z) (w_next w) (w_chunks w)\<rparr>) = Some w1"
    "w_heap w1 (w_next w) = Some c1" "relinked_chunk c c1" "chunk_wf c1"
    by (rule place_at [OF ok c(2) p ins new])
  obtain c2 where c2: "light_chunk c1 = Some c2" "chunk_wf c2" "chunk_frame c1 c2" by (rule light_ok [OF w1(4)])
  have "loads x z w (w_next w) (w1\<lparr>w_heap := (w_heap w1)(w_next w \<mapsto> c2)\<rparr>)"
    by (rule load_new [OF ok c(2) p ins new refl w1(1,2) c2(2,3)])
  moreover have "upd_chunk (w_next w) light_chunk w1 = Some (w1\<lparr>w_heap := (w_heap w1)(w_next w \<mapsto> c2)\<rparr>)"
    using w1(2) c2(1) by (simp add: upd_chunk_def)
  moreover have sw: "w\<lparr>w_next := n, w_heap := h, w_chunks := m\<rparr> = w\<lparr>w_heap := h, w_next := n, w_chunks := m\<rparr>" for n h m
    by simp
  have "set_chunk_neighbours (w_next w) (w\<lparr>w_next := Suc (w_next w), w_heap := (w_heap w)(w_next w \<mapsto> c),
        w_chunks := umap_set (chunk_key x z) (w_next w) (w_chunks w)\<rparr>) = Some w1"
    unfolding sw by (rule w1(1))
  ultimately show ?thesis using w1(2) c2(1) by (simp add: alloc_chunk_def upd_chunk_def c(1))
qed

lemma load_provided:
  assumes ok: "world_ok w" and ins: "inside w (x, z)" and new: "map_of (w_chunks w) (chunk_key x z) = None"
    and c: "chunk_wf c" "pos_of c = (x, z)"
  shows "\<exists>w'. (do {
      let (ch, w) = alloc_chunk c w;
      w \<leftarrow> set_chunk_neighbours ch (w\<lparr>w_chunks := umap_set (chunk_key x z) ch (w_chunks w)\<rparr>);
      Some (ch, w) }) = Some (w_next w, w') \<and> loads x z w (w_next w) w'"
proof -
  obtain w1 c1 where w1: "set_chunk_neighbours (w_next w) (w\<lparr>w_heap := (w_heap w)(w_next w \<mapsto> c), w_next := Suc (w_next w),
        w_chunks := umap_set (chunk_key x z) (w_next w) (w_chunks w)\<rparr>) = Some w1"
    "w_heap w1 (w_next w) = Some c1" "relinked_chunk c c1" "chunk_wf c1"
    by (rule place_at [OF ok c ins new])
  have "loads x z w (w_next w) (w1\<lparr>w_heap := (w_heap w1)(w_next w \<mapsto> c1)\<rparr>)"
    by (rule load_new [OF ok c ins new refl w1(1,2) w1(4) chunk_frame_refl])
  moreover have "w1\<lparr>w_heap := (w_heap w1)(w_next w \<mapsto> c1)\<rparr> = w1" using w1(2) by (simp add: fun_upd_idem)
  ultimately show ?thesis using w1(1) by (simp add: alloc_chunk_def)
qed

lemma load_chunk_loads:
  assumes ok: "world_ok w" and prov: "provider_ok ops"
  shows "\<exists>a w'. load_chunk ops x z w = Some (a, w') \<and> loads x z w a w'"
proof (cases "get_chunk x z w")
  case (Some a)
  then show ?thesis using load_present [OF ok] by blast
next
  case None
  then have ob: "\<not> out_of_bounds w x z" and new: "map_of (w_chunks w) (chunk_key x z) = None"
    by (simp_all add: get_chunk_def split: if_splits)
  have gen: "\<exists>a w'. (case (No_chunk, v) of (found, w) \<Rightarrow> (do {
      let (ch, w) = alloc_chunk (chunk_init x z) w;
      w \<leftarrow> upd_chunk ch (generator_generate (w_gen w)) w;
      w \<leftarrow> set_chunk_neighbours ch (w\<lparr>w_chunks := umap_set (chunk_key x z) ch (w_chunks w)\<rparr>);
      w \<leftarrow> upd_chunk ch light_chunk w;
      Some (ch, w) })) = Some (a, w') \<and> loads x z w a w'" if v: "v = w \<or> (\<exists>p. v = w\<lparr>w_prov := p\<rparr>)" for v
  proof -
    have "world_ok v" "inside v (x, z)" "map_of (w_chunks v) (chunk_key x z) = None" "loads x z v = loads x z w"
      using v ok ob new by (auto simp: inside_def loads_prov fun_eq_iff)
    with load_generated [of v x z] show ?thesis by auto
  qed
  show ?thesis
  proof (cases "w_prov w")
    case None
    then show ?thesis using gen [of w] ob new by (simp add: load_chunk_def)
  next
    case (Some p)
    obtain r p' where r: "po_load ops p x z = (r, p')" by fastforce
    let ?v = "w\<lparr>w_prov := Some p'\<rparr>"
    show ?thesis
    proof (cases r)
      case (Chunk_loaded c)
      then have c: "chunk_wf c" "pos_of c = (x, z)" using prov r unfolding provider_ok_def by (metis fst_conv)+
      from load_provided [of ?v x z c] ok ob new c have
        "\<exists>w'. (do { let (ch, w) = alloc_chunk c ?v;
           w \<leftarrow> set_chunk_neighbours ch (w\<lparr>w_chunks := umap_set (chunk_key x z) ch (w_chunks w)\<rparr>);
           Some (ch, w) }) = Some (w_next w, w') \<and> loads x z w (w_next w) w'"
        by (simp add: inside_def loads_prov)
      then show ?thesis using Some r Chunk_loaded ob new by (auto simp: load_chunk_def)
    qed (use gen [of ?v] Some r ob new in \<open>auto simp: load_chunk_def\<close>)
  qed
qed

end
