(* ===== verification/World_Light.thy ===== *)
theory World_Light
  imports World
begin

text \<open>
  The lighting manager on a world: setting a block and propagating its light end, keep the types
  of every block and the invariant of the world, and fail where a neighbouring chunk is not loaded.
\<close>

subsection \<open>What lighting may change\<close>

definition same_blocks :: "chunk \<Rightarrow> chunk \<Rightarrow> bool" where
  "same_blocks c c' \<longleftrightarrow> (chunk_wf c \<longrightarrow> chunk_wf c') \<and> chunk_frame c c'
     \<and> (\<forall>x y z. in_chunk x y z \<longrightarrow> raw_type c' x y z = raw_type c x y z)"

definition relit :: "'p world \<Rightarrow> 'p world \<Rightarrow> bool" where
  "relit w w' \<longleftrightarrow> (\<exists>h u. w' = w\<lparr>w_heap := h, w_updates := u\<rparr> \<and> (\<forall>a. rel_option same_blocks (w_heap w a) (h a)))"

lemma same_blocks_refl [simp]: "same_blocks c c"
  by (simp add: same_blocks_def)

lemma same_blocks_trans: "same_blocks a b \<Longrightarrow> same_blocks b c \<Longrightarrow> same_blocks a c"
  by (auto simp: same_blocks_def chunk_frame_def)

lemma relit_refl [simp]: "relit w w"
  unfolding relit_def by (rule exI [of _ "w_heap w"], rule exI [of _ "w_updates w"]) (simp add: option.rel_refl)

lemma relit_trans: "relit u v \<Longrightarrow> relit v w \<Longrightarrow> relit u w"
proof -
  assume "relit u v" "relit v w"
  then obtain h1 u1 h2 u2 where 1: "v = u\<lparr>w_heap := h1, w_updates := u1\<rparr>" "\<And>a. rel_option same_blocks (w_heap u a) (h1 a)"
    and 2: "w = v\<lparr>w_heap := h2, w_updates := u2\<rparr>" "\<And>a. rel_option same_blocks (h1 a) (h2 a)"
    unfolding relit_def by auto
  have "rel_option same_blocks (w_heap u a) (h2 a)" for a
    using 1(2) [of a] 2(2) [of a]
    by (cases "w_heap u a"; cases "h1 a"; cases "h2 a") (auto intro: same_blocks_trans)
  moreover have "w = u\<lparr>w_heap := h2, w_updates := u2\<rparr>" using 1(1) 2(1) by simp
  ultimately show ?thesis unfolding relit_def by blast
qed

lemma relit_queue [simp]: "relit w (w\<lparr>w_updates := u\<rparr>)"
  unfolding relit_def by (rule exI [of _ "w_heap w"], rule exI [of _ u]) (simp add: option.rel_refl)

lemma relit_chunk:
  assumes "w_heap w a = Some c" "same_blocks c c'" shows "relit w (w\<lparr>w_heap := (w_heap w)(a \<mapsto> c')\<rparr>)"
  unfolding relit_def
  by (rule exI [of _ "(w_heap w)(a \<mapsto> c')"], rule exI [of _ "w_updates w"]) (use assms in \<open>simp add: option.rel_refl\<close>)

lemma relit_get: "relit w w' \<Longrightarrow> get_chunk x z w' = get_chunk x z w"
  by (auto simp: relit_def get_chunk_def)

lemma relit_heap:
  assumes "relit w w'" "w_heap w a = Some c"
  obtains c' where "w_heap w' a = Some c'" "same_blocks c c'"
proof -
  from assms obtain h u where h: "w' = w\<lparr>w_heap := h, w_updates := u\<rparr>" "rel_option same_blocks (Some c) (h a)"
    unfolding relit_def by metis
  then show thesis using that by (cases "h a") simp_all
qed

lemma relit_heap_back:
  assumes "relit w w'" "w_heap w' a = Some c'"
  obtains c where "w_heap w a = Some c" "same_blocks c c'"
proof -
  from assms obtain h u where h: "w' = w\<lparr>w_heap := h, w_updates := u\<rparr>" "rel_option same_blocks (w_heap w a) (h a)"
    unfolding relit_def by metis
  then show thesis using that assms(2) by (cases "w_heap w a") simp_all
qed

lemma world_ok_queue [simp]: "world_ok (w\<lparr>w_updates := u\<rparr>) = world_ok w"
  by (simp add: world_ok_def store_ok_def linked_def inside_def chunk_by_def)

lemma relit_world_ok:
  assumes ok: "world_ok w" and r: "relit w w'" shows "world_ok w'"
proof -
  have st: "store_ok w" using ok by (simp add: world_ok_def)
  have f: "w_chunks w' = w_chunks w" "w_edge w' = w_edge w" "w_next w' = w_next w" "inside w' = inside w"
    using r by (auto simp: relit_def inside_def fun_eq_iff)
  have cb: "chunk_by p w' = chunk_by p w" for p by (simp add: chunk_by_def relit_get [OF r])
  have sb: "pos_of c' = pos_of c" "key_of c' = key_of c" "get_neighbour d c' = get_neighbour d c"
    "chunk_wf c \<Longrightarrow> chunk_wf c'" if "same_blocks c c'" for c c' d
    using that frame_facts by (auto simp: same_blocks_def)
  have "store_ok w'" unfolding store_ok_def f
  proof (intro conjI allI impI)
    show "distinct (map fst (w_chunks w))" using st by (simp add: store_ok_def)
    obtain e where "w_heap w (w_edge w) = Some e" by (rule store_ok_edge [OF st])
    then obtain e' where "w_heap w' (w_edge w) = Some e'" by (rule relit_heap [OF r])
    then show "w_heap w' (w_edge w) \<noteq> None" by simp
    show "b < w_next w" if b: "w_heap w' b \<noteq> None" for b
    proof -
      from b obtain cb where "w_heap w' b = Some cb" by blast
      then obtain c where "w_heap w b = Some c" by (rule relit_heap_back [OF r])
      then show ?thesis using st unfolding store_ok_def by blast
    qed
    show "chunk_wf c'" if h: "w_heap w' b = Some c'" for b c'
    proof -
      from h obtain c where "w_heap w b = Some c" "same_blocks c c'" by (rule relit_heap_back [OF r])
      then show ?thesis using store_ok_wf [OF st] sb(4) by blast
    qed
    fix i b assume m: "map_of (w_chunks w) i = Some b"
    from store_ok_chunk [OF st m] obtain c where c: "w_heap w b = Some c" "i = key_of c" "inside w (pos_of c)" "b \<noteq> w_edge w"
      by blast
    then show "b \<noteq> w_edge w" by simp
    from c(1) obtain c' where "w_heap w' b = Some c'" "same_blocks c c'" by (rule relit_heap [OF r])
    then show "\<exists>c'. w_heap w' b = Some c' \<and> i = key_of c' \<and> inside w (pos_of c')" using c sb by auto
  qed
  moreover have "linked w'" unfolding linked_def f
  proof (intro allI impI)
    fix i b c' d assume m: "map_of (w_chunks w) i = Some b" and h: "w_heap w' b = Some c'"
    from h obtain c where c: "w_heap w b = Some c" "same_blocks c c'" by (rule relit_heap_back [OF r])
    have "get_neighbour d c = chunk_by (step_to d (pos_of c)) w"
      using ok m c(1) unfolding world_ok_def linked_def by blast
    then show "get_neighbour d c' = chunk_by (step_to d (pos_of c')) w'" using sb [OF c(2)] cb by simp
  qed
  ultimately show ?thesis by (simp add: world_ok_def)
qed

subsection \<open>One call\<close>

lemma lo4_less [simp]: "lo4 x < 16"
proof -
  have "x AND 15 = take_bit 4 x" by (simp add: take_bit_eq_mask mask_eq_exp_minus_1)
  then have "lo4 x = unat x mod 16" by (simp add: lo4_def unsigned_take_bit_eq take_bit_eq_mod unat_mod)
  then show ?thesis by simp
qed

lemma chunk_get_id_range: "chunk_ok c \<Longrightarrow> chunk_get_id x y z c = Some i \<Longrightarrow> y < 256"
proof (rule ccontr)
  assume a: "chunk_ok c" "chunk_get_id x y z c = Some i" "\<not> y < 256"
  then have "\<not> drop_bit 4 y < (16 :: nat)" by (simp add: drop_bit_eq_div)
  with a(1,2) show False by (simp add: chunk_get_id_def sub_at_def chunk_ok_def)
qed

lemma opaque_level:
  assumes "block_from_id i = Some b" shows "unat (15 - bi_opacity b) < 16"
proof -
  have "b \<in> set block_list" using assms by (auto simp: block_from_id_def Let_def split: if_splits)
  with opacities have r: "0 \<le> sint (bi_opacity b)" "sint (bi_opacity b) \<le> 15" by (auto simp: list_all_iff)
  then have "word_of_int (15 - sint (bi_opacity b)) = 15 - bi_opacity b" by (simp add: wi_hom_sub [symmetric])
  with level_word [of "15 - sint (bi_opacity b)"] r show ?thesis by simp
qed

text \<open>
  The opaque blocks whose level is not the one their opacity gives: a call that goes on to the
  neighbours has mended one of them.
\<close>

definition wrong_level :: "chunk \<Rightarrow> nat \<Rightarrow> nat \<Rightarrow> nat \<Rightarrow> bool" where
  "wrong_level c x y z \<longleftrightarrow> (\<exists>b. block_from_id (id_at c x y z) = Some b \<and> bi_opaque b \<and> sky_at c x y z \<noteq> 15 - bi_opacity b)"

definition pending :: "'p world \<Rightarrow> (nat \<times> nat \<times> nat \<times> nat) set" where
  "pending w = {(a, x, y, z). \<exists>c. w_heap w a = Some c \<and> in_chunk x y z \<and> wrong_level c x y z}"

lemma finite_pending: "world_ok w \<Longrightarrow> finite (pending w)"
proof (rule finite_subset)
  assume ok: "world_ok w"
  show "pending w \<subseteq> {..<w_next w} \<times> {..<16} \<times> {..<256} \<times> {..<16}"
    using ok by (auto simp: pending_def world_ok_def store_ok_def in_chunk_def)
  show "finite ({..<w_next w} \<times> {..<16 :: nat} \<times> {..<256 :: nat} \<times> {..<16 :: nat})" by simp
qed

lemma pending_queue [simp]: "pending (w\<lparr>w_updates := u\<rparr>) = pending w"
  by (simp add: pending_def)

lemma pending_chunk:
  "pending (w\<lparr>w_heap := (w_heap w)(a \<mapsto> c)\<rparr>) =
     {p \<in> pending w. fst p \<noteq> a} \<union> {(a', x, y, z). a' = a \<and> in_chunk x y z \<and> wrong_level c x y z}"
  by (auto simp: pending_def split: if_splits)

lemma cells_same_blocks: "cells_after c c' (raw_type c) sl bl \<Longrightarrow> same_blocks c c'"
  by (simp add: cells_after_def same_blocks_def)

lemma get_sky_keeps:
  assumes wf: "chunk_wf c" and p: "in_chunk x y z"
  obtains c' where "chunk_get_sky_light x y z c = Some (sky_at c x y z, c')" "same_blocks c c'" "chunk_wf c'"
    "\<And>x y z. in_chunk x y z \<Longrightarrow> sky_at c' x y z = sky_at c x y z"
proof -
  from chunk_get_light_cells(1) [OF assms] obtain c' where
    c': "chunk_get_sky_light x y z c = Some (sky_at c x y z, c')" "cells_after c c' (raw_type c) (sky_at c) (light_at c)"
    by blast
  show thesis
    by (rule that [OF c'(1) cells_same_blocks [OF c'(2)]]) (use c'(2) in \<open>simp_all add: cells_after_def\<close>)
qed

lemma set_sky_changes:
  assumes wf: "chunk_wf c" and p: "in_chunk x y z" and v: "unat v < 16"
  obtains c' where "chunk_set_sky_light x y z v c = Some c'" "same_blocks c c'" "chunk_wf c'"
    "\<And>x' y' z'. in_chunk x' y' z' \<Longrightarrow> sky_at c' x' y' z' = (if x' = x \<and> y' = y \<and> z' = z then v else sky_at c x' y' z')"
proof -
  from chunk_set_sky_light_cells [OF assms] obtain c' where
    c': "chunk_set_sky_light x y z v c = Some c'" "cells_after c c' (raw_type c) (upd3 (sky_at c) x y z v) (light_at c)"
    by blast
  show thesis
    by (rule that [OF c'(1) cells_same_blocks [OF c'(2)]]) (use c'(2) in \<open>simp_all add: cells_after_def upd3_def\<close>)
qed

lemma same_blocks_id: "same_blocks c c' \<Longrightarrow> in_chunk x y z \<Longrightarrow> id_at c' x y z = id_at c x y z"
  by (simp add: same_blocks_def id_at_def)

lemma wrong_level_cong:
  assumes "same_blocks c c'" "in_chunk x y z" "sky_at c' x y z = sky_at c x y z"
  shows "wrong_level c' x y z = wrong_level c x y z"
  using same_blocks_id [OF assms(1,2)] assms(3) by (simp add: wrong_level_def)

lemma pending_same:
  assumes h: "w_heap w a = Some c" and sb: "same_blocks c c'"
    and sky: "\<And>x y z. in_chunk x y z \<Longrightarrow> sky_at c' x y z = sky_at c x y z"
  shows "pending (w\<lparr>w_heap := (w_heap w)(a \<mapsto> c')\<rparr>) = pending w"
  unfolding pending_chunk
  using wrong_level_cong [OF sb _ sky] h by (auto simp: pending_def)

lemma pending_mended:
  assumes h: "w_heap w a = Some c" and sb: "same_blocks c c'" and p: "in_chunk x y z" and wr: "wrong_level c x y z"
    and b: "block_from_id (id_at c x y z) = Some b"
    and sky: "\<And>x' y' z'. in_chunk x' y' z' \<Longrightarrow>
      sky_at c' x' y' z' = (if x' = x \<and> y' = y \<and> z' = z then 15 - bi_opacity b else sky_at c x' y' z')"
  shows "pending (w\<lparr>w_heap := (w_heap w)(a \<mapsto> c')\<rparr>) = pending w - {(a, x, y, z)}"
proof -
  have "wrong_level c' x' y' z' \<longleftrightarrow> wrong_level c x' y' z' \<and> \<not> (x' = x \<and> y' = y \<and> z' = z)" if q: "in_chunk x' y' z'" for x' y' z'
  proof (cases "x' = x \<and> y' = y \<and> z' = z")
    case True
    then show ?thesis using sky [OF q] b same_blocks_id [OF sb q] by (simp add: wrong_level_def)
  next
    case False
    then show ?thesis using wrong_level_cong [OF sb q] sky [OF q] by (simp only: if_False) blast
  qed
  then show ?thesis unfolding pending_chunk using h by (auto simp: pending_def)
qed

subsection \<open>Calls one after the other\<close>

definition and_then :: "'p world option option \<Rightarrow> ('p world \<Rightarrow> 'p world option option) \<Rightarrow> 'p world option option" where
  "and_then r f = Option.bind r (\<lambda>r. case r of None \<Rightarrow> Some None | Some w \<Rightarrow> f w)"

text \<open>A call returns; unless it crashes the world is lit anew and no more blocks are pending.\<close>

definition runs :: "'p world \<Rightarrow> 'p world option option \<Rightarrow> bool" where
  "runs w r \<longleftrightarrow> r \<noteq> None \<and> (\<forall>w'. r = Some (Some w') \<longrightarrow> relit w w' \<and> pending w' \<subseteq> pending w)"

lemma runs_same [simp]: "runs w (Some (Some w))" "runs w (Some None)"
  by (simp_all add: runs_def)

lemma runs_then:
  assumes r: "runs w r" and f: "\<And>w'. relit w w' \<Longrightarrow> pending w' \<subseteq> pending w \<Longrightarrow> runs w' (f w')"
  shows "runs w (and_then r f)"
proof -
  from r obtain o' where o': "r = Some o'" by (auto simp: runs_def)
  show ?thesis
  proof (cases o')
    case None
    then show ?thesis by (simp add: o' and_then_def)
  next
    case (Some w')
    then have w': "relit w w'" "pending w' \<subseteq> pending w" using r o' by (auto simp: runs_def)
    from f [OF this] relit_trans [OF w'(1)] w'(2) show ?thesis
      by (auto simp: o' Some and_then_def runs_def)
  qed
qed

lemma runs_after: "relit w w1 \<Longrightarrow> pending w1 \<subseteq> pending w \<Longrightarrow> runs w1 r \<Longrightarrow> runs w r"
  unfolding runs_def using relit_trans by blast

lemma neighbours_eq:
  "enqueue_sl_neighbours x y z w =
     and_then (and_then (and_then (and_then (and_then (enqueue_sl (x - 1) y z w) (enqueue_sl (x + 1) y z))
       (enqueue_sl x y (z - 1))) (enqueue_sl x y (z + 1)))
       (\<lambda>w. if sint y > 0 then enqueue_sl x (y - 1) z w else Some (Some w)))
       (\<lambda>w. if sint y < 255 then enqueue_sl x (y + 1) z w else Some (Some w))"
  unfolding enqueue_sl_neighbours_def and_then_def
  by (auto split: Option.bind_splits option.splits)

lemma enqueue_sl_eq:
  "enqueue_sl x y z w = (case get_chunk (hi28 x) (hi28 z) w of
     None \<Rightarrow> Some None
   | Some a \<Rightarrow> (case w_heap w a of
       None \<Rightarrow> Some None
     | Some ch \<Rightarrow> (case chunk_get_id (lo4 x) (unat y) (lo4 z) ch of
         None \<Rightarrow> Some None
       | Some id' \<Rightarrow> (case block_from_id id' of
           None \<Rightarrow> Some None
         | Some binf \<Rightarrow>
             if bi_opaque binf then
               (case chunk_get_sky_light (lo4 x) (unat y) (lo4 z) ch of
                 None \<Rightarrow> Some None
               | Some (sl, ch) \<Rightarrow>
                   if 15 - bi_opacity binf = sl then Some (Some (w\<lparr>w_heap := (w_heap w)(a \<mapsto> ch)\<rparr>))
                   else (case chunk_set_sky_light (lo4 x) (unat y) (lo4 z) (15 - bi_opacity binf) ch of
                     None \<Rightarrow> Some None
                   | Some ch \<Rightarrow> enqueue_sl_neighbours x y z (w\<lparr>w_heap := (w_heap w)(a \<mapsto> ch)\<rparr>)))
             else Some (Some (w\<lparr>w_updates := w_updates w @ [(x, y, z)]\<rparr>))))))"
  by (subst enqueue_sl.simps) (simp only: enqueue_sl_neighbours_def)

text \<open>What a call does, in terms of the cells.\<close>

lemma enqueue_sl_cases:
  assumes ok: "world_ok w" and a: "get_chunk (hi28 x) (hi28 z) w = Some a" and c: "w_heap w a = Some c"
    and y: "unat y < 256" and b: "block_from_id (id_at c (lo4 x) (unat y) (lo4 z)) = Some b"
  shows "\<not> bi_opaque b \<Longrightarrow> enqueue_sl x y z w = Some (Some (w\<lparr>w_updates := w_updates w @ [(x, y, z)]\<rparr>))"
    "bi_opaque b \<Longrightarrow> \<not> wrong_level c (lo4 x) (unat y) (lo4 z) \<Longrightarrow>
       \<exists>w'. enqueue_sl x y z w = Some (Some w') \<and> relit w w' \<and> pending w' = pending w"
    "bi_opaque b \<Longrightarrow> wrong_level c (lo4 x) (unat y) (lo4 z) \<Longrightarrow>
       \<exists>w'. enqueue_sl x y z w = enqueue_sl_neighbours x y z w' \<and> relit w w' \<and>
         pending w' = pending w - {(a, lo4 x, unat y, lo4 z)}"
proof -
  have wf: "chunk_wf c" using ok c store_ok_wf by (auto simp: world_ok_def)
  have p: "in_chunk (lo4 x) (unat y) (lo4 z)" using y by (simp add: in_chunk_def)
  have get: "chunk_get_id (lo4 x) (unat y) (lo4 z) c = Some (id_at c (lo4 x) (unat y) (lo4 z))"
    by (rule chunk_get_id_at [OF _ p]) (use wf in \<open>simp add: chunk_wf_def\<close>)
  show "enqueue_sl x y z w = Some (Some (w\<lparr>w_updates := w_updates w @ [(x, y, z)]\<rparr>))" if "\<not> bi_opaque b"
    by (subst enqueue_sl_eq) (simp add: a c get b that)
  obtain c1 where c1: "chunk_get_sky_light (lo4 x) (unat y) (lo4 z) c = Some (sky_at c (lo4 x) (unat y) (lo4 z), c1)"
    "same_blocks c c1" "chunk_wf c1" "\<And>x y z. in_chunk x y z \<Longrightarrow> sky_at c1 x y z = sky_at c x y z"
    using get_sky_keeps [OF wf p] by metis
  show "\<exists>w'. enqueue_sl x y z w = Some (Some w') \<and> relit w w' \<and> pending w' = pending w"
    if o: "bi_opaque b" "\<not> wrong_level c (lo4 x) (unat y) (lo4 z)"
  proof -
    from o b have "15 - bi_opacity b = sky_at c (lo4 x) (unat y) (lo4 z)" by (simp add: wrong_level_def)
    then have "enqueue_sl x y z w = Some (Some (w\<lparr>w_heap := (w_heap w)(a \<mapsto> c1)\<rparr>))"
      by (subst enqueue_sl_eq) (simp add: a c get b o c1(1))
    with relit_chunk [OF c c1(2)] pending_same [OF c c1(2,4)] show ?thesis by blast
  qed
  show "\<exists>w'. enqueue_sl x y z w = enqueue_sl_neighbours x y z w' \<and> relit w w' \<and>
         pending w' = pending w - {(a, lo4 x, unat y, lo4 z)}"
    if o: "bi_opaque b" "wrong_level c (lo4 x) (unat y) (lo4 z)"
  proof -
    from o(2) b have ne: "15 - bi_opacity b \<noteq> sky_at c (lo4 x) (unat y) (lo4 z)" by (auto simp: wrong_level_def)
    obtain c2 where c2: "chunk_set_sky_light (lo4 x) (unat y) (lo4 z) (15 - bi_opacity b) c1 = Some c2" "same_blocks c1 c2"
      "\<And>x' y' z'. in_chunk x' y' z' \<Longrightarrow> sky_at c2 x' y' z' =
         (if x' = lo4 x \<and> y' = unat y \<and> z' = lo4 z then 15 - bi_opacity b else sky_at c1 x' y' z')"
      using set_sky_changes [OF c1(3) p opaque_level [OF b]] by metis
    have "enqueue_sl x y z w = enqueue_sl_neighbours x y z (w\<lparr>w_heap := (w_heap w)(a \<mapsto> c2)\<rparr>)"
      by (subst enqueue_sl_eq) (use ne in \<open>simp add: a c get b o c1(1) c2(1)\<close>)
    moreover have "pending (w\<lparr>w_heap := (w_heap w)(a \<mapsto> c2)\<rparr>) = pending w - {(a, lo4 x, unat y, lo4 z)}"
      by (rule pending_mended [OF c same_blocks_trans [OF c1(2) c2(2)] p o(2) b]) (simp add: c2(3) c1(4))
    ultimately show ?thesis using relit_chunk [OF c same_blocks_trans [OF c1(2) c2(2)]] by blast
  qed
qed

lemma neighbours_run:
  fixes w :: "'p world"
  assumes ok: "world_ok w"
    and IH: "\<And>x y z (w' :: 'p world). world_ok w' \<Longrightarrow> pending w' \<subseteq> pending w \<Longrightarrow> runs w' (enqueue_sl x y z w')"
  shows "runs w (enqueue_sl_neighbours x y z w)"
proof -
  have call: "runs w' (enqueue_sl x' y' z' w')" if "relit w w'" "pending w' \<subseteq> pending w" for x' y' z' w'
    using IH relit_world_ok [OF ok that(1)] that(2) by blast
  show ?thesis unfolding neighbours_eq
    by (intro runs_then) (simp_all add: call)
qed

lemma enqueue_sl_runs: "world_ok w \<Longrightarrow> runs w (enqueue_sl x y z w)"
proof (induction "card (pending w)" arbitrary: x y z w rule: less_induct)
  case less
  show ?case
  proof (cases "\<exists>a c b. get_chunk (hi28 x) (hi28 z) w = Some a \<and> w_heap w a = Some c \<and>
      chunk_get_id (lo4 x) (unat y) (lo4 z) c \<noteq> None \<and> block_from_id (id_at c (lo4 x) (unat y) (lo4 z)) = Some b \<and> unat y < 256")
    case False
    have "enqueue_sl x y z w = Some None"
    proof (cases "get_chunk (hi28 x) (hi28 z) w")
      case None
      then show ?thesis by (subst enqueue_sl_eq) simp
    next
      case a: (Some a)
      show ?thesis
      proof (cases "w_heap w a")
        case None
        with a show ?thesis by (subst enqueue_sl_eq) simp
      next
        case c: (Some c)
        have wf: "chunk_ok c" using less.prems c store_ok_wf by (auto simp: world_ok_def chunk_wf_def)
        show ?thesis
        proof (cases "chunk_get_id (lo4 x) (unat y) (lo4 z) c")
          case None
          with a c show ?thesis by (subst enqueue_sl_eq) simp
        next
          case i: (Some i)
          have y: "unat y < 256" by (rule chunk_get_id_range [OF wf i])
          then have "i = id_at c (lo4 x) (unat y) (lo4 z)"
            using chunk_get_id_at [OF wf, of "lo4 x" "unat y" "lo4 z"] i by (simp add: in_chunk_def)
          with False a c i y have "block_from_id i = None" by auto
          with a c i show ?thesis by (subst enqueue_sl_eq) simp
        qed
      qed
    qed
    then show ?thesis by simp
  next
    case True
    then obtain a c b where h: "get_chunk (hi28 x) (hi28 z) w = Some a" "w_heap w a = Some c" "unat y < 256"
      "block_from_id (id_at c (lo4 x) (unat y) (lo4 z)) = Some b" by blast
    note cases = enqueue_sl_cases [OF less.prems h]
    consider "\<not> bi_opaque b" | "bi_opaque b" "\<not> wrong_level c (lo4 x) (unat y) (lo4 z)"
      | "bi_opaque b" "wrong_level c (lo4 x) (unat y) (lo4 z)" by blast
    then show ?thesis
    proof cases
      case 1
      then show ?thesis using cases(1) by (simp add: runs_def)
    next
      case 2
      from cases(2) [OF 2] obtain w' where "enqueue_sl x y z w = Some (Some w')" "relit w w'" "pending w' = pending w"
        by blast
      then show ?thesis by (simp add: runs_def)
    next
      case 3
      from cases(3) [OF 3] obtain w' where w': "enqueue_sl x y z w = enqueue_sl_neighbours x y z w'" "relit w w'"
        "pending w' = pending w - {(a, lo4 x, unat y, lo4 z)}" by blast
      have "(a, lo4 x, unat y, lo4 z) \<in> pending w" using h 3 by (simp add: pending_def in_chunk_def)
      have less': "card (pending v) < card (pending w)" if "pending v \<subseteq> pending w'" for v :: "'a world"
      proof (rule psubset_card_mono [OF finite_pending [OF less.prems]])
        show "pending v \<subset> pending w"
          using that \<open>(a, lo4 x, unat y, lo4 z) \<in> pending w\<close> unfolding w'(3) by blast
      qed
      have nb: "runs w' (enqueue_sl_neighbours x y z w')"
        by (rule neighbours_run [OF relit_world_ok [OF less.prems w'(2)]]) (rule less.hyps [OF less'])
      have "pending w' \<subseteq> pending w" using w'(3) by blast
      from runs_after [OF w'(2) this nb] show ?thesis by (simp only: w'(1))
    qed
  qed
qed

subsection \<open>Setting a block\<close>

lemma upd_ok:
  assumes ok: "world_ok w" and c: "w_heap w a = Some c" and f: "f c = Some c'" "chunk_wf c'" "chunk_frame c c'"
  shows "upd_chunk a f w = Some (w\<lparr>w_heap := (w_heap w)(a \<mapsto> c')\<rparr>)" "world_ok (w\<lparr>w_heap := (w_heap w)(a \<mapsto> c')\<rparr>)"
  using world_ok_upd [OF ok c f(2,3)] c f(1) by (simp_all add: upd_chunk_def)

text \<open>The writes of \<open>set_id\<close> and \<open>set_id_and_meta\<close> on a chunk; outside the chunk they crash.\<close>

definition id_write :: "(chunk \<Rightarrow> chunk option) \<Rightarrow> nat \<Rightarrow> nat \<Rightarrow> nat \<Rightarrow> u16 \<Rightarrow> bool" where
  "id_write f x y z i \<longleftrightarrow> (\<forall>c. chunk_wf c \<longrightarrow> (if in_chunk x y z
     then \<exists>c'. f c = Some c' \<and> chunk_wf c' \<and> chunk_frame c c' \<and> (\<forall>x' y' z'. in_chunk x' y' z' \<longrightarrow>
        sky_at c' x' y' z' = sky_at c x' y' z' \<and>
        id_at c' x' y' z' = (if x' = x \<and> y' = y \<and> z' = z then i else id_at c x' y' z'))
     else f c = None))"

lemma sub_at_out: "chunk_wf c \<Longrightarrow> \<not> y < 256 \<Longrightarrow> sub_at y c = None"
  by (simp add: sub_at_def chunk_wf_def chunk_ok_def drop_bit_eq_div Let_def)

lemma set_id_write:
  assumes "unat i < 4096" "x < 16" "z < 16"
  shows "id_write (chunk_set_id x y z i) x y z i"
  unfolding id_write_def
proof (intro allI impI)
  fix c assume wf: "chunk_wf c"
  show "if in_chunk x y z then \<exists>c'. chunk_set_id x y z i c = Some c' \<and> chunk_wf c' \<and> chunk_frame c c' \<and>
      (\<forall>x' y' z'. in_chunk x' y' z' \<longrightarrow> sky_at c' x' y' z' = sky_at c x' y' z' \<and>
        id_at c' x' y' z' = (if x' = x \<and> y' = y \<and> z' = z then i else id_at c x' y' z'))
     else chunk_set_id x y z i c = None"
  proof (cases "in_chunk x y z")
    case True
    from chunk_set_id_cells [OF wf this assms(1)] obtain c' where c': "chunk_set_id x y z i c = Some c'"
      "cells_after c c' (upd3 (raw_type c) x y z ((raw_type c x y z AND 0x000F) OR push_bit 4 i)) (sky_at c) (light_at c)"
      by blast
    have "id_at c' x' y' z' = (if x' = x \<and> y' = y \<and> z' = z then i else id_at c x' y' z')" if "in_chunk x' y' z'" for x' y' z'
      by (rule id_at_set(1) [OF assms(1) c'(2) that])
    moreover have "chunk_wf c'" "chunk_frame c c'" "\<And>x' y' z'. in_chunk x' y' z' \<Longrightarrow> sky_at c' x' y' z' = sky_at c x' y' z'"
      using c'(2) by (simp_all add: cells_after_def)
    ultimately show ?thesis using True c'(1) by (simp only: if_True) blast
  next
    case False
    then have "sub_at y c = None" using sub_at_out [OF wf] assms by (simp add: in_chunk_def)
    with False show ?thesis by (simp add: chunk_set_id_def)
  qed
qed

lemma set_id_and_meta_write:
  assumes "unat i < 4096" "unat m < 16" "x < 16" "z < 16"
  shows "id_write (chunk_set_id_and_meta x y z i m) x y z i"
  unfolding id_write_def
proof (intro allI impI)
  fix c assume wf: "chunk_wf c"
  show "if in_chunk x y z then \<exists>c'. chunk_set_id_and_meta x y z i m c = Some c' \<and> chunk_wf c' \<and> chunk_frame c c' \<and>
      (\<forall>x' y' z'. in_chunk x' y' z' \<longrightarrow> sky_at c' x' y' z' = sky_at c x' y' z' \<and>
        id_at c' x' y' z' = (if x' = x \<and> y' = y \<and> z' = z then i else id_at c x' y' z'))
     else chunk_set_id_and_meta x y z i m c = None"
  proof (cases "in_chunk x y z")
    case True
    from chunk_set_id_and_meta_cells [OF wf this assms(1,2)] obtain c' where c': "chunk_set_id_and_meta x y z i m c = Some c'"
      "cells_after c c' (upd3 (raw_type c) x y z (push_bit 4 i OR ucast m)) (sky_at c) (light_at c)"
      by blast
    have "id_at c' x' y' z' = (if x' = x \<and> y' = y \<and> z' = z then i else id_at c x' y' z')" if q: "in_chunk x' y' z'" for x' y' z'
    proof -
      have "raw_type c' x' y' z' = upd3 (raw_type c) x y z (push_bit 4 i OR ucast m) x' y' z'"
        using c'(2) q by (simp only: cells_after_def)
      then show ?thesis using u16_id_meta [OF assms(1,2)]
        by (cases "x' = x \<and> y' = y \<and> z' = z") (simp_all only: id_at_def upd3_def if_True if_False simp_thms)
    qed
    moreover have "chunk_wf c'" "chunk_frame c c'" "\<And>x' y' z'. in_chunk x' y' z' \<Longrightarrow> sky_at c' x' y' z' = sky_at c x' y' z'"
      using c'(2) by (simp_all add: cells_after_def)
    ultimately show ?thesis using True c'(1) by (simp only: if_True) blast
  next
    case False
    then have "sub_at y c = None" using sub_at_out [OF wf] assms by (simp add: in_chunk_def)
    with False show ?thesis by (simp add: chunk_set_id_and_meta_def)
  qed
qed

lemma load_chunk_ok:
  assumes "world_ok w" "provider_ok ops" "load_chunk ops x z w = Some (a, w')"
  shows "loads x z w a w'"
  using load_chunk_loads [OF assms(1,2), of x z] assms(3) by auto

lemma chunk_to_set_ok:
  assumes ok: "world_ok w" and prov: "provider_ok ops"
  shows "chunk_to_set ops x z i w = Some (None, w) \<and> i = 0 \<or>
    (\<exists>a w'. chunk_to_set ops x z i w = Some (Some a, w') \<and> loads (hi28 x) (hi28 z) w a w')"
proof (cases "get_chunk (hi28 x) (hi28 z) w")
  case None
  from load_chunk_loads [OF ok prov, of "hi28 x" "hi28 z"] None show ?thesis
    by (auto simp: chunk_to_set_def)
next
  case (Some a)
  with load_present [OF ok Some] show ?thesis by (simp add: chunk_to_set_def)
qed

lemma set_then_light:
  assumes ok: "world_ok w" and c: "w_heap w a = Some c" and f: "id_write f (lo4 x) (unat y) (lo4 z) i"
  shows "\<exists>r. (case upd_chunk a f w of None \<Rightarrow> Some None | Some w \<Rightarrow> enqueue_sl x y z w) = Some r \<and>
    (\<forall>w'. r = Some w' \<longrightarrow> world_ok w')"
proof (cases "f c")
  case None
  then have "upd_chunk a f w = None" by (simp add: upd_chunk_def c)
  then show ?thesis by simp
next
  case (Some c')
  have wf: "chunk_wf c" using ok c store_ok_wf by (auto simp: world_ok_def)
  with f Some have "chunk_wf c'" "chunk_frame c c'" by (auto simp: id_write_def split: if_splits)
  note u = upd_ok [where f = f, OF ok c Some this]
  have r: "runs (w\<lparr>w_heap := (w_heap w)(a \<mapsto> c')\<rparr>) (enqueue_sl x y z (w\<lparr>w_heap := (w_heap w)(a \<mapsto> c')\<rparr>))"
    by (rule enqueue_sl_runs [OF u(2)])
  then show ?thesis using relit_world_ok [OF u(2)] by (auto simp: u(1) runs_def)
qed

lemma world_set_returns:
  assumes ok: "world_ok w" and prov: "provider_ok ops" and i: "unat i < 4096"
  shows "\<exists>r. world_set_id ops x y z i w = Some r \<and> (\<forall>w'. r = Some w' \<longrightarrow> world_ok w')"
    and "unat m < 16 \<Longrightarrow> \<exists>r. world_set_id_and_meta ops x y z i m w = Some r \<and> (\<forall>w'. r = Some w' \<longrightarrow> world_ok w')"
proof -
  have gen: "\<exists>r. (case chunk_to_set ops x z i w of
       None \<Rightarrow> Some None
     | Some (None, w) \<Rightarrow> Some (Some w)
     | Some (Some a, w) \<Rightarrow> (case upd_chunk a f w of
         None \<Rightarrow> Some None
       | Some w \<Rightarrow> enqueue_sl x y z w)) = Some r \<and> (\<forall>w'. r = Some w' \<longrightarrow> world_ok w')"
    if f: "id_write f (lo4 x) (unat y) (lo4 z) i" for f
    using chunk_to_set_ok [OF ok prov, of x z i]
  proof
    assume "chunk_to_set ops x z i w = Some (None, w) \<and> i = 0"
    then have none: "chunk_to_set ops x z i w = Some (None, w)" by (rule conjunct1)
    show ?thesis unfolding none using ok by simp
  next
    assume "\<exists>a w'. chunk_to_set ops x z i w = Some (Some a, w') \<and> loads (hi28 x) (hi28 z) w a w'"
    then obtain a w1 where 1: "chunk_to_set ops x z i w = Some (Some a, w1)" "world_ok w1" "w_heap w1 a \<noteq> None"
      by (auto simp: loads_def)
    then obtain c where c: "w_heap w1 a = Some c" by blast
    from set_then_light [OF 1(2) c f] show ?thesis by (simp add: 1(1))
  qed
  show "\<exists>r. world_set_id ops x y z i w = Some r \<and> (\<forall>w'. r = Some w' \<longrightarrow> world_ok w')"
    unfolding world_set_id_def by (rule gen [OF set_id_write [OF i]]) simp_all
  show "\<exists>r. world_set_id_and_meta ops x y z i m w = Some r \<and> (\<forall>w'. r = Some w' \<longrightarrow> world_ok w')" if "unat m < 16"
    unfolding world_set_id_and_meta_def by (rule gen [OF set_id_and_meta_write [OF i that]]) simp_all
qed

text \<open>Reading and writing through a loaded chunk.\<close>

definition cell_of :: "'p world \<Rightarrow> u32 \<Rightarrow> u32 \<Rightarrow> u32 \<Rightarrow> (nat option \<times> nat \<times> nat \<times> nat)" where
  "cell_of w x y z = (get_chunk (hi28 x) (hi28 z) w, lo4 x, unat y, lo4 z)"

lemma get_chunk_live:
  assumes ok: "world_ok w" and g: "get_chunk x z w = Some a"
  obtains c where "w_heap w a = Some c" "chunk_wf c"
proof -
  have st: "store_ok w" using ok by (simp add: world_ok_def)
  have "w_heap w a \<noteq> None" using load_present [OF ok g, of undefined] by (simp add: loads_def)
  then obtain c where c: "w_heap w a = Some c" by blast
  then show thesis using that store_ok_wf [OF st c] by blast
qed

lemma world_get_id_at:
  assumes ok: "world_ok w" and g: "get_chunk (hi28 x) (hi28 z) w = Some a" "w_heap w a = Some c" and y: "unat y < 256"
  shows "world_get_id x y z w = Some (id_at c (lo4 x) (unat y) (lo4 z))"
proof -
  have "chunk_ok c" using ok g(2) store_ok_wf by (auto simp: world_ok_def chunk_wf_def)
  then show ?thesis using g y chunk_get_id_at [of c "lo4 x" "unat y" "lo4 z"]
    by (simp add: world_get_id_def in_chunk_def)
qed

lemma world_get_id_relit:
  assumes ok: "world_ok w" and r: "relit w w'" and y: "unat y < 256"
  shows "world_get_id x y z w' = world_get_id x y z w"
proof (cases "get_chunk (hi28 x) (hi28 z) w")
  case None
  then show ?thesis using relit_get [OF r] by (simp add: world_get_id_def)
next
  case (Some a)
  obtain c where c: "w_heap w a = Some c" by (rule get_chunk_live [OF ok Some])
  then obtain c' where c': "w_heap w' a = Some c'" "same_blocks c c'" by (rule relit_heap [OF r])
  have "in_chunk (lo4 x) (unat y) (lo4 z)" using y by (simp add: in_chunk_def)
  then show ?thesis
    using world_get_id_at [OF ok Some c y] world_get_id_at [OF relit_world_ok [OF ok r] _ c'(1) y, of x z]
      Some relit_get [OF r] same_blocks_id [OF c'(2)] by simp
qed

lemma world_get_id_upd:
  assumes ok: "world_ok w" and a: "get_chunk (hi28 x) (hi28 z) w = Some a" and c: "w_heap w a = Some c"
    and c': "chunk_wf c'" "chunk_frame c c'" and y: "unat y' < 256"
    and ids: "\<And>x' y' z'. in_chunk x' y' z' \<Longrightarrow>
      id_at c' x' y' z' = (if x' = lo4 x \<and> y' = unat y \<and> z' = lo4 z then i else id_at c x' y' z')"
  shows "world_get_id x' y' z' (w\<lparr>w_heap := (w_heap w)(a \<mapsto> c')\<rparr>) =
    (if cell_of w x' y' z' = cell_of w x y z then Some i else world_get_id x' y' z' w)"
proof -
  let ?w = "w\<lparr>w_heap := (w_heap w)(a \<mapsto> c')\<rparr>"
  have ok': "world_ok ?w" by (rule world_ok_upd [OF ok c c'])
  have p: "in_chunk (lo4 x') (unat y') (lo4 z')" using y by (simp add: in_chunk_def)
  show ?thesis
  proof (cases "get_chunk (hi28 x') (hi28 z') w")
    case None
    then show ?thesis using a by (simp add: world_get_id_def cell_of_def)
  next
    case (Some b)
    show ?thesis
    proof (cases "b = a")
      case True
      have "world_get_id x' y' z' ?w = Some (id_at c' (lo4 x') (unat y') (lo4 z'))"
        by (rule world_get_id_at [OF ok' _ _ y, where a = a]) (simp_all add: Some True)
      moreover have "world_get_id x' y' z' w = Some (id_at c (lo4 x') (unat y') (lo4 z'))"
        by (rule world_get_id_at [OF ok _ c y]) (simp add: Some True)
      ultimately show ?thesis using ids [OF p] Some True a by (simp add: cell_of_def)
    next
      case False
      then have "cell_of w x' y' z' \<noteq> cell_of w x y z" using Some a by (simp add: cell_of_def)
      with False Some show ?thesis by (simp add: world_get_id_def)
    qed
  qed
qed

lemma set_id_in_loaded:
  assumes ok: "world_ok w" and a: "get_chunk (hi28 x) (hi28 z) w = Some a" and i: "unat i < 4096" and y: "unat y < 256"
  obtains c c' where "w_heap w a = Some c" "chunk_wf c'" "chunk_frame c c'"
    "world_set_id ops x y z i w = enqueue_sl x y z (w\<lparr>w_heap := (w_heap w)(a \<mapsto> c')\<rparr>)"
    "\<And>x' y' z'. in_chunk x' y' z' \<Longrightarrow> sky_at c' x' y' z' = sky_at c x' y' z'"
    "\<And>x' y' z'. in_chunk x' y' z' \<Longrightarrow>
      id_at c' x' y' z' = (if x' = lo4 x \<and> y' = unat y \<and> z' = lo4 z then i else id_at c x' y' z')"
proof -
  obtain c where c: "w_heap w a = Some c" "chunk_wf c" by (rule get_chunk_live [OF ok a])
  have "in_chunk (lo4 x) (unat y) (lo4 z)" using y by (simp add: in_chunk_def)
  with set_id_write [OF i, of "lo4 x" "lo4 z" "unat y"] c(2) obtain c' where
    c': "chunk_set_id (lo4 x) (unat y) (lo4 z) i c = Some c'" "chunk_wf c'" "chunk_frame c c'"
    "\<forall>x' y' z'. in_chunk x' y' z' \<longrightarrow> sky_at c' x' y' z' = sky_at c x' y' z' \<and>
      id_at c' x' y' z' = (if x' = lo4 x \<and> y' = unat y \<and> z' = lo4 z then i else id_at c x' y' z')"
    unfolding id_write_def by auto
  have "world_set_id ops x y z i w = enqueue_sl x y z (w\<lparr>w_heap := (w_heap w)(a \<mapsto> c')\<rparr>)"
    by (simp add: world_set_id_def chunk_to_set_def a upd_chunk_def c(1) c'(1))
  with c(1) c'(2-4) that show thesis by blast
qed

lemma world_set_get_cells:
  assumes ok: "world_ok w" and a: "get_chunk (hi28 x) (hi28 z) w \<noteq> None" and i: "unat i < 4096" and y: "unat y < 256"
    and s: "world_set_id ops x y z i w = Some (Some w')" and y': "unat y' < 256"
  shows "world_get_id x' y' z' w' = (if cell_of w x' y' z' = cell_of w x y z then Some i else world_get_id x' y' z' w)"
proof -
  from a obtain a where a: "get_chunk (hi28 x) (hi28 z) w = Some a" by blast
  show ?thesis
  proof (rule set_id_in_loaded [OF ok a i y])
    fix c c' assume c: "w_heap w a = Some c" "chunk_wf c'" "chunk_frame c c'"
      "world_set_id ops x y z i w = enqueue_sl x y z (w\<lparr>w_heap := (w_heap w)(a \<mapsto> c')\<rparr>)"
      and ids: "\<And>x' y' z'. in_chunk x' y' z' \<Longrightarrow>
        id_at c' x' y' z' = (if x' = lo4 x \<and> y' = unat y \<and> z' = lo4 z then i else id_at c x' y' z')"
    let ?w = "w\<lparr>w_heap := (w_heap w)(a \<mapsto> c')\<rparr>"
    have ok': "world_ok ?w" by (rule world_ok_upd [OF ok c(1-3)])
    from enqueue_sl_runs [OF ok', of x y z] s c(4) have r: "relit ?w w'" by (simp add: runs_def)
    show ?thesis
      using world_get_id_relit [OF ok' r y'] world_get_id_upd [OF ok a c(1-3) y' ids] by (rule trans)
  qed
qed

lemma split_coordinate: "hi28 x = hi28 x' \<Longrightarrow> lo4 x = lo4 x' \<Longrightarrow> x = x'"
proof -
  assume a: "hi28 x = hi28 x'" "lo4 x = lo4 x'"
  have l: "take_bit 4 x = take_bit 4 x'"
  proof -
    have "x AND 15 = x' AND 15" using a(2) by (simp add: lo4_def word_unat_eq_iff)
    moreover have "(15 :: u32) = mask 4" by (simp add: mask_eq_exp_minus_1)
    ultimately show ?thesis by (simp only: take_bit_eq_mask)
  qed
  show "x = x'"
  proof (rule bit_word_eqI)
    fix n assume n: "n < LENGTH(32)"
    show "bit x n \<longleftrightarrow> bit x' n"
    proof (cases "n < 4")
      case True
      then show ?thesis using l by (metis bit_take_bit_iff)
    next
      case False
      have "bit (hi28 x) (n - 4) = bit x n" for x :: u32
        using False n by (auto simp: bit_signed_drop_bit_iff)
      then show ?thesis using a(1) by metis
    qed
  qed
qed

lemma cell_of_inj:
  assumes ok: "world_ok w" and a: "get_chunk (hi28 x) (hi28 z) w \<noteq> None" and ins: "\<not> out_of_bounds w (hi28 x) (hi28 z)"
  shows "cell_of w x' y' z' = cell_of w x y z \<longleftrightarrow> x' = x \<and> y' = y \<and> z' = z"
proof
  assume c: "cell_of w x' y' z' = cell_of w x y z"
  have st: "store_ok w" using ok by (simp add: world_ok_def)
  from a obtain a where m: "map_of (w_chunks w) (chunk_key (hi28 x) (hi28 z)) = Some a" "get_chunk (hi28 x) (hi28 z) w = Some a"
    using ins by (auto simp: get_chunk_def)
  have g: "get_chunk (hi28 x') (hi28 z') w = Some a" "lo4 x' = lo4 x" "unat y' = unat y" "lo4 z' = lo4 z"
    using c m by (simp_all add: cell_of_def)
  have ins': "\<not> out_of_bounds w (hi28 x') (hi28 z')"
    using g(1) m(1) store_ok_not_edge [OF st, of "chunk_key (hi28 x) (hi28 z)"] by (auto simp: get_chunk_def)
  then have m': "map_of (w_chunks w) (chunk_key (hi28 x') (hi28 z')) = Some a" using g(1) by (simp add: get_chunk_def)
  have "chunk_key (hi28 x') (hi28 z') = chunk_key (hi28 x) (hi28 z)"
    using store_ok_chunk [OF st m(1)] store_ok_chunk [OF st m'] by (metis option.inject)
  then have "hi28 x' = hi28 x" "hi28 z' = hi28 z" by simp_all
  with g(2-4) split_coordinate show "x' = x \<and> y' = y \<and> z' = z" by (metis word_unat_eq_iff)
qed simp

lemma set_id_transparent:
  assumes ok: "world_ok w" and a: "get_chunk (hi28 x) (hi28 z) w \<noteq> None" and i: "unat i < 4096" and y: "unat y < 256"
    and b: "block_from_id i = Some b" "\<not> bi_opaque b"
  shows "\<exists>w'. world_set_id ops x y z i w = Some (Some w')"
proof -
  from a obtain a where a: "get_chunk (hi28 x) (hi28 z) w = Some a" by blast
  show ?thesis
  proof (rule set_id_in_loaded [OF ok a i y])
    fix c c' assume c: "w_heap w a = Some c" "chunk_wf c'" "chunk_frame c c'"
      "world_set_id ops x y z i w = enqueue_sl x y z (w\<lparr>w_heap := (w_heap w)(a \<mapsto> c')\<rparr>)"
      and ids: "\<And>x' y' z'. in_chunk x' y' z' \<Longrightarrow>
        id_at c' x' y' z' = (if x' = lo4 x \<and> y' = unat y \<and> z' = lo4 z then i else id_at c x' y' z')"
    have "id_at c' (lo4 x) (unat y) (lo4 z) = i" using ids [of "lo4 x" "unat y" "lo4 z"] y by (simp add: in_chunk_def)
    with enqueue_sl_cases(1) [OF world_ok_upd [OF ok c(1-3)], of x z a c' y b] a y b c(4) show ?thesis by simp
  qed
qed

text \<open>
  C30: in a world whose chunks are consistent, setting a block of a loaded chunk inside the
  bounds stores the id there and leaves the type of every other block of the world as it was,
  whatever the lighting does; for a block that passes light the call always returns.
\<close>

theorem world_set_id_correct:
  assumes "world_ok w" "get_chunk (hi28 x) (hi28 z) w \<noteq> None" "\<not> out_of_bounds w (hi28 x) (hi28 z)"
    and "unat i < 4096" "unat y < 256"
  shows "(\<forall>b. block_from_id i = Some b \<and> \<not> bi_opaque b \<longrightarrow> (\<exists>w'. world_set_id ops x y z i w = Some (Some w'))) \<and>
    (\<forall>w'. world_set_id ops x y z i w = Some (Some w') \<longrightarrow> world_get_id x y z w' = Some i \<and>
      (\<forall>x' y' z'. unat y' < 256 \<and> \<not> (x' = x \<and> y' = y \<and> z' = z) \<longrightarrow>
         world_get_id x' y' z' w' = world_get_id x' y' z' w))"
  using set_id_transparent [OF assms(1,2,4,5)] world_set_get_cells [OF assms(1,2,4,5)] cell_of_inj [OF assms(1-3)]
    assms(5) by simp

text \<open>
  C33: all positions outside the bounds of a world share one chunk: a block set at one of them
  appears at every position outside the bounds that has the same offset in its chunk.
\<close>

theorem out_of_bounds_blocks_shared:
  assumes "world_ok w" "out_of_bounds w (hi28 x) (hi28 z)" "out_of_bounds w (hi28 x') (hi28 z')"
    and "lo4 x' = lo4 x" "lo4 z' = lo4 z" "unat i < 4096" "unat y < 256"
    and "world_set_id ops x y z i w = Some (Some w')"
  shows "world_get_id x' y z' w' = Some i"
proof -
  have g: "get_chunk (hi28 x) (hi28 z) w = Some (w_edge w)" "get_chunk (hi28 x') (hi28 z') w = Some (w_edge w)"
    using assms(2,3) by (simp_all add: get_chunk_def)
  then have "cell_of w x' y z' = cell_of w x y z" using assms(4,5) by (simp add: cell_of_def)
  with world_set_get_cells [OF assms(1) _ assms(6,7,8,7), of x' z'] g(1) show ?thesis by simp
qed


subsection \<open>The worker's step\<close>

lemma nibble_get_less: "unat (nibble_get i bs) < 16"
proof -
  have "b AND 0x0F = take_bit 4 b" for b :: byte by (simp add: take_bit_eq_mask mask_eq_exp_minus_1)
  then have "unat (b AND 0x0F) < 16" for b :: byte by (simp add: unsigned_take_bit_eq take_bit_eq_mod unat_mod)
  moreover have "unat (drop_bit 4 b) < 16" for b :: byte
    using unsigned_less [of b, where ?'a = nat] by (simp add: unsigned_drop_bit_eq drop_bit_eq_div unat_div less_mult_imp_div_less)
  ultimately show ?thesis by (simp add: nibble_get_def)
qed

lemma sky_of_relit:
  assumes ok: "world_ok w" and xz: "bx < 16" "bz < 16" and s: "sky_of a bx y bz w = Some (v, w')"
  shows "relit w w' \<and> 0 \<le> v \<and> v \<le> 15"
proof (cases a)
  case None
  then show ?thesis using s by (simp add: sky_of_def)
next
  case (Some b)
  with s obtain c sl c' where c: "w_heap w b = Some c" "chunk_get_sky_light bx (unat y) bz c = Some (sl, c')"
    "v = uint sl" "w' = w\<lparr>w_heap := (w_heap w)(b \<mapsto> c')\<rparr>"
    by (auto simp: sky_of_def Option.bind_eq_Some_conv)
  have wf: "chunk_wf c" using ok c(1) store_ok_wf by (auto simp: world_ok_def)
  have "unat y < 256"
  proof (rule ccontr)
    assume "\<not> unat y < 256"
    from sub_at_out [OF wf this] c(2) show False by (simp add: chunk_get_sky_light_def)
  qed
  with xz have p: "in_chunk bx (unat y) bz" by (simp add: in_chunk_def)
  obtain c1 where c1: "chunk_get_sky_light bx (unat y) bz c = Some (sky_at c bx (unat y) bz, c1)" "same_blocks c c1"
    using get_sky_keeps [OF wf p] by metis
  have "Some (sl, c') = Some (sky_at c bx (unat y) bz, c1)" by (rule trans [OF c(2) [symmetric] c1(1)])
  then have eq: "sl = sky_at c bx (unat y) bz" "c' = c1" by (simp_all only: option.inject prod.inject)
  have "unat sl < 16" unfolding eq(1) chunk_cell_def by (rule nibble_get_less)
  then have "0 \<le> v \<and> v \<le> 15" using c(3) uint_nat [of sl] by linarith
  moreover have "relit w w'" unfolding c(4) eq(2) by (rule relit_chunk [OF c(1) c1(2)])
  ultimately show ?thesis by blast
qed

lemma calc_level_relit:
  assumes ok: "world_ok w" and xz: "bx < 16" "bz < 16" and s: "calc_level a bx y bz w = Some (sl, w')"
  shows "relit w w' \<and> 0 \<le> sl \<and> sl \<le> 15"
proof -
  have step: "world_ok w2 \<and> relit w w2 \<and> 0 \<le> v \<and> v \<le> 15"
    if "world_ok w1 \<and> relit w w1" "sky_of b x' y' z' w1 = Some (v, w2)" "x' < 16" "z' < 16" for w1 w2 b x' y' z' v
    using sky_of_relit [OF _ that(3,4,2)] that(1) relit_world_ok relit_trans by blast
  from s obtain ch h where ch: "w_heap w a = Some ch" "get_height bx bz ch = Some h"
    by (auto simp: calc_level_def Option.bind_eq_Some_conv)
  show ?thesis
  proof (cases "sint y \<ge> h")
    case True
    then show ?thesis using s ch by (simp add: calc_level_def)
  next
    case False
    with s ch obtain v1 w1 v2 w2 v3 w3 v4 w4 v5 w5 v6 where
      1: "(if bx = 15 then sky_of (get_neighbour DIR_EAST ch) 0 y bz w else sky_of (Some a) (bx + 1) y bz w) = Some (v1, w1)"
      and 2: "(if bx = 0 then sky_of (get_neighbour DIR_WEST ch) 15 y bz w1 else sky_of (Some a) (bx - 1) y bz w1) = Some (v2, w2)"
      and 3: "(if bz = 15 then sky_of (get_neighbour DIR_SOUTH ch) bx y 0 w2 else sky_of (Some a) bx y (bz + 1) w2) = Some (v3, w3)"
      and 4: "(if bz = 0 then sky_of (get_neighbour DIR_NORTH ch) bx y 15 w3 else sky_of (Some a) bx y (bz - 1) w3) = Some (v4, w4)"
      and 5: "(if y = 255 then Some (15, w4) else sky_of (Some a) bx (y + 1) bz w4) = Some (v5, w5)"
      and 6: "(if y = 0 then Some (0, w5) else sky_of (Some a) bx (y - 1) bz w5) = Some (v6, w')"
      and sl: "sl = (if max v1 (max v2 (max v3 (max v4 (max v5 (max v6 0))))) - 1 < 0 then 0
          else max v1 (max v2 (max v3 (max v4 (max v5 (max v6 0))))) - 1)"
      by (auto simp: calc_level_def Option.bind_eq_Some_conv Let_def simp del: split_paired_Ex split_paired_All)
    have r1: "world_ok w1 \<and> relit w w1 \<and> 0 \<le> v1 \<and> v1 \<le> 15"
      using 1 step [of w] ok xz by (simp split: if_splits)
    have r2: "world_ok w2 \<and> relit w w2 \<and> 0 \<le> v2 \<and> v2 \<le> 15"
      using 2 step [of w1] r1 xz by (simp split: if_splits)
    have r3: "world_ok w3 \<and> relit w w3 \<and> 0 \<le> v3 \<and> v3 \<le> 15"
      using 3 step [of w2] r2 xz by (simp split: if_splits)
    have r4: "world_ok w4 \<and> relit w w4 \<and> 0 \<le> v4 \<and> v4 \<le> 15"
      using 4 step [of w3] r3 xz by (simp split: if_splits)
    have r5: "world_ok w5 \<and> relit w w5 \<and> 0 \<le> v5 \<and> v5 \<le> 15"
      using 5 step [of w4] r4 xz by (auto split: if_splits)
    have r6: "world_ok w' \<and> relit w w' \<and> 0 \<le> v6 \<and> v6 \<le> 15"
      using 6 step [of w5] r5 xz by (auto split: if_splits)
    let ?m = "max v1 (max v2 (max v3 (max v4 (max v5 (max v6 0)))))"
    have "?m \<le> 15" unfolding max.bounded_iff using r1 r2 r3 r4 r5 r6 by simp
    then have "0 \<le> sl \<and> sl \<le> 15" unfolding sl by (simp only: not_less split: if_split) linarith
    with r6 show ?thesis by blast
  qed
qed

lemma calc_sl_returns:
  assumes ok: "world_ok w"
  shows "\<exists>r. calc_sl x y z w = Some r \<and> (\<forall>w'. r = Some w' \<longrightarrow> relit w w')"
proof (cases "get_chunk (hi28 x) (hi28 z) w")
  case None
  then show ?thesis by (simp add: calc_sl_def)
next
  case a: (Some a)
  show ?thesis
  proof (cases "calc_level a (lo4 x) y (lo4 z) w")
    case None
    then show ?thesis using a by (simp add: calc_sl_def)
  next
    case l: (Some p)
    obtain sl w1 where p: "p = (sl, w1)" by (cases p)
    have r1: "relit w w1" "0 \<le> sl" "sl \<le> 15" using calc_level_relit [OF ok _ _ l [unfolded p]] by simp_all
    have ok1: "world_ok w1" by (rule relit_world_ok [OF ok r1(1)])
    show ?thesis
    proof (cases "sky_of (Some a) (lo4 x) y (lo4 z) w1")
      case None
      then show ?thesis using a l p by (simp add: calc_sl_def)
    next
      case o: (Some q)
      obtain old w2 where q: "q = (old, w2)" by (cases q)
      have r2: "relit w1 w2" using sky_of_relit [OF ok1 _ _ o [unfolded q]] by simp
      have ok2: "world_ok w2" by (rule relit_world_ok [OF ok1 r2])
      show ?thesis
      proof (cases "sl = old")
        case True
        then show ?thesis using a l p o q relit_trans [OF r1(1) r2] by (simp add: calc_sl_def)
      next
        case False
        show ?thesis
        proof (cases "upd_chunk a (chunk_set_sky_light (lo4 x) (unat y) (lo4 z) (word_of_int sl)) w2")
          case None
          then show ?thesis using a l p o q False by (simp add: calc_sl_def)
        next
          case u: (Some w3)
          then obtain c c' where c: "w_heap w2 a = Some c" "w3 = w2\<lparr>w_heap := (w_heap w2)(a \<mapsto> c')\<rparr>"
            "chunk_set_sky_light (lo4 x) (unat y) (lo4 z) (word_of_int sl) c = Some c'"
            by (auto simp: upd_chunk_def Option.bind_eq_Some_conv)
          have wf: "chunk_wf c" using ok2 c(1) store_ok_wf by (auto simp: world_ok_def)
          have "unat y < 256"
          proof (rule ccontr)
            assume "\<not> unat y < 256"
            from sub_at_out [OF wf this] c(3) show False by (simp add: chunk_set_sky_light_def)
          qed
          then have "in_chunk (lo4 x) (unat y) (lo4 z)" by (simp add: in_chunk_def)
          from set_sky_changes [OF wf this level_word [OF r1(2,3)]] c(3) have "same_blocks c c'" by auto
          from relit_chunk [OF c(1) this] have r3: "relit w2 w3" by (simp add: c(2))
          have ok3: "world_ok w3" by (rule relit_world_ok [OF ok2 r3])
          have "runs w3 (enqueue_sl_neighbours x y z w3)"
            by (rule neighbours_run [OF ok3 enqueue_sl_runs])
          then obtain r where r: "enqueue_sl_neighbours x y z w3 = Some r" "\<forall>w'. r = Some w' \<longrightarrow> relit w3 w'"
            by (auto simp: runs_def)
          have eq: "calc_sl x y z w = Some r" using a l p o q False u r(1) by (simp add: calc_sl_def)
          have "relit w w3" by (rule relit_trans [OF r1(1) relit_trans [OF r2 r3]])
          then show ?thesis using eq r(2) relit_trans by blast
        qed
      qed
    qed
  qed
qed

lemma process_update_returns:
  assumes ok: "world_ok w"
  shows "\<exists>r. process_update w = Some r \<and> (\<forall>w'. r = Some w' \<longrightarrow> world_ok w' \<and> relit w w')"
proof (cases "w_updates w = []")
  case True
  then show ?thesis using ok by (simp add: process_update_def)
next
  case False
  obtain x y z where l: "last (w_updates w) = (x, y, z)" by (cases "last (w_updates w)")
  have "world_ok (w\<lparr>w_updates := butlast (w_updates w)\<rparr>)" using ok by simp
  from calc_sl_returns [OF this, of x y z] obtain r where
    r: "calc_sl x y z (w\<lparr>w_updates := butlast (w_updates w)\<rparr>) = Some r"
    "\<And>w'. r = Some w' \<Longrightarrow> relit (w\<lparr>w_updates := butlast (w_updates w)\<rparr>) w'" by blast
  have "relit w w'" if "r = Some w'" for w' by (rule relit_trans [OF relit_queue r(2) [OF that]])
  then show ?thesis using r(1) False l relit_world_ok [OF ok] by (simp add: process_update_def)
qed

end
