(* ===== verification/World_Reach.thy ===== *)
theory World_Reach
  imports World_Light
begin

text \<open>
  The operations of a world as steps, the invariant of every world they reach, and the failure of
  a block change at the border of the loaded chunks.
\<close>

subsection \<open>Steps\<close>

inductive world_step :: "'p provider_ops \<Rightarrow> 'p world \<Rightarrow> 'p world \<Rightarrow> bool" for ops where
  load: "load_chunk ops x z w = Some (a, w') \<Longrightarrow> world_step ops w w'"
| put: "chunk_wf c \<Longrightarrow> inside w (pos_of c) \<Longrightarrow> alloc_chunk c w = (a, w1) \<Longrightarrow> put_chunk a w1 = Some w' \<Longrightarrow> world_step ops w w'"
| set_id: "unat i < 4096 \<Longrightarrow> world_set_id ops x y z i w = Some (Some w') \<Longrightarrow> world_step ops w w'"
| set_both: "unat i < 4096 \<Longrightarrow> unat m < 16 \<Longrightarrow> world_set_id_and_meta ops x y z i m w = Some (Some w') \<Longrightarrow> world_step ops w w'"
| get_sl: "world_get_sky_light x y z w = Some (sl, w') \<Longrightarrow> world_step ops w w'"
| set_sl: "unat sl < 16 \<Longrightarrow> world_set_sky_light x y z sl w = Some w' \<Longrightarrow> world_step ops w w'"
| light: "process_update w = Some (Some w') \<Longrightarrow> world_step ops w w'"
| add_pl: "world_step ops w (add_player pl w)"
| remove_pl: "world_step ops w (remove_player pl w)"
| save: "save_all ops w = Some w' \<Longrightarrow> world_step ops w w'"

inductive reachable_world :: "'p provider_ops \<Rightarrow> 'p world \<Rightarrow> bool" for ops where
  created: "world_create ops name seed gen prov width depth = Some w \<Longrightarrow> reachable_world ops w"
| loaded: "world_load_from (Some wd) p = Some (Some w) \<Longrightarrow> reachable_world ops w"
| step: "reachable_world ops w \<Longrightarrow> world_step ops w w' \<Longrightarrow> reachable_world ops w'"

lemma put_chunk_placed: "w_heap w ch = Some c \<Longrightarrow> put_chunk ch w = set_chunk_neighbours ch (placed ch (key_of c) w)"
  by (simp add: put_chunk_def placed_def key_of_def pos_of_def Let_def)

lemma put_ok:
  assumes ok: "world_ok w" and c: "chunk_wf c" "inside w (pos_of c)" and a: "alloc_chunk c w = (a, w1)"
  shows "\<exists>w'. put_chunk a w1 = Some w' \<and> world_ok w'"
proof -
  have w1: "w1 = w\<lparr>w_heap := (w_heap w)(w_next w \<mapsto> c), w_next := Suc (w_next w)\<rparr>" and a': "a = w_next w"
    using a unfolding alloc_chunk_def by auto
  note al = world_ok_alloc [OF ok c(1) w1]
  have h: "w_heap w1 a = Some c" by (simp add: w1 a')
  have "\<exists>w'. set_chunk_neighbours a (placed a (key_of c) w1) = Some w' \<and> world_ok w' \<and> relinked (placed a (key_of c) w1) w'"
    by (rule place_chunk [OF al(1) h]) (use al(2-4) c(2) in \<open>simp_all add: a' w1\<close>)
  then show ?thesis using put_chunk_placed [OF h] by auto
qed

lemma world_ok_players [simp]: "world_ok (w\<lparr>w_pls := ps\<rparr>) = world_ok w"
  by (simp add: world_ok_def store_ok_def linked_def inside_def chunk_by_def)

lemma save_all_ok: "save_all ops w = Some w' \<Longrightarrow> world_ok w' = world_ok w"
  by (auto simp: save_all_def split: option.splits)

lemma sky_light_ops_ok:
  assumes ok: "world_ok w"
  shows "world_get_sky_light x y z w = Some (sl, w') \<Longrightarrow> world_ok w'"
    and "unat v < 16 \<Longrightarrow> world_set_sky_light x y z v w = Some w' \<Longrightarrow> world_ok w'"
proof -
  show "world_ok w'" if s: "world_get_sky_light x y z w = Some (sl, w')"
  proof (cases "get_chunk (hi28 x) (hi28 z) w")
    case None
    then show ?thesis using s ok by (simp add: world_get_sky_light_def)
  next
    case (Some a)
    then have "sky_of (Some a) (lo4 x) y (lo4 z) w = Some (uint sl, w')"
      using s by (auto simp: world_get_sky_light_def sky_of_def Option.bind_eq_Some_conv)
    from sky_of_relit [OF ok _ _ this] show ?thesis using relit_world_ok [OF ok] by simp
  qed
  show "world_ok w'" if v: "unat v < 16" and s: "world_set_sky_light x y z v w = Some w'"
  proof (cases "get_chunk (hi28 x) (hi28 z) w")
    case None
    then show ?thesis using s ok by (simp add: world_set_sky_light_def)
  next
    case (Some a)
    with s obtain c c' where c: "w_heap w a = Some c" "chunk_set_sky_light (lo4 x) (unat y) (lo4 z) v c = Some c'"
      "w' = w\<lparr>w_heap := (w_heap w)(a \<mapsto> c')\<rparr>"
      by (auto simp: world_set_sky_light_def upd_chunk_def Option.bind_eq_Some_conv)
    have wf: "chunk_wf c" using ok c(1) store_ok_wf by (auto simp: world_ok_def)
    have "unat y < 256"
    proof (rule ccontr)
      assume "\<not> unat y < 256"
      from sub_at_out [OF wf this] c(2) show False by (simp add: chunk_set_sky_light_def)
    qed
    then have "in_chunk (lo4 x) (unat y) (lo4 z)" by (simp add: in_chunk_def)
    from set_sky_changes [OF wf this v] c(2) have "same_blocks c c'" by auto
    from relit_world_ok [OF ok relit_chunk [OF c(1) this]] show ?thesis by (simp add: c(3))
  qed
qed

lemma world_step_ok: "world_step ops w w' \<Longrightarrow> provider_ok ops \<Longrightarrow> world_ok w \<Longrightarrow> world_ok w'"
proof (induction rule: world_step.induct)
  case (load x z w a w')
  from load_chunk_ok [OF load.prems(2,1) load.hyps] show ?case by (simp add: loads_def)
next
  case (put c w a w1 w')
  then show ?case using put_ok [OF put.prems(2) put.hyps(1-3)] by auto
next
  case (set_id i x y z w w')
  then show ?case using world_set_returns(1) [OF set_id.prems(2,1) set_id.hyps(1), of x y z] by auto
next
  case (set_both i m x y z w w')
  then show ?case using world_set_returns(2) [OF set_both.prems(2,1) set_both.hyps(1,2), of x y z] by auto
next
  case (get_sl x y z w sl w')
  then show ?case using sky_light_ops_ok(1) by blast
next
  case (set_sl sl x y z w w')
  then show ?case using sky_light_ops_ok(2) by blast
next
  case (light w w')
  then show ?case using process_update_returns [OF light.prems(2)] by auto
qed (simp_all add: add_player_def remove_player_def save_all_ok)

lemma prepared_ok:
  assumes "prepare_oob_chunk (world_empty info gen prov) = Some w"
  shows "world_ok w" "w_chunks w = []" "w_inf w = info"
proof -
  obtain w' where "prepare_oob_chunk (world_empty info gen prov) = Some w'" "world_ok w'" "w_chunks w' = []" "w_inf w' = info"
    using world_create_ok [of info gen prov] by metis
  with assms show "world_ok w" "w_chunks w = []" "w_inf w = info" by simp_all
qed

lemma reachable_world_ok: "reachable_world ops w \<Longrightarrow> provider_ok ops \<Longrightarrow> world_ok w"
proof (induction rule: reachable_world.induct)
  case (created name seed gen prov width depth w)
  then show ?case unfolding world_create_def Let_def using prepared_ok(1) by blast
next
  case (loaded wd p w)
  then show ?case unfolding world_load_from_def Let_def option.case map_option_eq_Some
    using prepared_ok(1) by blast
next
  case (step w w')
  then show ?case using world_step_ok by blast
qed


subsection \<open>At the border of the loaded chunks\<close>

lemma and_then_someD:
  "and_then r f = Some (Some w') \<Longrightarrow> \<exists>w1. r = Some (Some w1) \<and> f w1 = Some (Some w')"
  by (auto simp: and_then_def Option.bind_eq_Some_conv split: option.splits)

lemma enqueue_unloaded: "get_chunk (hi28 x) (hi28 z) w = None \<Longrightarrow> enqueue_sl x y z w = Some None"
  by (subst enqueue_sl_eq) simp

lemma neighbours_unloaded:
  assumes ok: "world_ok w" and n: "(x', z') \<in> {(x - 1, z), (x + 1, z), (x, z - 1), (x, z + 1)}"
    and g: "get_chunk (hi28 x') (hi28 z') w = None"
  shows "enqueue_sl_neighbours x y z w = Some None"
proof -
  have run: "relit w w2 \<and> world_ok w2" if "relit w w1" "world_ok w1" "enqueue_sl a b c w1 = Some (Some w2)" for a b c w1 w2
    using enqueue_sl_runs [OF that(2), of a b c] that relit_world_ok relit_trans unfolding runs_def by blast
  have "enqueue_sl_neighbours x y z w \<noteq> Some (Some w')" for w'
  proof
    assume s: "enqueue_sl_neighbours x y z w = Some (Some w')"
    obtain w1 w2 w3 w4 where c: "enqueue_sl (x - 1) y z w = Some (Some w1)" "enqueue_sl (x + 1) y z w1 = Some (Some w2)"
      "enqueue_sl x y (z - 1) w2 = Some (Some w3)" "enqueue_sl x y (z + 1) w3 = Some (Some w4)"
      using s unfolding neighbours_eq by (blast dest!: and_then_someD)
    have r1: "relit w w1 \<and> world_ok w1" using run [OF relit_refl ok c(1)] .
    then have r2: "relit w w2 \<and> world_ok w2" using run c(2) by blast
    then have r3: "relit w w3 \<and> world_ok w3" using run c(3) by blast
    have miss: "enqueue_sl x' y z' v = Some None" if "relit w v" for v
      using enqueue_unloaded relit_get [OF that] g by metis
    from n show False
      using miss [OF relit_refl] miss [of w1] miss [of w2] miss [of w3] c r1 r2 r3 by auto
  qed
  moreover have "runs w (enqueue_sl_neighbours x y z w)" by (rule neighbours_run [OF ok enqueue_sl_runs])
  ultimately show ?thesis unfolding runs_def by (metis option.exhaust)
qed

text \<open>
  C32: setting an opaque block whose light level is not the one of its opacity crashes when one of
  the four chunks beside the block is not loaded: the lighting manager uses the chunk it looks up
  there without a test for null.
\<close>

theorem set_id_border_crash:
  assumes "world_ok w" "get_chunk (hi28 x) (hi28 z) w = Some a" "w_heap w a = Some c"
    and "unat i < 4096" "unat y < 256" "block_from_id i = Some b" "bi_opaque b"
    and "sky_at c (lo4 x) (unat y) (lo4 z) \<noteq> 15 - bi_opacity b"
    and "(x', z') \<in> {(x - 1, z), (x + 1, z), (x, z - 1), (x, z + 1)}" "get_chunk (hi28 x') (hi28 z') w = None"
  shows "world_set_id ops x y z i w = Some None"
proof (rule set_id_in_loaded [OF assms(1,2,4,5)])
  fix c0 c' assume c: "w_heap w a = Some c0" "chunk_wf c'" "chunk_frame c0 c'"
    "world_set_id ops x y z i w = enqueue_sl x y z (w\<lparr>w_heap := (w_heap w)(a \<mapsto> c')\<rparr>)"
    and sky: "\<And>x' y' z'. in_chunk x' y' z' \<Longrightarrow> sky_at c' x' y' z' = sky_at c0 x' y' z'"
    and ids: "\<And>x' y' z'. in_chunk x' y' z' \<Longrightarrow>
      id_at c' x' y' z' = (if x' = lo4 x \<and> y' = unat y \<and> z' = lo4 z then i else id_at c0 x' y' z')"
  let ?w = "w\<lparr>w_heap := (w_heap w)(a \<mapsto> c')\<rparr>"
  have ok: "world_ok ?w" by (rule world_ok_upd [OF assms(1) c(1-3)])
  have p: "in_chunk (lo4 x) (unat y) (lo4 z)" using assms(5) by (simp add: in_chunk_def)
  have b: "block_from_id (id_at c' (lo4 x) (unat y) (lo4 z)) = Some b" using ids [OF p] assms(6) by simp
  have wr: "wrong_level c' (lo4 x) (unat y) (lo4 z)"
    unfolding wrong_level_def using b assms(3,7,8) sky [OF p] c(1) by auto
  from enqueue_sl_cases(3) [OF ok _ _ assms(5) b assms(7) wr, of a] assms(2) obtain w' where
    w': "enqueue_sl x y z ?w = enqueue_sl_neighbours x y z w'" "relit ?w w'" by auto
  have "enqueue_sl_neighbours x y z w' = Some None"
    by (rule neighbours_unloaded [OF relit_world_ok [OF ok w'(2)] assms(9)])
       (use relit_get [OF w'(2)] assms(10) in simp)
  then show ?thesis using c(4) w'(1) by simp
qed

subsection \<open>Worlds for the witnesses\<close>

definition plain_ops :: "unit provider_ops" where
  "plain_ops = \<lparr>po_load = (\<lambda>p x z. (No_chunk, p)), po_save = (\<lambda>c p. p), po_save_data = (\<lambda>d p. p)\<rparr>"

definition plain_info :: "int \<Rightarrow> world_data" where
  "plain_info n = \<lparr>wd_name = ''w'', wd_seed = 0, wd_gen_name = ''flatgrass'',
     wd_spawn_pos = flatgrass_find_spawn, wd_width = n, wd_depth = n\<rparr>"

definition lone_world :: "unit world" where
  "lone_world = (world_empty (plain_info (-1)) Flatgrass None)\<lparr>w_heap := [0 \<mapsto> chunk_init 0 0, 1 \<mapsto> chunk_init 0 0],
     w_next := 2, w_chunks := [(chunk_key 0 0, 1)]\<rparr>"

definition bare_world :: "unit world" where
  "bare_world = (world_empty (plain_info 16) Flatgrass None)\<lparr>w_heap := [0 \<mapsto> chunk_init 0 0], w_next := 1\<rparr>"

lemma plain_ops_ok: "provider_ok plain_ops"
  by (simp add: provider_ok_def plain_ops_def)

lemma lone_world_get:
  "get_chunk x z lone_world = (if x = 0 \<and> z = 0 then Some 1 else None)"
  "\<not> out_of_bounds lone_world x z" "w_heap lone_world 1 = Some (chunk_init 0 0)"
  "out_of_bounds bare_world x z \<longleftrightarrow> sint x < 0 \<or> 1 \<le> sint x \<or> sint z < 0 \<or> 1 \<le> sint z"
  by (auto simp: lone_world_def bare_world_def get_chunk_def out_of_bounds_def world_empty_def plain_info_def)

lemma lone_world_ok: "world_ok lone_world"
proof -
  have st: "store_ok lone_world"
    unfolding store_ok_def using chunk_init_wf
    by (auto simp: lone_world_def world_empty_def key_of_def pos_of_def chunk_init_def chunk_pos_make_def
        inside_def out_of_bounds_def plain_info_def split: if_splits)
  have "linked lone_world"
    unfolding linked_def
  proof (intro allI impI)
    fix i a c d assume "map_of (w_chunks lone_world) i = Some a" "w_heap lone_world a = Some c"
    then have c: "c = chunk_init 0 0" by (simp add: lone_world_def world_empty_def split: if_splits)
    have "pos_of c = (0, 0)" by (simp add: c pos_of_def chunk_init_def chunk_pos_make_def)
    moreover have "get_neighbour d c = None" by (cases d) (simp_all add: c get_neighbour_def chunk_init_def)
    ultimately show "get_neighbour d c = chunk_by (step_to d (pos_of c)) lone_world"
      by (cases d) (simp_all add: chunk_by_def lone_world_get)
  qed
  with st show ?thesis by (simp add: world_ok_def)
qed

lemma bare_world_ok: "world_ok bare_world"
  using chunk_init_wf
  by (auto simp: world_ok_def store_ok_def linked_def bare_world_def world_empty_def split: if_splits)

lemma small_ids: "block_from_id 6 \<noteq> None" "\<not> bi_opaque (the (block_from_id 6))"
  "block_from_id BT_STILL_WATER \<noteq> None" "bi_opaque (the (block_from_id BT_STILL_WATER))"
  "bi_opacity (the (block_from_id BT_STILL_WATER)) = 3"
  by code_simp+

lemma low_coordinates: "hi28 3 = 0" "hi28 5 = 0" "hi28 4 = 0" "hi28 15 = 0" "hi28 16 = 1" "hi28 (-16) = -1" "hi28 (-32) = -2"
  "lo4 15 = 15" "lo4 5 = 5" "lo4 (-16) = 0" "lo4 (-32) = 0"
  by code_simp+


theorem world_set_id_correct_witness:
  "\<exists>w'. world_set_id plain_ops 3 70 5 6 lone_world = Some (Some w') \<and> world_get_id 3 70 5 w' = Some 6 \<and>
     world_get_id 4 70 5 w' = world_get_id 4 70 5 lone_world"
proof -
  have a: "get_chunk (hi28 3) (hi28 5) lone_world \<noteq> None" "\<not> out_of_bounds lone_world (hi28 3) (hi28 5)"
    by (simp_all add: lone_world_get low_coordinates)
  note c = world_set_id_correct [where ops = plain_ops and y = 70 and i = 6, OF lone_world_ok a]
  from small_ids(1,2) obtain b where "block_from_id 6 = Some b" "\<not> bi_opaque b" by auto
  with c obtain w' where w': "world_set_id plain_ops 3 70 5 6 lone_world = Some (Some w')" by auto
  with c have "world_get_id 3 70 5 w' = Some 6"
    "\<forall>x' y' z'. unat y' < 256 \<and> \<not> (x' = 3 \<and> y' = 70 \<and> z' = 5) \<longrightarrow> world_get_id x' y' z' w' = world_get_id x' y' z' lone_world"
    by simp_all
  with w' show ?thesis by simp
qed

theorem out_of_bounds_blocks_shared_witness:
  "\<exists>w'. world_set_id plain_ops (-16) 70 5 6 bare_world = Some (Some w') \<and> world_get_id (-32) 70 5 w' = Some 6"
proof -
  have o: "out_of_bounds bare_world (hi28 (-16)) (hi28 5)" "out_of_bounds bare_world (hi28 (-32)) (hi28 5)"
    by (simp_all add: lone_world_get low_coordinates)
  then have g: "get_chunk (hi28 (-16)) (hi28 5) bare_world \<noteq> None" by (simp add: get_chunk_def)
  from small_ids(1,2) obtain b where b: "block_from_id 6 = Some b" "\<not> bi_opaque b" by auto
  obtain w' where w': "world_set_id plain_ops (-16) 70 5 6 bare_world = Some (Some w')"
    using set_id_transparent [OF bare_world_ok g, of 6 70 b plain_ops] b by auto
  have "world_get_id (-32) 70 5 w' = Some 6"
    by (rule out_of_bounds_blocks_shared [OF bare_world_ok o _ _ _ _ w']) (simp_all add: low_coordinates)
  with w' show ?thesis by blast
qed


theorem set_id_border_crash_witness:
  "world_set_id plain_ops 15 70 5 BT_STILL_WATER lone_world = Some None"
proof -
  from small_ids(3-5) obtain b where b: "block_from_id BT_STILL_WATER = Some b" "bi_opaque b" "bi_opacity b = 3" by auto
  have "sky_at (chunk_init 0 0) (lo4 15) (unat (70 :: u32)) (lo4 5) = 0"
    by (rule chunk_init_cell(2)) (simp add: in_chunk_def)
  then have sky: "sky_at (chunk_init 0 0) (lo4 15) (unat (70 :: u32)) (lo4 5) \<noteq> 15 - bi_opacity b" by (simp add: b(3))
  show ?thesis
    by (rule set_id_border_crash [OF lone_world_ok _ lone_world_get(3) _ _ b(1,2) sky, where x' = 16 and z' = 5])
       (simp_all add: lone_world_get low_coordinates BT_STILL_WATER_def)
qed

end
