(* ===== verification/Nbt.thy ===== *)
theory Nbt
  imports Byte_Buffer
begin

text \<open>
  Named binary tags (\<open>src/util/nbt.cpp\<close>, \<open>include/util/nbt.hpp\<close>): the tag tree, the writer with
  its stack of open frames over a \<open>byte_buffer\<close>, and the recursive reader. Text is a list of
  bytes, floats are bit patterns, a compound is an unordered map.
\<close>

subsection \<open>Tags\<close>

datatype nbt_tag =
    Nbt_byte byte | Nbt_short u16 | Nbt_int u32 | Nbt_long u64 | Nbt_float u32 | Nbt_double u64
  | Nbt_byte_array "byte list" | Nbt_string "byte list" | Nbt_list "nbt_tag list"
  | Nbt_compound "(byte list \<times> nbt_tag) list" | Nbt_int_array "u32 list"

fun nbt_type :: "nbt_tag \<Rightarrow> byte" where
  "nbt_type (Nbt_byte _) = 1" | "nbt_type (Nbt_short _) = 2" | "nbt_type (Nbt_int _) = 3"
| "nbt_type (Nbt_long _) = 4" | "nbt_type (Nbt_float _) = 5" | "nbt_type (Nbt_double _) = 6"
| "nbt_type (Nbt_byte_array _) = 7" | "nbt_type (Nbt_string _) = 8" | "nbt_type (Nbt_list _) = 9"
| "nbt_type (Nbt_compound _) = 10" | "nbt_type (Nbt_int_array _) = 11"

definition NBT_TAG_LIST :: byte where "NBT_TAG_LIST = 9"
definition NBT_TAG_COMPOUND :: byte where "NBT_TAG_COMPOUND = 10"

text \<open>\<open>nbt_tag_compound::get\<close> and the casts: the outer \<open>None\<close> is a cast to the wrong type.\<close>

definition nbt_get :: "byte list \<Rightarrow> (byte list \<times> nbt_tag) list \<Rightarrow> nbt_tag option" where
  "nbt_get name m = map_of m name"

fun as_byte :: "nbt_tag \<Rightarrow> byte option" where
  "as_byte (Nbt_byte v) = Some v" | "as_byte _ = None"

fun as_int :: "nbt_tag \<Rightarrow> u32 option" where
  "as_int (Nbt_int v) = Some v" | "as_int _ = None"

fun as_long :: "nbt_tag \<Rightarrow> u64 option" where
  "as_long (Nbt_long v) = Some v" | "as_long _ = None"

fun as_string :: "nbt_tag \<Rightarrow> byte list option" where
  "as_string (Nbt_string v) = Some v" | "as_string _ = None"

fun as_byte_array :: "nbt_tag \<Rightarrow> byte list option" where
  "as_byte_array (Nbt_byte_array v) = Some v" | "as_byte_array _ = None"

fun as_int_array :: "nbt_tag \<Rightarrow> u32 list option" where
  "as_int_array (Nbt_int_array v) = Some v" | "as_int_array _ = None"

fun as_list :: "nbt_tag \<Rightarrow> nbt_tag list option" where
  "as_list (Nbt_list v) = Some v" | "as_list _ = None"

fun as_compound :: "nbt_tag \<Rightarrow> (byte list \<times> nbt_tag) list option" where
  "as_compound (Nbt_compound v) = Some v" | "as_compound _ = None"

subsection \<open>The writer\<close>

record nbt_frame =
  nf_type :: byte
  nf_len_pos :: nat
  nf_len :: nat

record nbt_writer =
  nw_buf :: byte_buffer
  nw_frms :: "nbt_frame list"

definition nbt_writer_new :: nbt_writer where
  "nbt_writer_new = \<lparr>nw_buf = byte_buffer_init 32,
     nw_frms = [\<lparr>nf_type = NBT_TAG_COMPOUND, nf_len_pos = 0, nf_len = 0\<rparr>]\<rparr>"

definition emit_tag_start :: "byte \<Rightarrow> byte list \<Rightarrow> byte_buffer \<Rightarrow> byte_buffer option" where
  "emit_tag_start id' name buf = do {
     let len = length (c_str name);
     buf \<leftarrow> bb_put_byte id' buf;
     buf \<leftarrow> bb_put_short_be (of_nat len) buf;
     bb_put_bytes (c_str name) buf }"

text \<open>
  How every \<open>put\<close> and \<open>start\<close> function begins: the tag is counted in the open frame and its
  start is written unless that is a list; a null name is dereferenced.
\<close>

definition nw_enter :: "byte \<Rightarrow> byte list option \<Rightarrow> nbt_writer \<Rightarrow> nbt_writer option" where
  "nw_enter id' name w = (case nw_frms w of
     [] \<Rightarrow> None
   | f # fs \<Rightarrow>
       let w = w\<lparr>nw_frms := f\<lparr>nf_len := nf_len f + 1\<rparr> # fs\<rparr>
       in if nf_type f \<noteq> NBT_TAG_LIST
          then (case name of None \<Rightarrow> None
            | Some n \<Rightarrow> map_option (\<lambda>b. w\<lparr>nw_buf := b\<rparr>) (emit_tag_start id' n (nw_buf w)))
          else Some w)"

definition nw_out :: "(byte_buffer \<Rightarrow> byte_buffer option) \<Rightarrow> nbt_writer \<Rightarrow> nbt_writer option" where
  "nw_out f w = map_option (\<lambda>b. w\<lparr>nw_buf := b\<rparr>) (f (nw_buf w))"

definition nbt_put_byte :: "byte \<Rightarrow> byte list option \<Rightarrow> nbt_writer \<Rightarrow> nbt_writer option" where
  "nbt_put_byte val name w = Option.bind (nw_enter 1 name w) (nw_out (bb_put_byte val))"

definition nbt_put_short :: "u16 \<Rightarrow> byte list option \<Rightarrow> nbt_writer \<Rightarrow> nbt_writer option" where
  "nbt_put_short val name w = Option.bind (nw_enter 2 name w) (nw_out (bb_put_short_be val))"

definition nbt_put_int :: "u32 \<Rightarrow> byte list option \<Rightarrow> nbt_writer \<Rightarrow> nbt_writer option" where
  "nbt_put_int val name w = Option.bind (nw_enter 3 name w) (nw_out (bb_put_int_be val))"

definition nbt_put_long :: "u64 \<Rightarrow> byte list option \<Rightarrow> nbt_writer \<Rightarrow> nbt_writer option" where
  "nbt_put_long val name w = Option.bind (nw_enter 4 name w) (nw_out (bb_put_long_be val))"

definition nbt_put_float :: "u32 \<Rightarrow> byte list option \<Rightarrow> nbt_writer \<Rightarrow> nbt_writer option" where
  "nbt_put_float val name w = Option.bind (nw_enter 5 name w) (nw_out (bb_put_float_be val))"

definition nbt_put_double :: "u64 \<Rightarrow> byte list option \<Rightarrow> nbt_writer \<Rightarrow> nbt_writer option" where
  "nbt_put_double val name w = Option.bind (nw_enter 6 name w) (nw_out (bb_put_double_be val))"

definition nbt_put_byte_array :: "byte list \<Rightarrow> byte list option \<Rightarrow> nbt_writer \<Rightarrow> nbt_writer option" where
  "nbt_put_byte_array arr name w = do {
     w \<leftarrow> nw_enter 7 name w;
     w \<leftarrow> nw_out (bb_put_int_be (of_nat (length arr))) w;
     nw_out (bb_put_bytes arr) w }"

definition nbt_put_int_array :: "u32 list \<Rightarrow> byte list option \<Rightarrow> nbt_writer \<Rightarrow> nbt_writer option" where
  "nbt_put_int_array arr name w = do {
     w \<leftarrow> nw_enter 11 name w;
     w \<leftarrow> nw_out (bb_put_int_be (of_nat (length arr))) w;
     nw_out (put_all bb_put_int_be arr) w }"

definition nbt_put_string :: "byte list \<Rightarrow> byte list option \<Rightarrow> nbt_writer \<Rightarrow> nbt_writer option" where
  "nbt_put_string val name w = do {
     w \<leftarrow> nw_enter 8 name w;
     w \<leftarrow> nw_out (bb_put_short_be (of_nat (length val))) w;
     nw_out (bb_put_bytes val) w }"

definition nbt_start_list :: "byte \<Rightarrow> byte list option \<Rightarrow> nbt_writer \<Rightarrow> nbt_writer option" where
  "nbt_start_list tag_type name w = do {
     w \<leftarrow> nw_enter 9 name w;
     w \<leftarrow> nw_out (bb_put_byte tag_type) w;
     let len_pos = bb_pos (nw_buf w);
     w \<leftarrow> nw_out (bb_put_int_be 0) w;
     Some (w\<lparr>nw_frms := \<lparr>nf_type = NBT_TAG_LIST, nf_len_pos = len_pos, nf_len = 0\<rparr> # nw_frms w\<rparr>) }"

definition nbt_end_list :: "nbt_writer \<Rightarrow> nbt_writer option" where
  "nbt_end_list w = (case nw_frms w of
     [] \<Rightarrow> None
   | f # fs \<Rightarrow> do {
       let ppos = bb_pos (nw_buf w);
       buf \<leftarrow> bb_put_int_be (of_nat (nf_len f)) (bb_seek (nf_len_pos f) (nw_buf w));
       Some (w\<lparr>nw_buf := bb_seek ppos buf, nw_frms := fs\<rparr>) })"

definition nbt_start_compound :: "byte list option \<Rightarrow> nbt_writer \<Rightarrow> nbt_writer option" where
  "nbt_start_compound name w = do {
     w \<leftarrow> nw_enter 10 name w;
     Some (w\<lparr>nw_frms := \<lparr>nf_type = NBT_TAG_COMPOUND, nf_len_pos = 0, nf_len = 0\<rparr> # nw_frms w\<rparr>) }"

definition nbt_end_compound :: "nbt_writer \<Rightarrow> nbt_writer option" where
  "nbt_end_compound w = (case nw_frms w of
     [] \<Rightarrow> None
   | f # fs \<Rightarrow> nw_out (bb_put_byte 0) (w\<lparr>nw_frms := fs\<rparr>))"

text \<open>\<open>write\<close> and its strategies; \<open>compress\<close> is zlib's deflate, \<open>None\<close> a write error.\<close>

datatype nbt_strategy = NBT_RAW | NBT_ZLIB | NBT_GZIP

definition nbt_write :: "(nat \<Rightarrow> byte list \<Rightarrow> byte list option) \<Rightarrow> nbt_strategy \<Rightarrow> nbt_writer \<Rightarrow> byte list option" where
  "nbt_write compress strategy w = (case strategy of
     NBT_RAW \<Rightarrow> Some (bb_contents (nw_buf w))
   | NBT_ZLIB \<Rightarrow> compress 15 (bb_contents (nw_buf w))
   | NBT_GZIP \<Rightarrow> compress 31 (bb_contents (nw_buf w)))"

subsection \<open>The reader\<close>

text \<open>
  A reader gets the bytes that are left and returns a value with the bytes behind it, throws an
  \<open>nbt_read_error\<close>, or crashes: on a negative length it allocates and copies a block of that
  size. The nesting of the calls is bounded by fuel.
\<close>

datatype nbt_error = Unexpected_eof | Invalid_tag_id | Expected_compound

datatype 'a nbt_result = Done 'a "byte list" | Fail nbt_error | Crash | Out_of_fuel

fun nbt_bind :: "'a nbt_result \<Rightarrow> ('a \<Rightarrow> byte list \<Rightarrow> 'b nbt_result) \<Rightarrow> 'b nbt_result" where
  "nbt_bind (Done a rest) f = f a rest"
| "nbt_bind (Fail e) f = Fail e"
| "nbt_bind Crash f = Crash"
| "nbt_bind Out_of_fuel f = Out_of_fuel"

definition nbt_fetch :: "nat \<Rightarrow> (byte list \<Rightarrow> 'v option) \<Rightarrow> byte list \<Rightarrow> 'v nbt_result" where
  "nbt_fetch n rd data = (if length data < n then Fail Unexpected_eof
     else case rd data of None \<Rightarrow> Crash | Some v \<Rightarrow> Done v (drop n data))"

definition read_payload_byte :: "byte list \<Rightarrow> nbt_tag nbt_result" where
  "read_payload_byte data = (case data of [] \<Rightarrow> Fail Unexpected_eof | v # data \<Rightarrow> Done (Nbt_byte v) data)"

definition read_payload_short :: "byte list \<Rightarrow> nbt_tag nbt_result" where
  "read_payload_short data = nbt_bind (nbt_fetch 2 read_short_be data) (\<lambda>v. Done (Nbt_short v))"

definition read_payload_int :: "byte list \<Rightarrow> nbt_tag nbt_result" where
  "read_payload_int data = nbt_bind (nbt_fetch 4 read_int_be data) (\<lambda>v. Done (Nbt_int v))"

definition read_payload_long :: "byte list \<Rightarrow> nbt_tag nbt_result" where
  "read_payload_long data = nbt_bind (nbt_fetch 8 read_long_be data) (\<lambda>v. Done (Nbt_long v))"

definition read_payload_float :: "byte list \<Rightarrow> nbt_tag nbt_result" where
  "read_payload_float data = nbt_bind (nbt_fetch 4 read_float_be data) (\<lambda>v. Done (Nbt_float v))"

definition read_payload_double :: "byte list \<Rightarrow> nbt_tag nbt_result" where
  "read_payload_double data = nbt_bind (nbt_fetch 8 read_double_be data) (\<lambda>v. Done (Nbt_double v))"

definition read_payload_byte_array :: "byte list \<Rightarrow> nbt_tag nbt_result" where
  "read_payload_byte_array data = nbt_bind (nbt_fetch 4 read_int_be data) (\<lambda>len data.
     if int (length data) < sint len then Fail Unexpected_eof
     else if sint len < 0 then Crash
     else Done (Nbt_byte_array (take (unat len) data)) (drop (unat len) data))"

definition read_payload_string :: "byte list \<Rightarrow> nbt_tag nbt_result" where
  "read_payload_string data = nbt_bind (nbt_fetch 2 read_short_be data) (\<lambda>len data.
     if length data < unat len then Fail Unexpected_eof
     else Done (Nbt_string (c_str (take (unat len) data))) (drop (unat len) data))"

fun read_ints :: "nat \<Rightarrow> byte list \<Rightarrow> u32 list option" where
  "read_ints 0 data = Some []"
| "read_ints (Suc n) data = do {
     v \<leftarrow> read_int_be data;
     vs \<leftarrow> read_ints n (drop 4 data);
     Some (v # vs) }"

definition read_payload_int_array :: "byte list \<Rightarrow> nbt_tag nbt_result" where
  "read_payload_int_array data = nbt_bind (nbt_fetch 4 read_int_be data) (\<lambda>len data.
     if int (length data) < sint (len * 4) then Fail Unexpected_eof
     else if sint len < 0 then Crash
     else case read_ints (unat len) data of
       None \<Rightarrow> Crash
     | Some vals \<Rightarrow> Done (Nbt_int_array vals) (drop (unat len * 4) data))"

text \<open>The cases of the switch in \<open>_read_payload\<close> that do not call back.\<close>

definition nbt_leaf :: "byte \<Rightarrow> byte list \<Rightarrow> nbt_tag nbt_result" where
  "nbt_leaf id' data =
     (if id' = 1 then read_payload_byte data
      else if id' = 2 then read_payload_short data
      else if id' = 3 then read_payload_int data
      else if id' = 4 then read_payload_long data
      else if id' = 5 then read_payload_float data
      else if id' = 6 then read_payload_double data
      else if id' = 7 then read_payload_byte_array data
      else if id' = 8 then read_payload_string data
      else if id' = 11 then read_payload_int_array data
      else Fail Invalid_tag_id)"

text \<open>
  The recursive part. A tag is read with its name; the end of the input in front of a tag is the
  null pointer, here \<open>None\<close>.
\<close>

fun nbt_payload :: "nat \<Rightarrow> byte list \<Rightarrow> byte \<Rightarrow> nbt_tag nbt_result"
  and nbt_elems :: "nat \<Rightarrow> nat \<Rightarrow> byte \<Rightarrow> nbt_tag list \<Rightarrow> byte list \<Rightarrow> nbt_tag nbt_result"
  and nbt_members :: "nat \<Rightarrow> (byte list \<times> nbt_tag) list \<Rightarrow> byte list \<Rightarrow> nbt_tag nbt_result"
  and nbt_read_tag :: "nat \<Rightarrow> byte list \<Rightarrow> (byte list \<times> nbt_tag) option nbt_result" where
  "nbt_payload 0 data id' = Out_of_fuel"
| "nbt_payload (Suc fuel) data id' =
     (if id' = 9 then
        (if length data < 5 then Fail Unexpected_eof
         else nbt_bind (nbt_fetch 4 read_int_be (tl data)) (\<lambda>n rest. nbt_elems fuel (nat (sint n)) (hd data) [] rest))
      else if id' = 10 then nbt_members fuel [] data
      else nbt_leaf id' data)"
| "nbt_elems 0 n id' acc data = Out_of_fuel"
| "nbt_elems (Suc fuel) n id' acc data =
     (if n = 0 then Done (Nbt_list acc) data
      else nbt_bind (nbt_payload fuel data id') (\<lambda>t rest. nbt_elems fuel (n - 1) id' (acc @ [t]) rest))"
| "nbt_members 0 acc data = Out_of_fuel"
| "nbt_members (Suc fuel) acc data =
     (case data of
        [] \<Rightarrow> Fail Unexpected_eof
      | b # rest \<Rightarrow>
          if b = 0 then Done (Nbt_compound acc) rest
          else nbt_bind (nbt_read_tag fuel data) (\<lambda>r rest. case r of
              None \<Rightarrow> Fail Unexpected_eof
            | Some (name, tag) \<Rightarrow> nbt_members fuel (umap_set name tag acc) rest))"
| "nbt_read_tag 0 data = Out_of_fuel"
| "nbt_read_tag (Suc fuel) data =
     (case data of
        [] \<Rightarrow> Done None []
      | id' # data \<Rightarrow> nbt_bind (nbt_fetch 2 read_short_be data) (\<lambda>slen data.
          if int (length data) < sint slen then Fail Unexpected_eof
          else if sint slen < 0 then Crash
          else nbt_bind (nbt_payload fuel (drop (unat slen) data) id') (\<lambda>tag rest.
            Done (Some (c_str (take (unat slen) data), tag)) rest)))"

text \<open>\<open>_read_raw\<close> with fuel for every input of that length, and \<open>read\<close> with zlib's inflate.\<close>

definition nbt_read_raw :: "byte list \<Rightarrow> (byte list \<times> (byte list \<times> nbt_tag) list) nbt_result" where
  "nbt_read_raw data = nbt_bind (nbt_read_tag (2 * length data + 2) data) (\<lambda>r rest. case r of
     Some (name, Nbt_compound m) \<Rightarrow> Done (name, m) rest
   | _ \<Rightarrow> Fail Expected_compound)"

definition nbt_read ::
  "(byte list \<Rightarrow> byte list option) \<Rightarrow> nbt_strategy \<Rightarrow> byte list \<Rightarrow> (byte list \<times> (byte list \<times> nbt_tag) list) nbt_result option" where
  "nbt_read inflate strategy data = (if strategy = NBT_RAW then Some (nbt_read_raw data)
     else map_option nbt_read_raw (inflate data))"

subsection \<open>The reader comes to an end\<close>

text \<open>A reader that does not run out of fuel and leaves fewer than \<open>k\<close> bytes.\<close>

fun ends :: "nat \<Rightarrow> 'a nbt_result \<Rightarrow> bool" where
  "ends k (Done a rest) = (length rest < k)"
| "ends k (Fail e) = True"
| "ends k Crash = True"
| "ends k Out_of_fuel = False"

lemma ends_bind:
  assumes "ends k r" "\<And>a rest. r = Done a rest \<Longrightarrow> length rest < k \<Longrightarrow> ends m (f a rest)"
  shows "ends m (nbt_bind r f)"
  using assms by (cases r) auto

lemma ends_mono: "ends k r \<Longrightarrow> k \<le> m \<Longrightarrow> ends m r"
  by (cases r) auto

lemma ends_fetch: "0 < n \<Longrightarrow> ends (length data) (nbt_fetch n rd data)"
  by (auto simp: nbt_fetch_def split: option.split)

lemma fetch_length: "nbt_fetch n rd data = Done v rest \<Longrightarrow> length rest + n = length data"
  by (auto simp: nbt_fetch_def split: if_splits option.splits)

lemma ends_leaf: "ends (length data) (nbt_leaf id' data)"
proof -
  have f: "ends (length data) (nbt_bind (nbt_fetch n rd data) g)"
    if "0 < n" "\<And>v rest. length rest < length data \<Longrightarrow> ends (length data) (g v rest)" for n and rd :: "byte list \<Rightarrow> 'v option" and g
    by (rule ends_bind [OF ends_fetch [OF that(1)]]) (rule that(2))
  have "ends (length data) (read_payload_byte data)" by (simp add: read_payload_byte_def split: list.split)
  moreover have "ends (length data) (read_payload_short data)" unfolding read_payload_short_def by (rule f) simp_all
  moreover have "ends (length data) (read_payload_int data)" unfolding read_payload_int_def by (rule f) simp_all
  moreover have "ends (length data) (read_payload_long data)" unfolding read_payload_long_def by (rule f) simp_all
  moreover have "ends (length data) (read_payload_float data)" unfolding read_payload_float_def by (rule f) simp_all
  moreover have "ends (length data) (read_payload_double data)" unfolding read_payload_double_def by (rule f) simp_all
  moreover have "ends (length data) (read_payload_byte_array data)"
    unfolding read_payload_byte_array_def by (rule f) auto
  moreover have "ends (length data) (read_payload_string data)" unfolding read_payload_string_def by (rule f) auto
  moreover have "ends (length data) (read_payload_int_array data)"
    unfolding read_payload_int_array_def by (rule f) (auto split: option.split)
  ultimately show ?thesis by (simp add: nbt_leaf_def)
qed

lemma nbt_ends:
  "(\<forall>data id'. 2 * length data + 2 \<le> f \<longrightarrow> ends (length data) (nbt_payload f data id')) \<and>
   (\<forall>n id' acc data. 2 * length data + 3 \<le> f \<longrightarrow> ends (length data + 1) (nbt_elems f n id' acc data)) \<and>
   (\<forall>acc data. 2 * length data + 1 \<le> f \<longrightarrow> ends (length data) (nbt_members f acc data)) \<and>
   (\<forall>data. data \<noteq> [] \<and> 2 * length data \<le> f \<longrightarrow> ends (length data) (nbt_read_tag f data))"
proof (induction f)
  case 0
  then show ?case by auto
next
  case (Suc f)
  then have P: "2 * length data + 2 \<le> f \<Longrightarrow> ends (length data) (nbt_payload f data id')"
    and E: "2 * length data + 3 \<le> f \<Longrightarrow> ends (length data + 1) (nbt_elems f n id' acc data)"
    and M: "2 * length data + 1 \<le> f \<Longrightarrow> ends (length data) (nbt_members f acc' data)"
    and T: "data \<noteq> [] \<Longrightarrow> 2 * length data \<le> f \<Longrightarrow> ends (length data) (nbt_read_tag f data)"
    for data id' n acc acc' by blast+
  have "ends (length data) (nbt_payload (Suc f) data id')" if "2 * length data + 2 \<le> Suc f" for data id'
  proof (cases "id' = 9 \<and> \<not> length data < 5")
    case True
    have "ends (length data) (nbt_bind (nbt_fetch 4 read_int_be (tl data)) (\<lambda>n rest. nbt_elems f (nat (sint n)) (hd data) [] rest))"
    proof (rule ends_bind [OF ends_fetch])
      fix n rest assume r: "nbt_fetch 4 read_int_be (tl data) = Done n rest"
      from fetch_length [OF r] True have l: "length rest + 5 = length data" by simp
      have "ends (length rest + 1) (nbt_elems f (nat (sint n)) (hd data) [] rest)"
        by (rule E) (use l that in linarith)
      then show "ends (length data) (nbt_elems f (nat (sint n)) (hd data) [] rest)"
        by (rule ends_mono) (use l in linarith)
    qed simp
    with True show ?thesis by simp
  next
    case False
    then show ?thesis using M [of data "[]"] that ends_leaf [of data id'] by auto
  qed
  moreover have "ends (length data + 1) (nbt_elems (Suc f) n id' acc data)" if "2 * length data + 3 \<le> Suc f" for n id' acc data
  proof (cases "n = 0")
    case False
    have "ends (length data + 1) (nbt_bind (nbt_payload f data id') (\<lambda>t rest. nbt_elems f (n - 1) id' (acc @ [t]) rest))"
    proof (rule ends_bind [OF P])
      fix t and rest :: "byte list" assume l: "length rest < length data"
      have "ends (length rest + 1) (nbt_elems f (n - 1) id' (acc @ [t]) rest)" by (rule E) (use l that in linarith)
      then show "ends (length data + 1) (nbt_elems f (n - 1) id' (acc @ [t]) rest)" by (rule ends_mono) (use l in linarith)
    qed (use that in linarith)
    with False show ?thesis by simp
  qed simp
  moreover have "ends (length data) (nbt_members (Suc f) acc data)" if "2 * length data + 1 \<le> Suc f" for acc data
  proof (cases "data = [] \<or> hd data = 0")
    case True
    then show ?thesis by (cases data) auto
  next
    case False
    have "ends (length data) (nbt_bind (nbt_read_tag f data) (\<lambda>r rest. case r of
        None \<Rightarrow> Fail Unexpected_eof | Some (name, tag) \<Rightarrow> nbt_members f (umap_set name tag acc) rest))"
    proof (rule ends_bind [OF T])
      fix r and rest :: "byte list" assume l: "length rest < length data"
      have "ends (length rest) (nbt_members f acc' rest)" for acc' by (rule M) (use l that in linarith)
      then have "ends (length data) (nbt_members f acc' rest)" for acc' by (rule ends_mono) (use l in linarith)
      then show "ends (length data) (case r of
        None \<Rightarrow> Fail Unexpected_eof | Some (name, tag) \<Rightarrow> nbt_members f (umap_set name tag acc) rest)"
        by (cases r) auto
    qed (use False that in auto)
    with False show ?thesis by (cases data) auto
  qed
  moreover have "ends (length data) (nbt_read_tag (Suc f) data)" if d: "data \<noteq> []" "2 * length data \<le> Suc f" for data
  proof -
    from d(1) obtain id' ds where data: "data = id' # ds" by (cases data) auto
    have "ends (length data) (nbt_bind (nbt_fetch 2 read_short_be ds) (\<lambda>slen data.
          if int (length data) < sint slen then Fail Unexpected_eof
          else if sint slen < 0 then Crash
          else nbt_bind (nbt_payload f (drop (unat slen) data) id') (\<lambda>tag rest.
            Done (Some (c_str (take (unat slen) data), tag)) rest)))"
    proof (rule ends_bind [OF ends_fetch])
      fix slen rest assume r: "nbt_fetch 2 read_short_be ds = Done slen rest"
      from fetch_length [OF r] data have l: "length rest + 3 = length data" by simp
      let ?d = "drop (unat slen) rest"
      have "ends (length ?d) (nbt_payload f ?d id')" by (rule P) (use l d(2) in simp)
      then have "ends (length data) (nbt_bind (nbt_payload f ?d id') (\<lambda>tag rest'.
            Done (Some (c_str (take (unat slen) rest), tag)) rest'))"
        by (rule ends_bind) (use l in simp)
      then show "ends (length data) (if int (length rest) < sint slen then Fail Unexpected_eof
          else if sint slen < 0 then Crash
          else nbt_bind (nbt_payload f ?d id') (\<lambda>tag rest'.
            Done (Some (c_str (take (unat slen) rest), tag)) rest'))" by simp
    qed simp
    then show ?thesis by (simp add: data)
  qed
  ultimately show ?case by blast
qed

text \<open>
  C36: reading any sequence of bytes as a named binary tag comes to an end: whatever its lengths
  and its nesting claim, the calls nest no deeper than twice the size of the input, and a compound
  that is returned has consumed part of it.
\<close>

theorem nbt_reader_total:
  "case nbt_read_raw data of Done r rest \<Rightarrow> length rest < length data | Out_of_fuel \<Rightarrow> False | _ \<Rightarrow> True"
proof (cases "data = []")
  case True
  then show ?thesis by (simp add: nbt_read_raw_def eval_nat_numeral)
next
  case False
  then have "ends (length data) (nbt_read_tag (2 * length data + 2) data)" using nbt_ends [of "2 * length data + 2"] by simp
  then have "ends (length data) (nbt_read_raw data)" unfolding nbt_read_raw_def
    by (rule ends_bind) (simp split: option.split prod.split nbt_tag.split)
  then show ?thesis by (cases "nbt_read_raw data") simp_all
qed

subsection \<open>The format\<close>

text \<open>
  The bytes of a tag without its start, in the order of the entries of its compounds, and the tags
  the format can hold: lengths that fit their fields, names and strings without zero bytes, lists of
  one type, no name twice in a compound. The type written for an empty list is free; it is taken to
  be that of compounds.
\<close>

definition tag_start :: "byte list \<Rightarrow> nbt_tag \<Rightarrow> byte list" where
  "tag_start name t = nbt_type t # write_short_be (of_nat (length name)) @ name"

definition list_type :: "nbt_tag list \<Rightarrow> byte" where
  "list_type ts = (case ts of [] \<Rightarrow> NBT_TAG_COMPOUND | t # _ \<Rightarrow> nbt_type t)"

fun nbt_enc :: "nbt_tag \<Rightarrow> byte list" where
  "nbt_enc (Nbt_byte v) = [v]"
| "nbt_enc (Nbt_short v) = write_short_be v"
| "nbt_enc (Nbt_int v) = write_int_be v"
| "nbt_enc (Nbt_long v) = write_long_be v"
| "nbt_enc (Nbt_float v) = write_float_be v"
| "nbt_enc (Nbt_double v) = write_double_be v"
| "nbt_enc (Nbt_byte_array vs) = write_int_be (of_nat (length vs)) @ vs"
| "nbt_enc (Nbt_string s) = write_short_be (of_nat (length s)) @ s"
| "nbt_enc (Nbt_list ts) = list_type ts # write_int_be (of_nat (length ts)) @ concat (map nbt_enc ts)"
| "nbt_enc (Nbt_compound m) = concat (map (\<lambda>(n, t). tag_start n t @ nbt_enc t) m) @ [0]"
| "nbt_enc (Nbt_int_array vs) = write_int_be (of_nat (length vs)) @ concat (map write_int_be vs)"

definition name_ok :: "byte list \<Rightarrow> bool" where
  "name_ok n \<longleftrightarrow> 0 \<notin> set n \<and> length n < 2 ^ 15"

fun nbt_ok :: "nbt_tag \<Rightarrow> bool" where
  "nbt_ok (Nbt_byte_array vs) = (length vs < 2 ^ 31)"
| "nbt_ok (Nbt_string s) = (0 \<notin> set s \<and> length s < 2 ^ 16)"
| "nbt_ok (Nbt_list ts) = (length ts < 2 ^ 31 \<and> (\<forall>t \<in> set ts. nbt_ok t \<and> nbt_type t = list_type ts))"
| "nbt_ok (Nbt_compound m) = (distinct (map fst m) \<and> (\<forall>(n, t) \<in> set m. name_ok n \<and> nbt_ok t))"
| "nbt_ok (Nbt_int_array vs) = (length vs < 2 ^ 29)"
| "nbt_ok _ = True"

lemma nbt_type_nz [simp]: "nbt_type t \<noteq> 0"
  by (cases t) simp_all

lemma nbt_enc_length: "0 < length (nbt_enc t)"
  by (cases t) (simp_all add: write_float_be_def write_double_be_def)

subsection \<open>Reading what the format says\<close>

lemma fetch_written:
  "nbt_fetch 2 read_short_be (write_short_be s @ rest) = Done s rest"
  "nbt_fetch 4 read_int_be (write_int_be i @ rest) = Done i rest"
  "nbt_fetch 8 read_long_be (write_long_be l @ rest) = Done l rest"
  "nbt_fetch 4 read_float_be (write_int_be i @ rest) = Done i rest"
  "nbt_fetch 8 read_double_be (write_long_be l @ rest) = Done l rest"
  by (simp_all add: nbt_fetch_def read_float_be_eq read_double_be_eq)

lemma sint_of_nat_small: "n < 2 ^ (LENGTH('w) - 1) \<Longrightarrow> sint (of_nat n :: 'w::len word) = int n"
  by (simp add: signed_of_nat signed_take_bit_int_eq_self_iff) (rule order_trans [of _ 0], simp_all)

lemma length_word: "n < 2 ^ 31 \<Longrightarrow> sint (of_nat n :: u32) = int n" "n < 2 ^ 32 \<Longrightarrow> unat (of_nat n :: u32) = n"
  "n < 2 ^ 15 \<Longrightarrow> sint (of_nat n :: u16) = int n" "n < 2 ^ 16 \<Longrightarrow> unat (of_nat n :: u16) = n"
  "n < 2 ^ 29 \<Longrightarrow> sint (of_nat n * 4 :: u32) = int n * 4"
proof -
  show "n < 2 ^ 31 \<Longrightarrow> sint (of_nat n :: u32) = int n" "n < 2 ^ 15 \<Longrightarrow> sint (of_nat n :: u16) = int n"
    using sint_of_nat_small [where 'w = 32, of n] sint_of_nat_small [where 'w = 16, of n] by simp_all
  show "n < 2 ^ 32 \<Longrightarrow> unat (of_nat n :: u32) = n" "n < 2 ^ 16 \<Longrightarrow> unat (of_nat n :: u16) = n"
    by (simp_all add: unat_of_nat)
  have "(of_nat n * 4 :: u32) = of_nat (n * 4)" by simp
  then show "n < 2 ^ 29 \<Longrightarrow> sint (of_nat n * 4 :: u32) = int n * 4"
    using sint_of_nat_small [where 'w = 32, of "n * 4"] by simp
qed

lemma read_ints_written: "read_ints (length vs) (concat (map write_int_be vs) @ rest) = Some vs"
  by (induction vs) simp_all

lemma length_ints [simp]: "length (concat (map write_int_be vs)) = 4 * length vs"
  by (induction vs) simp_all

lemma leaf_written:
  assumes "nbt_ok t" "nbt_type t \<noteq> 9" "nbt_type t \<noteq> 10"
  shows "nbt_leaf (nbt_type t) (nbt_enc t @ rest) = Done t rest"
proof -
  have 4: "length vs * 4 < 2 ^ 31" "length vs < 2 ^ 31" "length vs < 2 ^ 32" if "length (vs :: u32 list) < 2 ^ 29" for vs
    using that by simp_all
  show ?thesis
  proof (cases t)
    case (Nbt_byte_array vs)
    then have l: "sint (of_nat (length vs) :: u32) = int (length vs)" "unat (of_nat (length vs) :: u32) = length vs"
      using assms(1) length_word(1,2) [of "length vs"] by simp_all
    show ?thesis by (simp add: Nbt_byte_array nbt_leaf_def read_payload_byte_array_def fetch_written l)
  next
    case (Nbt_string vs)
    then have l: "unat (of_nat (length vs) :: u16) = length vs" using assms(1) length_word(4) [of "length vs"] by simp
    show ?thesis using assms(1) by (simp add: Nbt_string nbt_leaf_def read_payload_string_def fetch_written l)
  next
    case (Nbt_int_array vs)
    then have l: "sint (of_nat (length vs) :: u32) = int (length vs)" "unat (of_nat (length vs) :: u32) = length vs"
      "sint (of_nat (length vs) * 4 :: u32) = int (length vs) * 4"
      using assms(1) length_word(1,2,5) [of "length vs"] by simp_all
    show ?thesis
      by (simp add: Nbt_int_array nbt_leaf_def read_payload_int_array_def fetch_written l read_ints_written mult.commute)
  qed (use assms in \<open>simp_all add: nbt_leaf_def read_payload_byte_def read_payload_short_def read_payload_int_def
      read_payload_long_def read_payload_float_def read_payload_double_def fetch_written
      write_float_be_def write_double_be_def\<close>)
qed

definition reads_back :: "nbt_tag \<Rightarrow> bool" where
  "reads_back t \<longleftrightarrow> (\<forall>f rest. 2 * length (nbt_enc t @ rest) + 2 \<le> f \<longrightarrow>
     nbt_payload f (nbt_enc t @ rest) (nbt_type t) = Done t rest)"

lemma elems_written:
  assumes "\<forall>t \<in> set ts. reads_back t \<and> nbt_type t = id'"
    and "2 * length (concat (map nbt_enc ts) @ rest) + 3 \<le> f"
  shows "nbt_elems f (length ts) id' acc (concat (map nbt_enc ts) @ rest) = Done (Nbt_list (acc @ ts)) rest"
  using assms
proof (induction ts arbitrary: f acc)
  case Nil
  then show ?case by (cases f) simp_all
next
  case (Cons t ts)
  then obtain f' where f: "f = Suc f'" by (cases f) simp_all
  have "nbt_payload f' (nbt_enc t @ concat (map nbt_enc ts) @ rest) id' = Done t (concat (map nbt_enc ts) @ rest)"
    using Cons.prems f unfolding reads_back_def by auto
  moreover have "nbt_elems f' (length ts) id' (acc @ [t]) (concat (map nbt_enc ts) @ rest) = Done (Nbt_list ((acc @ [t]) @ ts)) rest"
  proof (rule Cons.IH)
    show "2 * length (concat (map nbt_enc ts) @ rest) + 3 \<le> f'"
      using Cons.prems(2) f nbt_enc_length [of t] by (simp del: length_greater_0_conv)
  qed (use Cons.prems(1) in simp)
  ultimately show ?case by (simp add: f)
qed

lemma tag_written:
  assumes "reads_back t" "name_ok n" "2 * length (tag_start n t @ nbt_enc t @ rest) \<le> f"
  shows "nbt_read_tag f (tag_start n t @ nbt_enc t @ rest) = Done (Some (n, t)) rest"
proof -
  from assms(3) obtain f' where f: "f = Suc f'" by (cases f) (simp_all add: tag_start_def)
  have l: "sint (of_nat (length n) :: u16) = int (length n)" "unat (of_nat (length n) :: u16) = length n" "c_str n = n"
    using assms(2) length_word(3,4) [of "length n"] by (simp_all add: name_ok_def)
  have "nbt_payload f' (nbt_enc t @ rest) (nbt_type t) = Done t rest"
    using assms(1,3) unfolding reads_back_def by (simp add: f tag_start_def)
  then show ?thesis by (simp add: f tag_start_def fetch_written l)
qed

lemma members_written:
  assumes "\<forall>(n, t) \<in> set m. reads_back t \<and> name_ok n" "distinct (map fst (acc @ m))"
    and "2 * length (concat (map (\<lambda>(n, t). tag_start n t @ nbt_enc t) m) @ 0 # rest) + 1 \<le> f"
  shows "nbt_members f acc (concat (map (\<lambda>(n, t). tag_start n t @ nbt_enc t) m) @ 0 # rest) = Done (Nbt_compound (acc @ m)) rest"
  using assms
proof (induction m arbitrary: f acc)
  case Nil
  then show ?case by (cases f) simp_all
next
  case (Cons p m)
  obtain n t where p: "p = (n, t)" by (cases p)
  let ?r = "concat (map (\<lambda>(n, t). tag_start n t @ nbt_enc t) m) @ 0 # rest"
  from Cons.prems(3) obtain f' where f: "f = Suc f'" by (cases f) simp_all
  have "nbt_read_tag f' (tag_start n t @ nbt_enc t @ ?r) = Done (Some (n, t)) ?r"
    by (rule tag_written) (use Cons.prems(1,3) in \<open>simp_all add: p f\<close>)
  moreover have "nbt_members f' (acc @ [(n, t)]) ?r = Done (Nbt_compound ((acc @ [(n, t)]) @ m)) rest"
    by (rule Cons.IH) (use Cons.prems in \<open>auto simp: p f tag_start_def\<close>)
  moreover have "umap_set n t acc = acc @ [(n, t)]" by (rule umap_set_new) (use Cons.prems(2) in \<open>auto simp: p\<close>)
  moreover have "nbt_members (Suc f') acc (tag_start n t @ nbt_enc t @ ?r) =
      nbt_bind (nbt_read_tag f' (tag_start n t @ nbt_enc t @ ?r)) (\<lambda>r rest. case r of
        None \<Rightarrow> Fail Unexpected_eof | Some (name, tag) \<Rightarrow> nbt_members f' (umap_set name tag acc) rest)"
    by (simp add: tag_start_def)
  ultimately show ?case by (simp add: p f)
qed

lemma leaf_reads_back:
  assumes "nbt_ok t" "nbt_type t \<noteq> 9" "nbt_type t \<noteq> 10" shows "reads_back t"
  unfolding reads_back_def
proof (intro allI impI)
  fix f and rest :: "byte list" assume "2 * length (nbt_enc t @ rest) + 2 \<le> f"
  then obtain f' where "f = Suc f'" by (cases f) simp_all
  then show "nbt_payload f (nbt_enc t @ rest) (nbt_type t) = Done t rest" using leaf_written [OF assms] assms(2,3) by simp
qed

lemma nbt_reads_back: "nbt_ok t \<Longrightarrow> reads_back t"
proof (induction t rule: nbt_enc.induct)
  case (9 ts)
  then have r: "\<forall>t \<in> set ts. reads_back t \<and> nbt_type t = list_type ts" by auto
  have l: "nat (sint (of_nat (length ts) :: u32)) = length ts" using 9 length_word(1) [of "length ts"] by simp
  show ?case
    unfolding reads_back_def
  proof (intro allI impI)
    fix f and rest :: "byte list" assume b: "2 * length (nbt_enc (Nbt_list ts) @ rest) + 2 \<le> f"
    then obtain f' where f: "f = Suc f'" by (cases f) simp_all
    have "nbt_elems f' (length ts) (list_type ts) [] (concat (map nbt_enc ts) @ rest) = Done (Nbt_list ([] @ ts)) rest"
      by (rule elems_written [OF r]) (use b f in simp)
    then show "nbt_payload f (nbt_enc (Nbt_list ts) @ rest) (nbt_type (Nbt_list ts)) = Done (Nbt_list ts) rest"
      by (simp add: f fetch_written l)
  qed
next
  case (10 m)
  then have r: "\<forall>(n, t) \<in> set m. reads_back t \<and> name_ok n" by auto
  show ?case
    unfolding reads_back_def
  proof (intro allI impI)
    fix f and rest :: "byte list" assume b: "2 * length (nbt_enc (Nbt_compound m) @ rest) + 2 \<le> f"
    then obtain f' where f: "f = Suc f'" by (cases f) simp_all
    have "nbt_members f' [] (concat (map (\<lambda>(n, t). tag_start n t @ nbt_enc t) m) @ 0 # rest) = Done (Nbt_compound ([] @ m)) rest"
      by (rule members_written [OF r]) (use b f 10 in auto)
    then show "nbt_payload f (nbt_enc (Nbt_compound m) @ rest) (nbt_type (Nbt_compound m)) = Done (Nbt_compound m) rest"
      by (simp add: f)
  qed
qed (auto intro: leaf_reads_back)

subsection \<open>Writing what the format says\<close>

text \<open>
  The calls that write a tree: a leaf is one \<open>put\<close>, a list or compound its start, the calls of its
  entries and its end.
\<close>

fun nbt_write_tag :: "nbt_tag \<Rightarrow> byte list option \<Rightarrow> nbt_writer \<Rightarrow> nbt_writer option"
  and nbt_write_elems :: "nbt_tag list \<Rightarrow> nbt_writer \<Rightarrow> nbt_writer option"
  and nbt_write_members :: "(byte list \<times> nbt_tag) list \<Rightarrow> nbt_writer \<Rightarrow> nbt_writer option" where
  "nbt_write_tag (Nbt_byte v) name w = nbt_put_byte v name w"
| "nbt_write_tag (Nbt_short v) name w = nbt_put_short v name w"
| "nbt_write_tag (Nbt_int v) name w = nbt_put_int v name w"
| "nbt_write_tag (Nbt_long v) name w = nbt_put_long v name w"
| "nbt_write_tag (Nbt_float v) name w = nbt_put_float v name w"
| "nbt_write_tag (Nbt_double v) name w = nbt_put_double v name w"
| "nbt_write_tag (Nbt_byte_array vs) name w = nbt_put_byte_array vs name w"
| "nbt_write_tag (Nbt_string s) name w = nbt_put_string s name w"
| "nbt_write_tag (Nbt_list ts) name w =
     Option.bind (Option.bind (nbt_start_list (list_type ts) name w) (nbt_write_elems ts)) nbt_end_list"
| "nbt_write_tag (Nbt_compound m) name w =
     Option.bind (Option.bind (nbt_start_compound name w) (nbt_write_members m)) nbt_end_compound"
| "nbt_write_tag (Nbt_int_array vs) name w = nbt_put_int_array vs name w"
| "nbt_write_elems [] w = Some w"
| "nbt_write_elems (t # ts) w = Option.bind (nbt_write_tag t None w) (nbt_write_elems ts)"
| "nbt_write_members [] w = Some w"
| "nbt_write_members ((n, t) # m) w = Option.bind (nbt_write_tag t (Some n) w) (nbt_write_members m)"

text \<open>A writer at the end of its buffer with these bytes and frames.\<close>

definition nw_has :: "nbt_writer \<Rightarrow> byte list \<Rightarrow> nbt_frame list \<Rightarrow> bool" where
  "nw_has w bs fs \<longleftrightarrow> bb.at_end (nw_buf w) \<and> bb_contents (nw_buf w) = bs \<and> nw_frms w = fs"

text \<open>A call that appends bytes and leaves these frames.\<close>

definition appends :: "(nbt_writer \<Rightarrow> nbt_writer option) \<Rightarrow> byte list \<Rightarrow> nbt_frame list \<Rightarrow> nbt_frame list \<Rightarrow> bool" where
  "appends f bs fs fs' \<longleftrightarrow> (\<forall>w out. nw_has w out fs \<longrightarrow> length out + length bs + 4 \<le> bb_limit \<longrightarrow>
     (\<exists>w'. f w = Some w' \<and> nw_has w' (out @ bs) fs'))"

lemma appends_then:
  assumes "appends f bs fs fs'" "appends g cs fs' fs''"
  shows "appends (\<lambda>w. Option.bind (f w) g) (bs @ cs) fs fs''"
  unfolding appends_def
proof (intro allI impI)
  fix w out assume w: "nw_has w out fs" "length out + length (bs @ cs) + 4 \<le> bb_limit"
  have "length out + length bs + 4 \<le> bb_limit" using w(2) by simp
  with w(1) assms(1) obtain w1 where w1: "f w = Some w1" "nw_has w1 (out @ bs) fs'" unfolding appends_def by blast
  have "length (out @ bs) + length cs + 4 \<le> bb_limit" using w(2) by simp
  with w1(2) assms(2) obtain w2 where "g w1 = Some w2" "nw_has w2 ((out @ bs) @ cs) fs''"
    unfolding appends_def by blast
  with w1(1) show "\<exists>w'. Option.bind (f w) g = Some w' \<and> nw_has w' (out @ bs @ cs) fs''" by simp
qed

lemma appends_out: "appends (nw_out (bb_put_bytes bs)) bs fs fs"
  unfolding appends_def
proof (intro allI impI)
  fix w out assume w: "nw_has w out fs" "length out + length bs + 4 \<le> bb_limit"
  then obtain b where "bb_put_bytes bs (nw_buf w) = Some b" "bb.at_end b" "bb_contents b = bb_contents (nw_buf w) @ bs"
    using bb.put_append [of "nw_buf w" bs] by (auto simp: nw_has_def)
  with w show "\<exists>w'. nw_out (bb_put_bytes bs) w = Some w' \<and> nw_has w' (out @ bs) fs"
    by (auto simp: nw_out_def nw_has_def)
qed

lemma appends_outs: "appends (nw_out (put_all bb_put_bytes bss)) (concat bss) fs fs"
  unfolding appends_def
proof (intro allI impI)
  fix w out assume w: "nw_has w out fs" "length out + length (concat bss) + 4 \<le> bb_limit"
  then obtain b where "put_all bb_put_bytes bss (nw_buf w) = Some b" "bb.at_end b" "bb_contents b = bb_contents (nw_buf w) @ concat bss"
    using bb.put_all_append [of "nw_buf w" bss] by (auto simp: nw_has_def)
  with w show "\<exists>w'. nw_out (put_all bb_put_bytes bss) w = Some w' \<and> nw_has w' (out @ concat bss) fs"
    by (auto simp: nw_out_def nw_has_def)
qed

text \<open>The start of a tag in a frame.\<close>

definition in_frame :: "nbt_frame \<Rightarrow> byte list option \<Rightarrow> nbt_tag \<Rightarrow> byte list" where
  "in_frame f name t = (if nf_type f = NBT_TAG_LIST then [] else tag_start (the name) t)"

definition names :: "nbt_frame \<Rightarrow> byte list option \<Rightarrow> bool" where
  "names f name \<longleftrightarrow> nf_type f \<noteq> NBT_TAG_LIST \<longrightarrow> (\<exists>n. name = Some n \<and> name_ok n)"

abbreviation counted :: "nbt_frame \<Rightarrow> nbt_frame" where
  "counted f \<equiv> f\<lparr>nf_len := nf_len f + 1\<rparr>"

lemma nw_has_frames: "nw_has (w\<lparr>nw_frms := fs\<rparr>) out fs' \<longleftrightarrow> bb.at_end (nw_buf w) \<and> bb_contents (nw_buf w) = out \<and> fs = fs'"
  by (auto simp: nw_has_def)

lemma appends_frames: "appends (\<lambda>w. Some (w\<lparr>nw_frms := fs'\<rparr>)) [] fs fs'"
  by (auto simp: appends_def nw_has_def)

lemma enter_appends:
  assumes "names f name" "id' = nbt_type t"
  shows "appends (nw_enter id' name) (in_frame f name t) (f # fs) (counted f # fs)"
proof (cases "nf_type f = NBT_TAG_LIST")
  case True
  then show ?thesis by (auto simp: appends_def nw_has_def nw_enter_def in_frame_def)
next
  case False
  with assms(1) obtain n where n: "name = Some n" "name_ok n" by (auto simp: names_def)
  have c: "c_str n = n" using n(2) by (simp add: name_ok_def)
  have "appends (\<lambda>w. Option.bind (Some (w\<lparr>nw_frms := counted f # fs\<rparr>)) (nw_out (put_all bb_put_bytes
      [[nbt_type t], write_short_be (of_nat (length n)), n]))) ([] @ concat [[nbt_type t], write_short_be (of_nat (length n)), n])
      (f # fs) (counted f # fs)"
    by (rule appends_then [OF appends_frames appends_outs])
  then have A: "appends (\<lambda>w. nw_out (put_all bb_put_bytes [[nbt_type t], write_short_be (of_nat (length n)), n])
      (w\<lparr>nw_frms := counted f # fs\<rparr>)) (tag_start n t) (f # fs) (counted f # fs)"
    by (simp add: tag_start_def)
  have "nw_enter id' name w = nw_out (put_all bb_put_bytes [[nbt_type t], write_short_be (of_nat (length n)), n])
      (w\<lparr>nw_frms := counted f # fs\<rparr>)" if "nw_has w out (f # fs)" for w out
    using that False by (simp add: nw_enter_def nw_has_def n(1) assms(2) nw_out_def emit_tag_start_def c bb_put_encodings
        map_option_case split: Option.bind_splits option.splits)
  with A show ?thesis unfolding appends_def in_frame_def n(1) option.sel using False by auto
qed

lemma nw_out_enc:
  "nw_out (bb_put_byte c) = nw_out (bb_put_bytes [c])"
  "nw_out (bb_put_short_be s) = nw_out (bb_put_bytes (write_short_be s))"
  "nw_out (bb_put_int_be i) = nw_out (bb_put_bytes (write_int_be i))"
  "nw_out (bb_put_long_be l) = nw_out (bb_put_bytes (write_long_be l))"
  "nw_out (bb_put_float_be i) = nw_out (bb_put_bytes (write_float_be i))"
  "nw_out (bb_put_double_be l) = nw_out (bb_put_bytes (write_double_be l))"
  "nw_out (put_all bb_put_int_be vs) = nw_out (put_all bb_put_bytes (map write_int_be vs))"
proof -
  have "put_all bb_put_int_be vs = put_all bb_put_bytes (map write_int_be vs)"
  proof (induction vs)
    case (Cons i vs)
    show ?case by (rule ext) (simp only: put_all.simps list.map Cons.IH, simp only: bb_put_encodings(3))
  qed (rule ext, simp)
  then show "nw_out (put_all bb_put_int_be vs) = nw_out (put_all bb_put_bytes (map write_int_be vs))"
    by (simp add: nw_out_def fun_eq_iff)
qed (simp_all add: nw_out_def fun_eq_iff bb_put_encodings)

lemma put_appends:
  assumes "names f name" "id' = nbt_type t"
  shows "appends (\<lambda>w. Option.bind (nw_enter id' name w) (nw_out (bb_put_bytes bs))) (in_frame f name t @ bs) (f # fs) (counted f # fs)"
  by (rule appends_then [OF enter_appends [OF assms] appends_out])

lemma puts_appends:
  assumes "names f name" "id' = nbt_type t"
  shows "appends (\<lambda>w. Option.bind (nw_enter id' name w) (\<lambda>w. Option.bind (nw_out (bb_put_bytes as) w)
    (nw_out (put_all bb_put_bytes bss)))) (in_frame f name t @ as @ concat bss) (f # fs) (counted f # fs)"
  by (rule appends_then [OF enter_appends [OF assms] appends_then [OF appends_out appends_outs]])

lemma seek_ok: "bb_ok b \<Longrightarrow> n \<le> length (bb_contents b) \<Longrightarrow> bb_ok (bb_seek n b)"
  by (simp add: length_bb_contents) (simp add: bb_ok_def bb_seek_def)

lemma seek_contents [simp]: "bb_contents (bb_seek n b) = bb_contents b" "bb_pos (bb_seek n b) = n"
  by (simp_all add: bb_contents_def bb_seek_def)

lemma start_list_has:
  assumes "nw_has w out (f # fs)" "names f name" "length out + length (in_frame f name t) + 9 \<le> bb_limit" "nbt_type t = 9"
  shows "\<exists>w'. nbt_start_list ty name w = Some w' \<and> nw_has w' (out @ in_frame f name t @ [ty] @ write_int_be 0)
    (\<lparr>nf_type = NBT_TAG_LIST, nf_len_pos = length (out @ in_frame f name t @ [ty]), nf_len = 0\<rparr> # counted f # fs)"
proof -
  have A: "appends (\<lambda>w. Option.bind (nw_enter 9 name w) (nw_out (bb_put_bytes [ty]))) (in_frame f name t @ [ty]) (f # fs) (counted f # fs)"
    by (rule put_appends [OF assms(2)]) (simp add: assms(4))
  have "length out + length (in_frame f name t @ [ty]) + 4 \<le> bb_limit" using assms(3) by simp
  with A assms(1) obtain w1 where w1: "Option.bind (nw_enter 9 name w) (nw_out (bb_put_bytes [ty])) = Some w1"
    "nw_has w1 (out @ in_frame f name t @ [ty]) (counted f # fs)" unfolding appends_def by blast
  have "length (out @ in_frame f name t @ [ty]) + length (write_int_be 0) + 4 \<le> bb_limit" using assms(3) by simp
  with appends_out [of "write_int_be 0" "counted f # fs"] w1(2) obtain w2 where
    w2: "nw_out (bb_put_bytes (write_int_be 0)) w1 = Some w2" "nw_has w2 ((out @ in_frame f name t @ [ty]) @ write_int_be 0) (counted f # fs)"
    unfolding appends_def by blast
  have pos: "bb_pos (nw_buf w1) = length (out @ in_frame f name t @ [ty])" using w1(2) by (simp add: nw_has_def bb.at_end_def)
  from w1(1) obtain w0 where w0: "nw_enter 9 name w = Some w0" "nw_out (bb_put_bytes [ty]) w0 = Some w1"
    by (auto simp: Option.bind_eq_Some_conv)
  have fr: "nw_frms w2 = counted f # fs" using w2(2) by (simp add: nw_has_def)
  have "nbt_start_list ty name w = Some (w2\<lparr>nw_frms := \<lparr>nf_type = NBT_TAG_LIST,
      nf_len_pos = length (out @ in_frame f name t @ [ty]), nf_len = 0\<rparr> # counted f # fs\<rparr>)"
    using w0 w2(1) fr pos by (simp add: nbt_start_list_def nw_out_enc)
  then show ?thesis using w2(2) by (auto simp: nw_has_def)
qed

lemma end_list_has:
  assumes "nw_has w (a @ write_int_be 0 @ c) (lf # fs)" "nf_len_pos lf = length a"
    "length (a @ write_int_be 0 @ c) + 4 \<le> bb_limit"
  shows "\<exists>w'. nbt_end_list w = Some w' \<and> nw_has w' (a @ write_int_be (of_nat (nf_len lf)) @ c) fs"
proof -
  let ?b = "nw_buf w" and ?n = "write_int_be (of_nat (nf_len lf))"
  have b: "bb_ok ?b" "bb_contents ?b = a @ write_int_be 0 @ c" "bb_pos ?b = length (a @ write_int_be 0 @ c)" "nw_frms w = lf # fs"
    using assms(1) by (simp_all add: nw_has_def bb.at_end_def)
  have s: "bb_ok (bb_seek (length a) ?b)" by (rule seek_ok) (simp_all add: b)
  obtain b' where b': "bb_put_bytes ?n (bb_seek (length a) ?b) = Some b'" "bb_ok b'"
    "bb_contents b' = blit (a @ write_int_be 0 @ c) (length a) ?n"
    using bb.put_overwrite [OF s, of ?n] assms(3) by (auto simp: b)
  have out: "blit (a @ write_int_be 0 @ c) (length a) ?n = a @ ?n @ c" by (simp add: blit_def)
  have "bb_ok (bb_seek (length (a @ write_int_be 0 @ c)) b')" by (rule seek_ok [OF b'(2)]) (simp add: b'(3) out)
  then have "nw_has (w\<lparr>nw_buf := bb_seek (length (a @ write_int_be 0 @ c)) b', nw_frms := fs\<rparr>) (a @ ?n @ c) fs"
    by (simp add: nw_has_def bb.at_end_def b'(3) out)
  moreover have "nbt_end_list w = Some (w\<lparr>nw_buf := bb_seek (length (a @ write_int_be 0 @ c)) b', nw_frms := fs\<rparr>)"
    using b'(1) by (simp add: nbt_end_list_def b(3,4) assms(2) bb_put_encodings)
  ultimately show ?thesis by blast
qed

lemma end_compound_appends: "appends nbt_end_compound [0] (f # fs) fs"
proof -
  have "appends (\<lambda>w. Option.bind (Some (w\<lparr>nw_frms := fs\<rparr>)) (nw_out (bb_put_bytes [0]))) ([] @ [0]) (f # fs) fs"
    by (rule appends_then [OF appends_frames appends_out])
  moreover have "nbt_end_compound w = nw_out (bb_put_bytes [0]) (w\<lparr>nw_frms := fs\<rparr>)" if "nw_has w out (f # fs)" for w out
    using that by (simp add: nbt_end_compound_def nw_has_def nw_out_enc)
  ultimately show ?thesis unfolding appends_def by simp
qed

lemma start_compound_appends:
  assumes "names f name" "nbt_type t = 10"
  shows "appends (nbt_start_compound name) (in_frame f name t) (f # fs)
    (\<lparr>nf_type = NBT_TAG_COMPOUND, nf_len_pos = 0, nf_len = 0\<rparr> # counted f # fs)"
proof -
  let ?c = "\<lparr>nf_type = NBT_TAG_COMPOUND, nf_len_pos = 0, nf_len = 0\<rparr>"
  have "appends (\<lambda>w. Option.bind (nw_enter 10 name w) (\<lambda>w. Some (w\<lparr>nw_frms := ?c # counted f # fs\<rparr>)))
      (in_frame f name t @ []) (f # fs) (?c # counted f # fs)"
    by (rule appends_then [OF enter_appends [OF assms(1)] appends_frames]) (simp add: assms(2))
  moreover have "Option.bind (nw_enter 10 name w) (\<lambda>w. Some (w\<lparr>nw_frms := ?c # counted f # fs\<rparr>)) = nbt_start_compound name w"
    if "nw_frms w = f # fs" for w
    using that by (auto simp: nbt_start_compound_def nw_enter_def Let_def split: Option.bind_splits option.splits)
  ultimately show ?thesis unfolding appends_def nw_has_def by simp
qed

text \<open>What is to be shown of a tag, and what follows for the entries of a list and a compound.\<close>

definition writes_out :: "nbt_tag \<Rightarrow> bool" where
  "writes_out t \<longleftrightarrow> (\<forall>f fs name. names f name \<longrightarrow>
     appends (nbt_write_tag t name) (in_frame f name t @ nbt_enc t) (f # fs) (counted f # fs))"

lemma elems_append:
  assumes "\<forall>t \<in> set ts. writes_out t" "nf_type f = NBT_TAG_LIST"
  shows "appends (nbt_write_elems ts) (concat (map nbt_enc ts)) (f # fs) (f\<lparr>nf_len := nf_len f + length ts\<rparr> # fs)"
  using assms
proof (induction ts arbitrary: f)
  case Nil
  then show ?case by (simp add: appends_def)
next
  case (Cons t ts)
  have "appends (nbt_write_tag t None) (in_frame f None t @ nbt_enc t) (f # fs) (counted f # fs)"
    using Cons.prems by (simp add: writes_out_def names_def)
  moreover have "in_frame f None t = []" using Cons.prems(2) by (simp add: in_frame_def)
  ultimately have "appends (nbt_write_tag t None) (nbt_enc t) (f # fs) (counted f # fs)" by simp
  from appends_then [OF this Cons.IH [of "counted f"]] Cons.prems show ?case by simp
qed

lemma members_append:
  assumes "\<forall>(n, t) \<in> set m. name_ok n \<and> writes_out t" "nf_type f \<noteq> NBT_TAG_LIST"
  shows "appends (nbt_write_members m) (concat (map (\<lambda>(n, t). tag_start n t @ nbt_enc t) m)) (f # fs)
    (f\<lparr>nf_len := nf_len f + length m\<rparr> # fs)"
  using assms
proof (induction m arbitrary: f)
  case Nil
  then show ?case by (simp add: appends_def)
next
  case (Cons p m)
  obtain n t where p: "p = (n, t)" by (cases p)
  have "appends (nbt_write_tag t (Some n)) (in_frame f (Some n) t @ nbt_enc t) (f # fs) (counted f # fs)"
    using Cons.prems by (simp add: p writes_out_def names_def)
  moreover have "in_frame f (Some n) t = tag_start n t" using Cons.prems(2) by (simp add: in_frame_def)
  ultimately have "appends (nbt_write_tag t (Some n)) (tag_start n t @ nbt_enc t) (f # fs) (counted f # fs)" by simp
  from appends_then [OF this Cons.IH [of "counted f"]] Cons.prems show ?case by (simp add: p)
qed

lemma list_writes_out:
  assumes "\<forall>t \<in> set ts. writes_out t" shows "writes_out (Nbt_list ts)"
  unfolding writes_out_def appends_def
proof (intro allI impI)
  fix f fs name w out assume n: "names f name" and w: "nw_has w out (f # fs)"
    and l: "length out + length (in_frame f name (Nbt_list ts) @ nbt_enc (Nbt_list ts)) + 4 \<le> bb_limit"
  let ?h = "out @ in_frame f name (Nbt_list ts) @ [list_type ts]" and ?c = "concat (map nbt_enc ts)"
  let ?lf = "\<lparr>nf_type = NBT_TAG_LIST, nf_len_pos = length ?h, nf_len = 0\<rparr>"
  from start_list_has [OF w n, of "Nbt_list ts" "list_type ts"] l obtain w1 where
    w1: "nbt_start_list (list_type ts) name w = Some w1" "nw_has w1 (?h @ write_int_be 0) (?lf # counted f # fs)" by auto
  have "length (?h @ write_int_be 0) + length ?c + 4 \<le> bb_limit" using l by simp
  with elems_append [OF assms, of ?lf "counted f # fs"] w1(2) obtain w2 where
    w2: "nbt_write_elems ts w1 = Some w2" "nw_has w2 ((?h @ write_int_be 0) @ ?c) (?lf\<lparr>nf_len := 0 + length ts\<rparr> # counted f # fs)"
    unfolding appends_def by fastforce
  then have "nw_has w2 (?h @ write_int_be 0 @ ?c) (?lf\<lparr>nf_len := 0 + length ts\<rparr> # counted f # fs)" by simp
  from end_list_has [OF this] l obtain w3 where w3: "nbt_end_list w2 = Some w3"
    "nw_has w3 (?h @ write_int_be (of_nat (length ts)) @ ?c) (counted f # fs)" by auto
  then show "\<exists>w'. nbt_write_tag (Nbt_list ts) name w = Some w' \<and>
      nw_has w' (out @ in_frame f name (Nbt_list ts) @ nbt_enc (Nbt_list ts)) (counted f # fs)"
    using w1(1) w2(1) by simp
qed

lemma compound_writes_out:
  assumes "\<forall>(n, t) \<in> set m. name_ok n \<and> writes_out t" shows "writes_out (Nbt_compound m)"
  unfolding writes_out_def
proof (intro allI impI)
  fix f fs name assume n: "names f name"
  let ?c = "\<lparr>nf_type = NBT_TAG_COMPOUND, nf_len_pos = 0, nf_len = 0\<rparr>"
  have s: "appends (nbt_start_compound name) (in_frame f name (Nbt_compound m)) (f # fs) (?c # counted f # fs)"
    by (rule start_compound_appends [OF n]) simp
  have m: "appends (nbt_write_members m) (concat (map (\<lambda>(n, t). tag_start n t @ nbt_enc t) m)) (?c # counted f # fs)
      (?c\<lparr>nf_len := nf_len ?c + length m\<rparr> # counted f # fs)"
    by (rule members_append [OF assms]) (simp add: NBT_TAG_LIST_def NBT_TAG_COMPOUND_def)
  have "nbt_write_tag (Nbt_compound m) name = (\<lambda>w. Option.bind (Option.bind (nbt_start_compound name w)
      (nbt_write_members m)) nbt_end_compound)"
    by (rule ext) simp
  with appends_then [OF appends_then [OF s m] end_compound_appends]
  show "appends (nbt_write_tag (Nbt_compound m) name) (in_frame f name (Nbt_compound m) @ nbt_enc (Nbt_compound m))
      (f # fs) (counted f # fs)"
    by (simp only: nbt_enc.simps append_assoc)
qed

lemma write_leaf_eq:
  "nbt_write_tag (Nbt_byte b) name = (\<lambda>w. Option.bind (nw_enter 1 name w) (nw_out (bb_put_byte b)))"
  "nbt_write_tag (Nbt_short v) name = (\<lambda>w. Option.bind (nw_enter 2 name w) (nw_out (bb_put_short_be v)))"
  "nbt_write_tag (Nbt_int i) name = (\<lambda>w. Option.bind (nw_enter 3 name w) (nw_out (bb_put_int_be i)))"
  "nbt_write_tag (Nbt_long l) name = (\<lambda>w. Option.bind (nw_enter 4 name w) (nw_out (bb_put_long_be l)))"
  "nbt_write_tag (Nbt_float i) name = (\<lambda>w. Option.bind (nw_enter 5 name w) (nw_out (bb_put_float_be i)))"
  "nbt_write_tag (Nbt_double l) name = (\<lambda>w. Option.bind (nw_enter 6 name w) (nw_out (bb_put_double_be l)))"
  "nbt_write_tag (Nbt_byte_array vs) name = (\<lambda>w. Option.bind (nw_enter 7 name w) (\<lambda>w.
     Option.bind (nw_out (bb_put_int_be (of_nat (length vs))) w) (nw_out (bb_put_bytes vs))))"
  "nbt_write_tag (Nbt_string vs) name = (\<lambda>w. Option.bind (nw_enter 8 name w) (\<lambda>w.
     Option.bind (nw_out (bb_put_short_be (of_nat (length vs))) w) (nw_out (bb_put_bytes vs))))"
  "nbt_write_tag (Nbt_int_array is') name = (\<lambda>w. Option.bind (nw_enter 11 name w) (\<lambda>w.
     Option.bind (nw_out (bb_put_int_be (of_nat (length is'))) w) (nw_out (put_all bb_put_int_be is'))))"
  by (rule ext, simp add: nbt_put_byte_def nbt_put_short_def nbt_put_int_def nbt_put_long_def nbt_put_float_def
      nbt_put_double_def nbt_put_byte_array_def nbt_put_string_def nbt_put_int_array_def)+

lemma leaf_writes_out:
  assumes "nbt_type t \<noteq> 9" "nbt_type t \<noteq> 10" shows "writes_out t"
  unfolding writes_out_def
proof (intro allI impI)
  fix f fs name assume n: "names f name"
  have p: "appends (\<lambda>w. Option.bind (nw_enter (nbt_type t) name w) (nw_out (bb_put_bytes bs))) (in_frame f name t @ bs) (f # fs) (counted f # fs)" for bs
    by (rule put_appends [OF n refl])
  have ps: "appends (\<lambda>w. Option.bind (nw_enter (nbt_type t) name w) (\<lambda>w. Option.bind (nw_out (bb_put_bytes as) w)
    (nw_out (put_all bb_put_bytes bss)))) (in_frame f name t @ as @ concat bss) (f # fs) (counted f # fs)" for as bss
    by (rule puts_appends [OF n refl])
  have "put_all bb_put_bytes [bs] b = bb_put_bytes bs b" for bs b by (cases "bb_put_bytes bs b") simp_all
  then have one: "nw_out (bb_put_bytes bs) = nw_out (put_all bb_put_bytes [bs])" for bs
    by (simp add: nw_out_def fun_eq_iff del: put_all.simps)
  show "appends (nbt_write_tag t name) (in_frame f name t @ nbt_enc t) (f # fs) (counted f # fs)"
  proof (cases t)
    case (Nbt_byte_array vs)
    then show ?thesis using ps [of "write_int_be (of_nat (length vs))" "[vs]"]
      by (simp add: write_leaf_eq nw_out_enc one [symmetric] del: put_all.simps nbt_write_tag.simps)
  next
    case (Nbt_string vs)
    then show ?thesis using ps [of "write_short_be (of_nat (length vs))" "[vs]"]
      by (simp add: write_leaf_eq nw_out_enc one [symmetric] del: put_all.simps nbt_write_tag.simps)
  next
    case (Nbt_int_array vs)
    then show ?thesis using ps [of "write_int_be (of_nat (length vs))" "map write_int_be vs"]
      by (simp add: write_leaf_eq nw_out_enc del: nbt_write_tag.simps)
  qed (use assms p in \<open>simp_all add: write_leaf_eq nw_out_enc del: nbt_write_tag.simps\<close>)
qed

lemma nbt_writes_out: "nbt_ok t \<Longrightarrow> writes_out t"
proof (induction t rule: nbt_enc.induct)
  case (9 ts)
  then show ?case by (intro list_writes_out) simp
next
  case (10 m)
  then show ?case by (intro compound_writes_out) auto
qed (auto intro: leaf_writes_out)

lemma nbt_written_read:
  assumes "nbt_ok (Nbt_compound m)" "name_ok name"
    and "length (tag_start name (Nbt_compound m) @ nbt_enc (Nbt_compound m)) + 4 \<le> bb_limit"
  shows "\<exists>w. nbt_write_tag (Nbt_compound m) (Some name) nbt_writer_new = Some w \<and>
    bb_contents (nw_buf w) = tag_start name (Nbt_compound m) @ nbt_enc (Nbt_compound m) \<and>
    nbt_read_raw (bb_contents (nw_buf w)) = Done (name, m) []"
proof -
  let ?t = "Nbt_compound m"
  let ?f = "\<lparr>nf_type = NBT_TAG_COMPOUND, nf_len_pos = 0, nf_len = 0\<rparr>"
  have f: "names ?f (Some name)" "in_frame ?f (Some name) ?t = tag_start name ?t"
    using assms(2) by (simp_all add: names_def in_frame_def NBT_TAG_LIST_def NBT_TAG_COMPOUND_def)
  have "nw_has nbt_writer_new [] [?f]"
    by (simp add: nw_has_def bb.at_end_def nbt_writer_new_def bb_ok_init) (simp add: byte_buffer_init_def)
  with nbt_writes_out [OF assms(1)] f assms(3) obtain w where
    w: "nbt_write_tag ?t (Some name) nbt_writer_new = Some w" "nw_has w (tag_start name ?t @ nbt_enc ?t) [counted ?f]"
    unfolding writes_out_def appends_def by fastforce
  let ?d = "tag_start name ?t @ nbt_enc ?t"
  have "nbt_read_tag (2 * length ?d + 2) (tag_start name ?t @ nbt_enc ?t @ []) = Done (Some (name, ?t)) []"
    by (rule tag_written [OF nbt_reads_back [OF assms(1)] assms(2)]) simp
  then have "nbt_read_raw ?d = Done (name, m) []" by (simp add: nbt_read_raw_def)
  then show ?thesis using w by (simp add: nw_has_def)
qed

text \<open>
  C35: a tree of tags that the format can hold, written by the writer call by call - every list
  patched with its length when it ends - is read back by the reader with its name, unchanged and to
  the last byte.
\<close>

theorem nbt_roundtrip:
  assumes "nbt_ok (Nbt_compound m)" "name_ok name"
    and "length (tag_start name (Nbt_compound m) @ nbt_enc (Nbt_compound m)) + 4 \<le> bb_limit"
  shows "\<exists>w. nbt_write_tag (Nbt_compound m) (Some name) nbt_writer_new = Some w \<and>
    nbt_read_raw (bb_contents (nw_buf w)) = Done (name, m) []"
  using nbt_written_read [OF assms] by blast

theorem nbt_roundtrip_witness:
  "\<exists>w. nbt_write_tag (Nbt_compound [([0x61], Nbt_list [Nbt_byte 1, Nbt_byte 2]), ([], Nbt_compound [])]) (Some []) nbt_writer_new = Some w \<and>
    nbt_read_raw (bb_contents (nw_buf w)) = Done ([], [([0x61], Nbt_list [Nbt_byte 1, Nbt_byte 2]), ([], Nbt_compound [])]) []"
  by (rule nbt_roundtrip) (simp_all add: name_ok_def list_type_def tag_start_def bb_limit_def)

text \<open>
  A byte array whose length is negative is not refused: the test for the end of the input
  passes and a block of almost four gigabytes is allocated and copied from behind the input.
\<close>

theorem nbt_negative_length_crash:
  "nbt_read_raw [10, 0, 0, 7, 0, 0, 0xFF, 0xFF, 0xFF, 0xFF] = Crash"
  by code_simp

end
