(* ===== verification/Region.thy ===== *)
theory Region
  imports Binary
begin

text \<open>
  Anvil region files (\<open>src/world/providers/anvil/provider.cpp\<close>): a header of 1024 entries, each
  the first sector and the number of sectors of a chunk, then a table of time stamps, then the
  sectors of 4096 bytes. A file is the list of its bytes; a read that the file is too short for,
  which leaves the buffer unset, is \<open>None\<close>.
\<close>

subsection \<open>Reading and writing\<close>

definition fread :: "nat \<Rightarrow> nat \<Rightarrow> byte list \<Rightarrow> byte list option" where
  "fread pos n f = (if pos + n \<le> length f then Some (take n (drop pos f)) else None)"

definition cindex :: "u32 \<Rightarrow> u32 \<Rightarrow> nat" where
  "cindex cx cz = unat (push_bit 5 (cz AND 31) OR (cx AND 31))"

definition header_entry :: "nat \<Rightarrow> byte list \<Rightarrow> (u32 \<times> byte) option" where
  "header_entry i f = do {
     b \<leftarrow> fread (4 * i) 4 f;
     loc \<leftarrow> read_int_be (0 # take 3 b);
     Some (loc, b ! 3) }"

definition create_empty_region :: "byte list" where
  "create_empty_region = replicate 4096 0 @ replicate 4096 0"

text \<open>The sectors of a chunk, padded to full size; \<open>!!x * y\<close> is \<open>y\<close> unless \<open>x\<close> is zero.\<close>

definition pad_len :: "nat \<Rightarrow> nat" where
  "pad_len data_len = (if data_len mod 4096 \<noteq> 0 then 4096 - data_len mod 4096 else 0)"

definition chunk_sectors :: "byte list \<Rightarrow> byte list" where
  "chunk_sectors data = write_int_be (of_nat (length data) + 1) @ [2] @ data @ replicate (pad_len (length data + 5)) 0"

definition put_loc :: "nat \<Rightarrow> nat \<Rightarrow> byte list \<Rightarrow> byte list" where
  "put_loc i pos h = blit h (4 * i) (tl (write_int_be (of_nat (pos div 4096))))"

definition put_size :: "nat \<Rightarrow> nat \<Rightarrow> byte list \<Rightarrow> byte list" where
  "put_size i n h = h[4 * i + 3 := of_nat n]"

definition append_chunk :: "u32 \<Rightarrow> u32 \<Rightarrow> byte list \<Rightarrow> byte list \<Rightarrow> byte list" where
  "append_chunk cx cz data f =
     (let data_len = length data + 5;
          final_len = pad_len data_len + data_len;
          fpos = length f;
          f = f @ chunk_sectors data
      in put_size (cindex cx cz) (final_len div 4096) (put_loc (cindex cx cz) fpos f))"

text \<open>The chunks in the way, with their sectors, and their new places behind the end of the file.\<close>

fun to_move :: "nat list \<Rightarrow> nat \<Rightarrow> nat \<Rightarrow> byte list \<Rightarrow> (nat \<times> byte list) list option" where
  "to_move [] s_start s_end f = Some []"
| "to_move (i # is') s_start s_end f = do {
     (loc, size) \<leftarrow> header_entry i f;
     if unat loc \<noteq> s_start \<and> unat loc \<ge> s_start \<and> unat loc < s_end
     then do {
       m \<leftarrow> fread (unat loc * 4096) (unat size * 4096) f;
       ms \<leftarrow> to_move is' s_start s_end f;
       Some ((i, m) # ms) }
     else to_move is' s_start s_end f }"

fun append_moved :: "(nat \<times> byte list) list \<Rightarrow> byte list \<Rightarrow> (nat \<times> nat) list \<times> byte list" where
  "append_moved [] f = ([], f)"
| "append_moved ((i, m) # ms) f = (let (ps, f') = append_moved ms (f @ m) in ((i, length f) # ps, f'))"

definition overwrite_chunk :: "u32 \<Rightarrow> u32 \<Rightarrow> byte list \<Rightarrow> nat \<Rightarrow> nat \<Rightarrow> byte list \<Rightarrow> byte list option" where
  "overwrite_chunk cx cz data location prev_size f = do {
     let data_len = length data + 5;
     let final_len = pad_len data_len + data_len;
     let s_start = location div 4096;
     let s_end = s_start + final_len div 4096;
     hdr \<leftarrow> fread 0 4096 f;
     ms \<leftarrow> (if final_len div 4096 > prev_size then to_move [0..<1024] s_start s_end f else Some []);
     let f = blit f location (chunk_sectors data);
     let (ps, f) = append_moved ms f;
     let hdr = put_size (cindex cx cz) (final_len div 4096) hdr;
     let hdr = fold (\<lambda>(i, pos). put_loc i pos) ps hdr;
     Some (blit f 0 hdr) }"

text \<open>\<open>save_chunk\<close> on the file of its region, given the compressed data; \<open>loc\<close> is shifted as an \<open>int\<close>.\<close>

definition region_save :: "u32 \<Rightarrow> u32 \<Rightarrow> byte list \<Rightarrow> byte list option \<Rightarrow> byte list option" where
  "region_save cx cz data file = do {
     let f = (case file of None \<Rightarrow> create_empty_region | Some f \<Rightarrow> f);
     (loc, size) \<leftarrow> header_entry (cindex cx cz) f;
     let pos = push_bit 12 loc;
     if pos = 0 then Some (append_chunk cx cz data f)
     else if sint pos < 0 then None
     else overwrite_chunk cx cz data (unat pos) (unat size) f }"

text \<open>The part of \<open>load_chunk\<close> that finds the sectors of a chunk: the inner \<open>None\<close> is a chunk that is not there.\<close>

definition region_find :: "u32 \<Rightarrow> u32 \<Rightarrow> byte list option \<Rightarrow> byte list option option" where
  "region_find x z file = (case file of
     None \<Rightarrow> Some None
   | Some f \<Rightarrow> do {
       (loc, size) \<leftarrow> header_entry (cindex x z) f;
       if loc = 0 then Some None
       else if sint (push_bit 12 loc) < 0 then None
       else do {
         data \<leftarrow> fread (unat (push_bit 12 loc)) (unat size * 4096) f;
         Some (Some data) } })"

subsection \<open>The header\<close>

text \<open>The number of the first sector and of the sectors in an entry.\<close>

definition loc_at :: "byte list \<Rightarrow> nat \<Rightarrow> nat" where
  "loc_at f i = unat (push_bit 16 (ucast (f ! (4 * i))) OR push_bit 8 (ucast (f ! (4 * i + 1))) OR ucast (f ! (4 * i + 2)) :: u32)"

definition size_at :: "byte list \<Rightarrow> nat \<Rightarrow> nat" where
  "size_at f i = unat (f ! (4 * i + 3))"

lemma take_bit_ucast_byte: "8 \<le> n \<Longrightarrow> take_bit n (ucast (b :: byte)) = (ucast b :: u32)"
  by (rule bit_word_eqI) (auto simp: bit_take_bit_iff bit_ucast_iff dest: bit_imp_le_length)

lemma unat_take_bit: "w = take_bit n w \<Longrightarrow> unat (w :: u32) < 2 ^ n"
  by (metis take_bit_nat_less_exp unsigned_take_bit_eq)

lemma cindex_less: "cindex cx cz < 1024"
proof -
  have m: "(31 :: u32) = mask 5" by (simp add: mask_eq_exp_minus_1)
  have "unat (push_bit 5 (cz AND 31) OR (cx AND 31)) < 2 ^ 10"
    unfolding m take_bit_eq_mask [symmetric]
    by (rule unat_take_bit) (simp add: take_bit_or take_bit_push_bit)
  then show ?thesis by (simp add: cindex_def)
qed

lemma three_bytes:
  assumes "unat v < 2 ^ 24"
  shows "push_bit 16 (ucast (ucast (drop_bit 16 v) :: byte)) OR push_bit 8 (ucast (ucast (drop_bit 8 v) :: byte)) OR ucast (ucast v :: byte) = (v :: u32)"
proof (rule bit_word_eqI)
  fix n assume "n < LENGTH(32)"
  have small: "bit v n \<Longrightarrow> n < 24" by (rule word_bit_less [of v 24 n]) (use assms in simp)
  show "bit (push_bit 16 (ucast (ucast (drop_bit 16 v) :: byte)) OR push_bit 8 (ucast (ucast (drop_bit 8 v) :: byte)) OR ucast (ucast v :: byte) :: u32) n = bit v n"
    using small by (cases "n < 16"; simp only: bit_simps; auto)
qed

lemma take_4: "p + 4 \<le> length xs \<Longrightarrow> take 4 (drop p xs) = [xs ! p, xs ! (p + 1), xs ! (p + 2), xs ! (p + 3)]"
proof -
  assume l: "p + 4 \<le> length xs"
  have "drop p xs = xs ! p # drop (p + 1) xs" "drop (p + 1) xs = xs ! (p + 1) # drop (p + 2) xs"
    "drop (p + 2) xs = xs ! (p + 2) # drop (p + 3) xs" "drop (p + 3) xs = xs ! (p + 3) # drop (p + 4) xs"
    using l Cons_nth_drop_Suc [of p xs] Cons_nth_drop_Suc [of "p + 1" xs] Cons_nth_drop_Suc [of "p + 2" xs]
      Cons_nth_drop_Suc [of "p + 3" xs] by (simp_all add: numeral_eq_Suc)
  then show ?thesis by (simp add: numeral_eq_Suc)
qed

lemma loc_at_less: "loc_at f i < 2 ^ 24"
  unfolding loc_at_def
  by (rule unat_take_bit) (simp add: take_bit_or take_bit_push_bit take_bit_ucast_byte)

lemma header_entry_at:
  "4 * i + 4 \<le> length f \<Longrightarrow> header_entry i f = Some (of_nat (loc_at f i), of_nat (size_at f i))"
  by (simp add: header_entry_def fread_def take_4 read_int_be_def loc_at_def size_at_def numeral_3_eq_3)

lemma write_int_be_tl: "tl (write_int_be v) = [ucast (drop_bit 16 v), ucast (drop_bit 8 v), ucast v]"
  by (simp add: write_int_be_def ucast_and_FF)

lemma put_loc_nth:
  assumes "4 * i + 4 \<le> length h" "k < length h"
  shows "put_loc i pos h ! k = (if 4 * i \<le> k \<and> k < 4 * i + 3 then tl (write_int_be (of_nat (pos div 4096))) ! (k - 4 * i) else h ! k)"
  using assms nth_blit [of "4 * i" "tl (write_int_be (of_nat (pos div 4096)))" h k]
  by (auto simp: put_loc_def write_int_be_tl)

lemma length_puts [simp]: "4 * i + 4 \<le> length h \<Longrightarrow> length (put_loc i pos h) = length h" "length (put_size i n h) = length h"
  by (simp_all add: put_loc_def put_size_def write_int_be_tl)

lemma put_loc_at:
  assumes "4 * i + 4 \<le> length h" "4 * j + 4 \<le> length h" "pos div 4096 < 2 ^ 24"
  shows "loc_at (put_loc i pos h) j = (if j = i then pos div 4096 else loc_at h j)"
    "size_at (put_loc i pos h) j = size_at h j"
proof -
  have n: "unat (of_nat (pos div 4096) :: u32) = pos div 4096" using assms(3) by (simp add: unat_of_nat)
  let ?v = "of_nat (pos div 4096) :: u32"
  have own: "unat (push_bit 16 (ucast (ucast (drop_bit 16 ?v) :: byte)) OR push_bit 8 (ucast (ucast (drop_bit 8 ?v) :: byte)) OR ucast (ucast ?v :: byte) :: u32)
      = pos div 4096" using three_bytes [of ?v] assms(3) n by simp
  show "loc_at (put_loc i pos h) j = (if j = i then pos div 4096 else loc_at h j)"
  proof (cases "j = i")
    case True
    have b: "put_loc i pos h ! (4 * i) = ucast (drop_bit 16 ?v)" "put_loc i pos h ! (4 * i + 1) = ucast (drop_bit 8 ?v)"
      "put_loc i pos h ! (4 * i + 2) = ucast ?v"
      using assms(1) by (simp_all add: put_loc_nth write_int_be_tl numeral_2_eq_2)
    show ?thesis unfolding True loc_at_def b using own by simp
  next
    case False
    then have b: "put_loc i pos h ! (4 * j) = h ! (4 * j)" "put_loc i pos h ! (4 * j + 1) = h ! (4 * j + 1)"
      "put_loc i pos h ! (4 * j + 2) = h ! (4 * j + 2)"
      using assms(1,2) by (auto simp: put_loc_nth)
    show ?thesis unfolding loc_at_def b using False by simp
  qed
  have "put_loc i pos h ! (4 * j + 3) = h ! (4 * j + 3)"
    using assms(1,2) put_loc_nth [of i h "4 * j + 3" pos] by (cases "j = i") auto
  then show "size_at (put_loc i pos h) j = size_at h j" by (simp add: size_at_def)
qed

lemma put_size_at:
  assumes "4 * i + 4 \<le> length h" "4 * j + 4 \<le> length h" "n < 256"
  shows "loc_at (put_size i n h) j = loc_at h j" "size_at (put_size i n h) j = (if j = i then n else size_at h j)"
proof -
  have "put_size i n h ! k = (if k = 4 * i + 3 then of_nat n else h ! k)" if "k < length h" for k
    using that by (simp add: put_size_def nth_list_update)
  then have "put_size i n h ! (4 * j) = h ! (4 * j)" "put_size i n h ! (4 * j + 1) = h ! (4 * j + 1)"
    "put_size i n h ! (4 * j + 2) = h ! (4 * j + 2)" "put_size i n h ! (4 * j + 3) = (if j = i then of_nat n else h ! (4 * j + 3))"
    using assms(2) by (simp_all, presburger+)
  then show "loc_at (put_size i n h) j = loc_at h j" "size_at (put_size i n h) j = (if j = i then n else size_at h j)"
    using assms(3) by (simp_all add: loc_at_def size_at_def unat_of_nat)
qed

subsection \<open>Sectors\<close>

text \<open>
  A file holds for the entries in \<open>L\<close> the contents \<open>C\<close> at the places \<open>T\<close>: behind the header,
  inside the file, apart from each other.
\<close>

definition holds :: "(nat \<Rightarrow> nat \<times> nat) \<Rightarrow> nat set \<Rightarrow> (nat \<Rightarrow> byte list) \<Rightarrow> byte list \<Rightarrow> bool" where
  "holds T L C f \<longleftrightarrow> 4096 dvd length f \<and> 8192 \<le> length f \<and>
     (\<forall>i \<in> L. 2 \<le> fst (T i) \<and> 0 < snd (T i) \<and> (fst (T i) + snd (T i)) * 4096 \<le> length f \<and>
        take (snd (T i) * 4096) (drop (fst (T i) * 4096) f) = C i) \<and>
     (\<forall>i \<in> L. \<forall>j \<in> L. i \<noteq> j \<longrightarrow> fst (T i) + snd (T i) \<le> fst (T j) \<or> fst (T j) + snd (T j) \<le> fst (T i))"

definition entries :: "byte list \<Rightarrow> nat \<Rightarrow> nat \<times> nat" where
  "entries f i = (loc_at f i, size_at f i)"

definition sectors :: "byte list \<Rightarrow> nat \<Rightarrow> byte list" where
  "sectors f i = take (size_at f i * 4096) (drop (loc_at f i * 4096) f)"

definition used :: "byte list \<Rightarrow> nat set" where
  "used f = {i. i < 1024 \<and> loc_at f i \<noteq> 0}"

definition region_ok :: "byte list \<Rightarrow> bool" where
  "region_ok f \<longleftrightarrow> holds (entries f) (used f) (sectors f) f"

lemma holds_cong:
  assumes "holds T L C f" "length g = length f" "drop 4096 g = drop 4096 f"
    "\<And>i. i \<in> L \<Longrightarrow> T' i = T i" "\<And>i. i \<in> L \<Longrightarrow> C' i = C i"
  shows "holds T' L C' g"
proof -
  have "drop (fst (T i) * 4096) g = drop (fst (T i) * 4096) f" if "i \<in> L" for i
  proof -
    have "2 \<le> fst (T i)" using assms(1) that by (simp add: holds_def)
    then obtain q where q: "fst (T i) = q + 1" by (metis Suc_eq_plus1 add_lessD1 less_eq_Suc_le not0_implies_Suc not_less_zero numeral_2_eq_2)
    have d: "drop (fst (T i) * 4096) xs = drop (q * 4096) (drop 4096 xs)" for xs :: "byte list"
      by (simp add: q add.commute)
    show ?thesis unfolding d by (simp only: assms(3))
  qed
  then show ?thesis using assms(1,2,4,5) unfolding holds_def by simp
qed

lemma holds_mono: "holds T L C f \<Longrightarrow> M \<subseteq> L \<Longrightarrow> holds T M C f"
  unfolding holds_def by blast

lemma take_drop_blit_before: "p + n \<le> i \<Longrightarrow> i \<le> length f \<Longrightarrow> take n (drop p (blit f i bs)) = take n (drop p f)"
proof -
  assume a: "p + n \<le> i" "i \<le> length f"
  have "take (p + n) (blit f i bs) = take (p + n) f" by (rule take_blit_before [OF a])
  then have "drop p (take (p + n) (blit f i bs)) = drop p (take (p + n) f)" by simp
  then show ?thesis by (simp add: drop_take)
qed

lemma take_drop_blit_after: "i + length bs \<le> p \<Longrightarrow> i \<le> length f \<Longrightarrow> drop p (blit f i bs) = drop p f"
proof -
  assume a: "i + length bs \<le> p" "i \<le> length f"
  have "drop (i + length bs) (blit f i bs) = drop (i + length bs) f" using a(2) by (simp add: blit_def)
  then have "drop (p - (i + length bs)) (drop (i + length bs) (blit f i bs)) = drop (p - (i + length bs)) (drop (i + length bs) f)"
    by simp
  then show ?thesis using a(1) by (simp add: add.commute)
qed

lemma length_blit_over: "i \<le> length f \<Longrightarrow> length (blit f i bs) = max (length f) (i + length bs)"
  by (simp add: blit_def)

lemma write_at:
  assumes h: "holds T L C f" and i: "i \<notin> L" and bs: "length bs = n * 4096" "0 < n" and p: "2 \<le> p" "p * 4096 \<le> length f"
    and apart: "\<And>j. j \<in> L \<Longrightarrow> p + n \<le> fst (T j) \<or> fst (T j) + snd (T j) \<le> p"
  shows "holds (T(i := (p, n))) (insert i L) (C(i := bs)) (blit f (p * 4096) bs)"
proof -
  let ?f = "blit f (p * 4096) bs"
  have len: "length ?f = max (length f) ((p + n) * 4096)" using p(2) bs(1) by (simp add: length_blit_over)
  have dvd: "4096 dvd length ?f" unfolding len using h by (auto simp: holds_def max_def)
  have own: "take (n * 4096) (drop (p * 4096) ?f) = bs" using p(2) bs(1) by (simp add: blit_def)
  have other: "take (snd (T j) * 4096) (drop (fst (T j) * 4096) ?f) = C j" if "j \<in> L" for j
  proof -
    have c: "take (snd (T j) * 4096) (drop (fst (T j) * 4096) f) = C j" using h that by (simp add: holds_def)
    from apart [OF that] show ?thesis
    proof
      assume "p + n \<le> fst (T j)"
      then have "p * 4096 + length bs \<le> fst (T j) * 4096" using bs(1) by simp
      from take_drop_blit_after [OF this p(2)] c show ?thesis by simp
    next
      assume "fst (T j) + snd (T j) \<le> p"
      then have "fst (T j) * 4096 + snd (T j) * 4096 \<le> p * 4096" by simp
      from take_drop_blit_before [OF this p(2)] c show ?thesis by simp
    qed
  qed
  have "(fst (T j) + snd (T j)) * 4096 \<le> length ?f" if "j \<in> L" for j
    using h that unfolding holds_def len by fastforce
  moreover have "8192 \<le> length ?f" using h unfolding holds_def len by (simp add: le_max_iff_disj)
  moreover have "(p + n) * 4096 \<le> length ?f" unfolding len by simp
  ultimately show ?thesis
    using h i dvd own other p(1) bs(2) apart unfolding holds_def by (auto simp: fun_upd_def)
qed

lemma write_end:
  assumes h: "holds T L C f" and i: "i \<notin> L" and bs: "length bs = n * 4096" "0 < n"
  shows "holds (T(i := (length f div 4096, n))) (insert i L) (C(i := bs)) (f @ bs)"
proof -
  have e: "length f div 4096 * 4096 = length f" "2 \<le> length f div 4096" using h by (auto simp: holds_def)
  have "fst (T j) + snd (T j) \<le> length f div 4096" if "j \<in> L" for j
    using h that e(1) unfolding holds_def by fastforce
  from write_at [OF h i bs e(2)] this e(1) show ?thesis by (simp add: blit_def)
qed

text \<open>The loop that puts the chunks in the way behind the file.\<close>

lemma append_moved_holds:
  assumes "holds T L C f" "distinct (map fst ms)" "set (map fst ms) \<inter> L = {}"
    and "\<forall>(i, m) \<in> set ms. length m = sz i * 4096 \<and> 0 < sz i" and "append_moved ms f = (ps, f')"
  shows "map fst ps = map fst ms" "length f' = length f + length (concat (map snd ms))" "take (length f) f' = f"
    "holds (\<lambda>j. case map_of ps j of None \<Rightarrow> T j | Some pos \<Rightarrow> (pos div 4096, sz j)) (L \<union> set (map fst ms))
      (\<lambda>j. case map_of ms j of None \<Rightarrow> C j | Some m \<Rightarrow> m) f'"
    "\<forall>(i, pos) \<in> set ps. pos \<le> length f'"
proof -
  have "map fst ps = map fst ms \<and> length f' = length f + length (concat (map snd ms)) \<and> take (length f) f' = f \<and>
    holds (\<lambda>j. case map_of ps j of None \<Rightarrow> T j | Some pos \<Rightarrow> (pos div 4096, sz j)) (L \<union> set (map fst ms))
      (\<lambda>j. case map_of ms j of None \<Rightarrow> C j | Some m \<Rightarrow> m) f' \<and> (\<forall>(i, pos) \<in> set ps. pos \<le> length f')"
    using assms
  proof (induction ms arbitrary: T L C f ps f')
    case Nil
    then show ?case by simp
  next
    case (Cons im ms)
    obtain i m where im: "im = (i, m)" by (cases im)
    obtain ps1 where ps: "append_moved ms (f @ m) = (ps1, f')" "ps = (i, length f) # ps1"
      using Cons.prems(5) by (auto simp: im split: prod.splits)
    have m: "length m = sz i * 4096" "0 < sz i" "i \<notin> L" using Cons.prems(3,4) by (auto simp: im)
    have h1: "holds (T(i := (length f div 4096, sz i))) (insert i L) (C(i := m)) (f @ m)"
      by (rule write_end [OF Cons.prems(1) m(3,1,2)])
    have notin: "map_of ms i = None" using Cons.prems(2) by (auto simp: im map_of_eq_None_iff)
    note IH = Cons.IH [OF h1 _ _ _ ps(1)]
    have r: "map fst ps1 = map fst ms \<and> length f' = length (f @ m) + length (concat (map snd ms)) \<and> take (length (f @ m)) f' = f @ m \<and>
      holds (\<lambda>j. case map_of ps1 j of None \<Rightarrow> (T(i := (length f div 4096, sz i))) j | Some pos \<Rightarrow> (pos div 4096, sz j)) (insert i L \<union> set (map fst ms))
        (\<lambda>j. case map_of ms j of None \<Rightarrow> (C(i := m)) j | Some m \<Rightarrow> m) f' \<and> (\<forall>(i, pos) \<in> set ps1. pos \<le> length f')"
      by (rule IH) (use Cons.prems(2-4) in \<open>auto simp: im\<close>)
    have notin': "map_of ps1 i = None"
      using r Cons.prems(2) by (metis im fst_conv list.simps(9) distinct.simps(2) map_of_eq_None_iff set_map)
    have "take (length f) f' = take (length f) (take (length (f @ m)) f')" by simp
    also have "\<dots> = f" using r by simp
    finally have t: "take (length f) f' = f" .
    have "holds (\<lambda>j. case map_of ps j of None \<Rightarrow> T j | Some pos \<Rightarrow> (pos div 4096, sz j)) (L \<union> set (map fst (im # ms)))
        (\<lambda>j. case map_of (im # ms) j of None \<Rightarrow> C j | Some m \<Rightarrow> m) f'"
    proof (rule holds_cong)
      show "holds (\<lambda>j. case map_of ps1 j of None \<Rightarrow> (T(i := (length f div 4096, sz i))) j | Some pos \<Rightarrow> (pos div 4096, sz j)) (L \<union> set (map fst (im # ms)))
        (\<lambda>j. case map_of ms j of None \<Rightarrow> (C(i := m)) j | Some m \<Rightarrow> m) f'"
        using r by (simp add: im)
    qed (use notin notin' in \<open>auto simp: im ps(2) split: option.split\<close>)
    with r t show ?case by (auto simp: im ps(2))
  qed
  then show "map fst ps = map fst ms" "length f' = length f + length (concat (map snd ms))" "take (length f) f' = f"
    "holds (\<lambda>j. case map_of ps j of None \<Rightarrow> T j | Some pos \<Rightarrow> (pos div 4096, sz j)) (L \<union> set (map fst ms))
      (\<lambda>j. case map_of ms j of None \<Rightarrow> C j | Some m \<Rightarrow> m) f'"
    "\<forall>(i, pos) \<in> set ps. pos \<le> length f'"
    by blast+
qed

subsection \<open>Saving a chunk\<close>

lemma region_okD:
  assumes "region_ok f" "i < 1024" "loc_at f i \<noteq> 0"
  shows "2 \<le> loc_at f i" "0 < size_at f i" "(loc_at f i + size_at f i) * 4096 \<le> length f"
  using assms by (auto simp: region_ok_def holds_def entries_def used_def)

lemma region_ok_length: "region_ok f \<Longrightarrow> 8192 \<le> length f \<and> 4096 dvd length f"
  by (simp add: region_ok_def holds_def)

lemma to_move_eq:
  assumes ok: "region_ok f" and s: "2 \<le> s" and is': "\<forall>i \<in> set is'. i < 1024"
  shows "to_move is' s e f = Some (map (\<lambda>i. (i, sectors f i))
    (filter (\<lambda>i. loc_at f i \<noteq> s \<and> s \<le> loc_at f i \<and> loc_at f i < e) is'))"
  using is'
proof (induction is')
  case (Cons i is')
  have l: "4 * i + 4 \<le> length f" using Cons.prems region_ok_length [OF ok] by simp
  have u: "unat (of_nat (loc_at f i) :: u32) = loc_at f i" "unat (of_nat (size_at f i) :: byte) = size_at f i"
    using loc_at_less [of f i] unsigned_less [of "f ! (4 * i + 3)", where ?'a = nat] by (simp_all add: unat_of_nat size_at_def)
  have "fread (loc_at f i * 4096) (size_at f i * 4096) f = Some (sectors f i)" if "loc_at f i \<noteq> 0"
    using region_okD(3) [OF ok _ that] Cons.prems by (simp add: fread_def sectors_def add_mult_distrib)
  then show ?case using Cons s by (auto simp: header_entry_at [OF l] u)
qed simp

lemma fold_put_loc:
  assumes "length h = 4096" "\<forall>(i, pos) \<in> set ps. i < 1024 \<and> pos div 4096 < 2 ^ 24" "distinct (map fst ps)" "j < 1024"
  shows "length (fold (\<lambda>(i, pos). put_loc i pos) ps h) = 4096"
    "loc_at (fold (\<lambda>(i, pos). put_loc i pos) ps h) j = (case map_of ps j of None \<Rightarrow> loc_at h j | Some pos \<Rightarrow> pos div 4096)"
    "size_at (fold (\<lambda>(i, pos). put_loc i pos) ps h) j = size_at h j"
proof -
  have "length (fold (\<lambda>(i, pos). put_loc i pos) ps h) = 4096 \<and>
    loc_at (fold (\<lambda>(i, pos). put_loc i pos) ps h) j = (case map_of ps j of None \<Rightarrow> loc_at h j | Some pos \<Rightarrow> pos div 4096) \<and>
    size_at (fold (\<lambda>(i, pos). put_loc i pos) ps h) j = size_at h j"
    using assms
  proof (induction ps arbitrary: h)
    case (Cons ip ps)
    obtain i pos where ip: "ip = (i, pos)" by (cases ip)
    have i: "4 * i + 4 \<le> length h" "4 * j + 4 \<le> length h" "pos div 4096 < 2 ^ 24" using Cons.prems by (auto simp: ip)
    have l: "length (put_loc i pos h) = 4096" using i(1) Cons.prems(1) by simp
    have none: "map_of ps i = None" using Cons.prems(3) by (auto simp: ip map_of_eq_None_iff)
    have IH: "length (fold (\<lambda>(i, pos). put_loc i pos) ps (put_loc i pos h)) = 4096 \<and>
      loc_at (fold (\<lambda>(i, pos). put_loc i pos) ps (put_loc i pos h)) j =
        (case map_of ps j of None \<Rightarrow> loc_at (put_loc i pos h) j | Some pos \<Rightarrow> pos div 4096) \<and>
      size_at (fold (\<lambda>(i, pos). put_loc i pos) ps (put_loc i pos h)) j = size_at (put_loc i pos h) j"
      by (rule Cons.IH [OF l]) (use Cons.prems in simp_all)
    show ?case
    proof (cases "j = i")
      case True
      then show ?thesis using IH put_loc_at [OF i] none by (simp add: ip)
    next
      case False
      then have "map_of (ip # ps) j = map_of ps j" by (simp add: ip)
      then show ?thesis using IH put_loc_at [OF i] False by (simp add: ip split: option.split)
    qed
  qed simp
  then show "length (fold (\<lambda>(i, pos). put_loc i pos) ps h) = 4096"
    "loc_at (fold (\<lambda>(i, pos). put_loc i pos) ps h) j = (case map_of ps j of None \<Rightarrow> loc_at h j | Some pos \<Rightarrow> pos div 4096)"
    "size_at (fold (\<lambda>(i, pos). put_loc i pos) ps h) j = size_at h j" by blast+
qed

text \<open>What saving has to achieve: the new sectors at their index, everything else as it was.\<close>

definition saved :: "nat \<Rightarrow> byte list \<Rightarrow> byte list \<Rightarrow> byte list \<Rightarrow> bool" where
  "saved c bs f f' \<longleftrightarrow> region_ok f' \<and> used f' = insert c (used f) \<and> sectors f' c = bs \<and>
     (\<forall>i. i < 1024 \<longrightarrow> i \<noteq> c \<longrightarrow> loc_at f i \<noteq> 0 \<longrightarrow> sectors f' i = sectors f i)"

lemma saved_by_holds:
  assumes h: "holds T (insert c (used f)) C f'" and T: "\<And>i. i < 1024 \<Longrightarrow> i \<in> insert c (used f) \<Longrightarrow> entries f' i = T i"
    and z: "\<And>i. i < 1024 \<Longrightarrow> i \<notin> insert c (used f) \<Longrightarrow> loc_at f' i = 0"
    and C: "C c = bs" "\<And>i. i \<in> used f \<Longrightarrow> i \<noteq> c \<Longrightarrow> C i = sectors f i" and c: "c < 1024"
  shows "saved c bs f f'"
proof -
  have u: "used f' = insert c (used f)"
  proof
    show "used f' \<subseteq> insert c (used f)"
    proof
      fix i assume "i \<in> used f'"
      then show "i \<in> insert c (used f)" using z [of i] by (cases "i \<in> insert c (used f)") (simp_all add: used_def)
    qed
    show "insert c (used f) \<subseteq> used f'"
    proof
      fix i assume i: "i \<in> insert c (used f)"
      then have "i < 1024" using c by (auto simp: used_def)
      moreover have "2 \<le> fst (T i)" using h i unfolding holds_def by blast
      moreover have "fst (entries f' i) = fst (T i)" using T [OF _ i] calculation by simp
      ultimately show "i \<in> used f'" by (simp add: used_def entries_def)
    qed
  qed
  have sec: "sectors f' i = C i" if "i \<in> insert c (used f)" for i
  proof -
    have "i < 1024" using that c by (auto simp: used_def)
    from T [OF this that] have "loc_at f' i = fst (T i)" "size_at f' i = snd (T i)" by (auto simp: entries_def dest: sym)
    moreover have "take (snd (T i) * 4096) (drop (fst (T i) * 4096) f') = C i" using h that unfolding holds_def by blast
    ultimately show ?thesis by (simp add: sectors_def)
  qed
  have "holds (entries f') (used f') (sectors f') f'"
    unfolding u by (rule holds_cong [OF h]) (use T sec c in \<open>auto simp: used_def\<close>)
  with u sec C show ?thesis by (auto simp: saved_def region_ok_def used_def)
qed

lemma length_sectors: "\<exists>n. length (chunk_sectors data) = n * 4096 \<and> 0 < n \<and>
    pad_len (length data + 5) + (length data + 5) = n * 4096"
proof -
  let ?d = "length data + 5"
  have "4096 dvd pad_len ?d + ?d"
  proof (cases "?d mod 4096 = 0")
    case True
    then show ?thesis by (simp add: pad_len_def mod_eq_0_iff_dvd)
  next
    case False
    have "4096 - r + (q * 4096 + r) = (q + 1) * 4096" if "r < 4096" for q r :: nat using that by simp
    from this [of "?d mod 4096" "?d div 4096"] have "4096 - ?d mod 4096 + ?d = (?d div 4096 + 1) * 4096"
      by (simp only: mod_less_divisor zero_less_numeral div_mult_mod_eq)
    then have "4096 dvd 4096 - ?d mod 4096 + ?d" by simp
    then show ?thesis using False by (simp add: pad_len_def)
  qed
  then obtain n where n: "pad_len ?d + ?d = n * 4096" by (metis dvd_def mult.commute)
  moreover have "length (chunk_sectors data) = pad_len ?d + ?d" by (simp add: chunk_sectors_def)
  moreover have "0 < n" using n by (cases n) simp_all
  ultimately show ?thesis by auto
qed

lemma put_drop: "4 * i + 4 \<le> 4096 \<Longrightarrow> 4096 \<le> length f \<Longrightarrow> drop 4096 (put_loc i pos f) = drop 4096 f"
  "4 * i + 4 \<le> 4096 \<Longrightarrow> drop 4096 (put_size i n f) = drop 4096 f"
  by (simp_all add: put_loc_def put_size_def take_drop_blit_after write_int_be_tl)

lemma append_chunk_saved:
  assumes ok: "region_ok f" and new: "loc_at f (cindex cx cz) = 0" and len: "length f \<le> 2 ^ 29" "length data + 5 \<le> 255 * 4096"
  shows "saved (cindex cx cz) (chunk_sectors data) f (append_chunk cx cz data f) \<and> length (append_chunk cx cz data f) < 2 ^ 31"
proof -
  let ?c = "cindex cx cz"
  obtain n where n: "length (chunk_sectors data) = n * 4096" "0 < n" "pad_len (length data + 5) + (length data + 5) = n * 4096"
    using length_sectors [of data] by blast
  have n255: "n < 256" using n(3) len(2) by (auto simp: pad_len_def split: if_splits)
  have c: "?c < 1024" by (rule cindex_less)
  let ?g = "f @ chunk_sectors data"
  let ?f' = "put_size ?c n (put_loc ?c (length f) ?g)"
  have l: "4 * i + 4 \<le> length ?g" if "i < 1024" for i using that region_ok_length [OF ok] by simp
  have p: "length f div 4096 < 2 ^ 24" using len(1) by (simp add: div_le_mono less_le_trans)
  have e: "append_chunk cx cz data f = ?f'" using n(3) by (simp add: append_chunk_def Let_def)
  have at: "loc_at ?f' i = (if i = ?c then length f div 4096 else loc_at ?g i)"
    "size_at ?f' i = (if i = ?c then n else size_at ?g i)" if "i < 1024" for i
    using put_size_at [of ?c "put_loc ?c (length f) ?g" i n] put_loc_at [OF l [OF c] l [OF that] p] l [OF c] l [OF that] n255
    by simp_all
  have g: "loc_at ?g i = loc_at f i" "size_at ?g i = size_at f i" if "i < 1024" for i
    using that region_ok_length [OF ok] by (simp_all add: loc_at_def size_at_def nth_append)
  have "holds ((entries f)(?c := (length f div 4096, n))) (insert ?c (used f)) ((sectors f)(?c := chunk_sectors data)) ?g"
    by (rule write_end) (use ok new n(1,2) in \<open>simp_all add: region_ok_def used_def\<close>)
  then have "holds ((entries f)(?c := (length f div 4096, n))) (insert ?c (used f)) ((sectors f)(?c := chunk_sectors data)) ?f'"
    by (rule holds_cong) (use l [OF c] c region_ok_length [OF ok] in \<open>simp_all add: put_drop\<close>)
  then have "saved ?c (chunk_sectors data) f ?f'"
    by (rule saved_by_holds) (use at g c in \<open>auto simp: entries_def used_def\<close>)
  moreover have "length ?f' < 2 ^ 31" using l [OF c] len(1) n(1) n255 by simp
  ultimately show ?thesis unfolding e by blast
qed

lemma blit_header:
  assumes "4096 \<le> length f" "length h = 4096"
  shows "length (blit f 0 h) = length f" "drop 4096 (blit f 0 h) = drop 4096 f"
    "i < 1024 \<Longrightarrow> loc_at (blit f 0 h) i = loc_at h i \<and> size_at (blit f 0 h) i = size_at h i"
  using assms by (simp_all add: blit_def loc_at_def size_at_def nth_append)

lemma concat_length_le: "\<forall>x \<in> set xs. length x \<le> k \<Longrightarrow> length (concat xs) \<le> length xs * k"
  by (induction xs) auto

lemma overwrite_chunk_saved:
  assumes ok: "region_ok f" and old: "loc_at f (cindex cx cz) \<noteq> 0" and len: "length f \<le> 2 ^ 29" "length data + 5 \<le> 255 * 4096"
  shows "\<exists>f'. overwrite_chunk cx cz data (loc_at f (cindex cx cz) * 4096) (size_at f (cindex cx cz)) f = Some f' \<and>
    saved (cindex cx cz) (chunk_sectors data) f f' \<and> length f' < 2 ^ 31"
proof -
  let ?c = "cindex cx cz"
  let ?s = "loc_at f ?c"
  obtain n where n: "length (chunk_sectors data) = n * 4096" "0 < n" "pad_len (length data + 5) + (length data + 5) = n * 4096"
    using length_sectors [of data] by blast
  have n255: "n < 256" using n(3) len(2) by (auto simp: pad_len_def split: if_splits)
  have c: "?c < 1024" by (rule cindex_less)
  have cu: "?c \<in> used f" using c old by (simp add: used_def)
  note lf = region_ok_length [OF ok] and own = region_okD [OF ok c old]
  have h: "holds (entries f) (used f) (sectors f) f" using ok by (simp add: region_ok_def)
  define way where "way i \<longleftrightarrow> n > size_at f ?c \<and> loc_at f i \<noteq> ?s \<and> ?s \<le> loc_at f i \<and> loc_at f i < ?s + n" for i
  define ms where "ms = map (\<lambda>i. (i, sectors f i)) (filter way [0..<1024])"
  have way: "(if n > size_at f ?c then to_move [0..<1024] ?s (?s + n) f else Some []) = Some ms"
    using to_move_eq [OF ok own(1), of "[0..<1024]" "?s + n"] by (simp add: ms_def way_def cong: filter_cong)
  have ms: "map fst ms = filter way [0..<1024]" by (simp add: ms_def comp_def)
  have ways: "i \<in> used f \<and> i \<noteq> ?c" if "way i" "i < 1024" for i using that own(1) by (auto simp: way_def used_def)
  let ?L = "used f - {?c} - {i. i < 1024 \<and> way i}"
  let ?f1 = "blit f (?s * 4096) (chunk_sectors data)"
  have "holds ((entries f)(?c := (?s, n))) (insert ?c ?L) ((sectors f)(?c := chunk_sectors data)) ?f1"
  proof (rule write_at)
    show "holds (entries f) ?L (sectors f) f" by (rule holds_mono [OF h]) blast
    fix j assume j: "j \<in> ?L"
    then have "fst (entries f ?c) + snd (entries f ?c) \<le> fst (entries f j) \<or> fst (entries f j) + snd (entries f j) \<le> fst (entries f ?c)"
      using h cu unfolding holds_def by blast
    moreover have "j < 1024" "0 < loc_at f j" using j by (auto simp: used_def)
    moreover have "0 < size_at f j" using region_okD(2) [OF ok] calculation by simp
    ultimately show "?s + n \<le> fst (entries f j) \<or> fst (entries f j) + snd (entries f j) \<le> ?s"
      using j own(2) unfolding entries_def fst_conv snd_conv way_def by auto
  qed (use n own in auto)
  then have h1: "holds ((entries f)(?c := (?s, n))) (insert ?c ?L) ((sectors f)(?c := chunk_sectors data)) ?f1" .
  obtain ps f2 where am: "append_moved ms ?f1 = (ps, f2)" by fastforce
  have sz: "\<forall>(i, m) \<in> set ms. length m = size_at f i * 4096 \<and> 0 < size_at f i"
  proof -
    have "length (sectors f i) = size_at f i * 4096 \<and> 0 < size_at f i" if "way i" "i < 1024" for i
      using region_okD [OF ok that(2)] ways [OF that] by (auto simp: sectors_def used_def add_mult_distrib)
    then show ?thesis by (auto simp: ms_def)
  qed
  have dist: "distinct (map fst ms)" and disj: "set (map fst ms) \<inter> insert ?c ?L = {}" using ways by (auto simp: ms)
  note A = append_moved_holds [OF h1 dist disj sz am]
  let ?h0 = "put_size ?c n (take 4096 f)"
  let ?hdr = "fold (\<lambda>(i, pos). put_loc i pos) ps ?h0"
  let ?f' = "blit f2 0 ?hdr"
  have "overwrite_chunk cx cz data (?s * 4096) (size_at f ?c) f = Some ?f'"
  proof (cases "size_at f ?c < n")
    case True
    then show ?thesis using n(3) way am lf by (simp add: overwrite_chunk_def Let_def fread_def)
  next
    case False
    then have "ms = []" using way by simp
    then show ?thesis using False n(3) am lf by (simp add: overwrite_chunk_def Let_def fread_def)
  qed
  moreover have "saved ?c (chunk_sectors data) f ?f' \<and> length ?f' < 2 ^ 31"
  proof -
    let ?T = "\<lambda>j. case map_of ps j of None \<Rightarrow> ((entries f)(?c := (?s, n))) j | Some pos \<Rightarrow> (pos div 4096, size_at f j)"
    let ?C = "\<lambda>j. case map_of ms j of None \<Rightarrow> ((sectors f)(?c := chunk_sectors data)) j | Some m \<Rightarrow> m"
    have "length f \<le> length ?f1" using own(3) by (simp add: length_blit_over)
    then have lf2: "4096 \<le> length f2" using A(2) lf by linarith
    have l0: "length ?h0 = 4096" using lf by simp
    have "length (concat (map snd ms)) \<le> length (map snd ms) * (255 * 4096)"
    proof (rule concat_length_le, rule ballI)
      fix m assume "m \<in> set (map snd ms)"
      then obtain i where "m = sectors f i" by (auto simp: ms_def)
      moreover have "size_at f i \<le> 255" using unsigned_less [of "f ! (4 * i + 3)", where ?'a = nat] by (simp add: size_at_def)
      ultimately show "length m \<le> 255 * 4096" by (auto simp: sectors_def min_le_iff_disj)
    qed
    moreover have "length (map snd ms) \<le> 1024"
      using length_filter_le [of way "[0..<1024]"] by (simp add: ms_def)
    ultimately have "length (concat (map snd ms)) \<le> 1024 * (255 * 4096)"
      by (meson le_trans mult_le_mono1)
    moreover have "length ?f1 \<le> 2 ^ 29 + 255 * 4096"
      using own(2,3) len(1) n(1) n255 by (simp add: length_blit_over)
    ultimately have small: "length f2 < 2 ^ 31" using A(2) by simp
    have ps: "\<forall>(i, pos) \<in> set ps. i < 1024 \<and> pos div 4096 < 2 ^ 24"
    proof -
      have "i < 1024" if "(i, pos) \<in> set ps" for i pos
      proof -
        have "i \<in> set (map fst ps)" using that by force
        then show ?thesis by (simp add: A(1) ms del: set_map)
      qed
      moreover have "pos div 4096 < 2 ^ 24" if "(i, pos) \<in> set ps" for i pos
        using A(5) small that by (fastforce simp: div_less_iff_less_mult)
      ultimately show ?thesis by blast
    qed
    have dps: "distinct (map fst ps)" using A(1) dist by simp
    note F = fold_put_loc [OF l0 ps dps] and B = blit_header [OF lf2, of ?hdr]
    have u: "?L \<union> set (map fst ms) \<union> {?c} = insert ?c (used f)" using ways by (auto simp: ms)
    have h2: "holds ?T (insert ?c (used f)) ?C ?f'"
    proof (rule holds_cong [where T = ?T and C = ?C])
      have "insert ?c ?L \<union> set (map fst ms) = insert ?c (used f)" using u by blast
      then show "holds ?T (insert ?c (used f)) ?C f2" using A(4) by simp
    qed (use B(1,2) F(1) c in simp_all)
    have h0: "loc_at ?h0 j = loc_at f j" "size_at ?h0 j = (if j = ?c then n else size_at f j)" if "j < 1024" for j
    proof -
      have "loc_at (take 4096 f) j = loc_at f j" "size_at (take 4096 f) j = size_at f j"
        using that by (simp_all add: loc_at_def size_at_def)
      then show "loc_at ?h0 j = loc_at f j" "size_at ?h0 j = (if j = ?c then n else size_at f j)"
        using put_size_at [of ?c "take 4096 f" j n] c that lf n255 by simp_all
    qed
    have at: "loc_at ?f' j = (case map_of ps j of None \<Rightarrow> loc_at f j | Some pos \<Rightarrow> pos div 4096)"
      "size_at ?f' j = (if j = ?c then n else size_at f j)" if "j < 1024" for j
      using B(3) [OF _ that] F [OF that] h0 [OF that] by (simp_all cong: option.case_cong)
    have nc: "map_of ps ?c = None" "map_of ms ?c = None"
      using ways c A(1) by (auto simp: map_of_eq_None_iff ms simp flip: set_map)
    have np: "map_of ps j = None" if "j \<notin> used f" for j
    proof -
      have "j \<notin> set (map fst ps)" using that ways by (auto simp: A(1) ms simp del: set_map)
      then show ?thesis by (simp add: map_of_eq_None_iff)
    qed
    have "length ?f' < 2 ^ 31" using B(1) F(1) c small by simp
    moreover have "saved ?c (chunk_sectors data) f ?f'"
    proof (rule saved_by_holds [OF h2])
      fix i assume i: "i < 1024" "i \<in> insert ?c (used f)"
      show "entries ?f' i = ?T i" using at [OF i(1)] nc(1) by (auto simp: entries_def split: option.split)
    next
      fix i assume i: "i < 1024" "i \<notin> insert ?c (used f)"
      then show "loc_at ?f' i = 0" using at(1) [OF i(1)] np [of i] by (simp add: used_def)
    next
      show "?C ?c = chunk_sectors data" using nc by simp
    next
      fix i assume "i \<in> used f" "i \<noteq> ?c"
      then show "?C i = sectors f i" by (auto simp: ms_def split: option.split dest!: map_of_SomeD)
    qed (rule c)
    ultimately show ?thesis by blast
  qed
  ultimately show ?thesis by blast
qed


subsection \<open>A region as a map\<close>

text \<open>What a file means: the sectors of the chunks that are in it.\<close>

definition region_map :: "byte list option \<Rightarrow> nat \<Rightarrow> byte list option" where
  "region_map file = (case file of None \<Rightarrow> Map.empty | Some f \<Rightarrow> (\<lambda>i. if i \<in> used f then Some (sectors f i) else None))"

definition region_file_ok :: "byte list option \<Rightarrow> bool" where
  "region_file_ok file \<longleftrightarrow> (case file of None \<Rightarrow> True | Some f \<Rightarrow> region_ok f \<and> length f \<le> 2 ^ 29)"

lemma empty_region: "region_ok create_empty_region" "used create_empty_region = {}" "length create_empty_region = 8192"
proof -
  have "loc_at create_empty_region i = 0" if "i < 1024" for i
    using that by (simp add: loc_at_def create_empty_region_def nth_append)
  then show "used create_empty_region = {}" by (auto simp: used_def)
  then show "region_ok create_empty_region" by (simp add: region_ok_def holds_def create_empty_region_def)
qed (simp add: create_empty_region_def)

lemma loc_position:
  assumes "region_ok f" "i < 1024" "length f < 2 ^ 31" "loc_at f i \<noteq> 0"
  shows "unat (push_bit 12 (of_nat (loc_at f i) :: u32)) = loc_at f i * 4096"
    "\<not> sint (push_bit 12 (of_nat (loc_at f i) :: u32)) < 0"
proof -
  have l: "loc_at f i * 4096 < 2 ^ 31" using region_okD(3) [OF assms(1,2,4)] assms(3) by (simp add: add_mult_distrib)
  then have "(push_bit 12 (of_nat (loc_at f i)) :: u32) = of_nat (loc_at f i * 4096)" by (simp add: push_bit_eq_mult)
  then show u: "unat (push_bit 12 (of_nat (loc_at f i) :: u32)) = loc_at f i * 4096"
    using l by (simp only: unat_of_nat) simp
  have "\<not> bit (push_bit 12 (of_nat (loc_at f i)) :: u32) 31"
    using word_bit_less [of "push_bit 12 (of_nat (loc_at f i)) :: u32" 31 31] u l by auto
  then show "\<not> sint (push_bit 12 (of_nat (loc_at f i) :: u32)) < 0"
    using bit_last_iff [of "push_bit 12 (of_nat (loc_at f i)) :: u32"] by simp
qed

lemma region_save_saved:
  assumes fok: "region_file_ok file" and len: "length data + 5 \<le> 255 * 4096"
  shows "\<exists>f'. region_save cx cz data file = Some f' \<and>
    saved (cindex cx cz) (chunk_sectors data) (case file of None \<Rightarrow> create_empty_region | Some f \<Rightarrow> f) f' \<and> length f' < 2 ^ 31"
proof -
  define f where "f = (case file of None \<Rightarrow> create_empty_region | Some f \<Rightarrow> f)"
  have ok: "region_ok f" and l: "length f \<le> 2 ^ 29"
    using fok empty_region by (auto simp: f_def region_file_ok_def split: option.splits)
  have c: "cindex cx cz < 1024" by (rule cindex_less)
  have h: "header_entry (cindex cx cz) f = Some (of_nat (loc_at f (cindex cx cz)), of_nat (size_at f (cindex cx cz)))"
    using c region_ok_length [OF ok] by (simp add: header_entry_at)
  show ?thesis
  proof (cases "loc_at f (cindex cx cz) = 0")
    case True
    then have "region_save cx cz data file = Some (append_chunk cx cz data f)"
      by (simp add: region_save_def f_def [symmetric] h)
    with append_chunk_saved [OF ok True l len] show ?thesis by (simp add: f_def)
  next
    case False
    note p = loc_position [OF ok c _ False]
    have u: "unat (of_nat (size_at f (cindex cx cz)) :: byte) = size_at f (cindex cx cz)"
      using unsigned_less [of "f ! (4 * cindex cx cz + 3)", where ?'a = nat] by (simp add: size_at_def unat_of_nat)
    have "push_bit 12 (of_nat (loc_at f (cindex cx cz)) :: u32) \<noteq> 0"
    proof
      assume "push_bit 12 (of_nat (loc_at f (cindex cx cz)) :: u32) = 0"
      with p(1) l False show False by simp
    qed
    then have "region_save cx cz data file =
        overwrite_chunk cx cz data (loc_at f (cindex cx cz) * 4096) (size_at f (cindex cx cz)) f"
      using p(1) [OF le_less_trans [OF l]] p(2) [OF le_less_trans [OF l]] u
      by (simp only: region_save_def f_def [symmetric] Let_def h bind.bind_lunit prod.case if_False) simp
    with overwrite_chunk_saved [OF ok False l len] show ?thesis by (simp add: f_def)
  qed
qed

lemma region_find_map:
  assumes ok: "region_ok f" and l: "length f < 2 ^ 31"
  shows "region_find x z (Some f) = Some (region_map (Some f) (cindex x z))"
proof -
  let ?c = "cindex x z"
  have c: "?c < 1024" by (rule cindex_less)
  have h: "header_entry ?c f = Some (of_nat (loc_at f ?c), of_nat (size_at f ?c))"
    using c region_ok_length [OF ok] by (simp add: header_entry_at)
  have z: "(of_nat (loc_at f ?c) :: u32) = 0 \<longleftrightarrow> loc_at f ?c = 0"
  proof -
    have "unat (of_nat (loc_at f ?c) :: u32) = loc_at f ?c" using loc_at_less [of f ?c] by (simp add: unat_of_nat)
    then show ?thesis by (cases "loc_at f ?c = 0") (auto simp del: of_nat_eq_0_iff)
  qed
  show ?thesis
  proof (cases "loc_at f ?c = 0")
    case True
    have "region_find x z (Some f) = Some None"
      unfolding region_find_def option.case h bind.bind_lunit prod.case if_P [OF iffD2 [OF z True]] ..
    with True show ?thesis by (simp add: region_map_def used_def)
  next
    case False
    have u: "unat (of_nat (size_at f ?c) :: byte) = size_at f ?c"
      using unsigned_less [of "f ! (4 * ?c + 3)", where ?'a = nat] by (simp add: size_at_def unat_of_nat)
    show ?thesis
    proof -
      note p = loc_position [OF ok c l False]
      have r: "fread (loc_at f ?c * 4096) (size_at f ?c * 4096) f = Some (sectors f ?c)"
        using region_okD(3) [OF ok c False] by (simp only: fread_def sectors_def add_mult_distrib if_True)
      have nz: "(of_nat (loc_at f ?c) :: u32) \<noteq> 0" using z False by simp
      have "region_find x z (Some f) = Some (Some (sectors f ?c))"
        unfolding region_find_def option.case h bind.bind_lunit prod.case if_not_P [OF nz] if_not_P [OF p(2)] p(1) u r ..
      then show ?thesis using False c by (simp add: region_map_def used_def)
    qed
  qed
qed

lemma saved_map:
  assumes "saved c bs (case file of None \<Rightarrow> create_empty_region | Some f \<Rightarrow> f) f'"
  shows "region_map (Some f') = (region_map file)(c \<mapsto> bs)"
proof (rule ext)
  fix i
  show "region_map (Some f') i = ((region_map file)(c \<mapsto> bs)) i"
    using assms empty_region(2) by (cases "i = c"; cases "file = None") (auto simp: saved_def region_map_def used_def)
qed

lemma region_saved_found:
  assumes "region_file_ok file" and "length data + 5 \<le> 255 * 4096"
  shows "\<exists>f. region_save cx cz data file = Some f \<and> region_ok f \<and>
    region_map (Some f) = (region_map file)(cindex cx cz \<mapsto> chunk_sectors data) \<and>
    region_find x z (Some f) = Some (region_map (Some f) (cindex x z))"
proof -
  obtain f where f: "region_save cx cz data file = Some f"
    "saved (cindex cx cz) (chunk_sectors data) (case file of None \<Rightarrow> create_empty_region | Some f \<Rightarrow> f) f"
    "length f < 2 ^ 31" using region_save_saved [OF assms] by blast
  then have "region_ok f" by (simp add: saved_def)
  with f saved_map [OF f(2)] region_find_map show ?thesis by blast
qed

text \<open>
  C37: \<open>save_chunk\<close> and \<open>load_chunk\<close> implement a map from the 1024 chunks of a region to their
  sectors. On a region file whose chunks lie apart from each other behind the header, up to half a
  gigabyte, or on no file at all, saving succeeds, whether the chunk is new or overwritten and
  however many chunks its growth pushes to the end of the file: the new file is again of that shape,
  it means the old map with the chunk's new sectors in it (no other chunk is lost or changed), and
  what loading then finds for any chunk is its entry of the map.
\<close>

theorem region_save_refines:
  assumes "region_file_ok file" and "length data + 5 \<le> 255 * 4096"
  shows "\<exists>f. region_save cx cz data file = Some f \<and> region_ok f \<and>
    region_map (Some f) = (region_map file)(cindex cx cz \<mapsto> chunk_sectors data) \<and>
    region_find x z (Some f) = Some (region_map (Some f) (cindex x z))"
  using region_saved_found [OF assms] .

definition two_chunks :: "byte list" where
  "two_chunks = append_chunk 1 0 [4] (append_chunk 0 0 [1, 2, 3] create_empty_region)"

lemma two_chunks: "region_file_ok (Some two_chunks)"
proof -
  let ?f = "append_chunk 0 0 [1, 2, 3] create_empty_region"
  have c: "cindex 0 0 = 0" "cindex 1 0 = 1" by (simp_all add: cindex_def)
  have 1: "saved (cindex 0 0) (chunk_sectors [1, 2, 3]) create_empty_region ?f"
    using empty_region by (intro append_chunk_saved [THEN conjunct1]) (auto simp: used_def c)
  have l: "length ?f = 12288"
    by (simp add: append_chunk_def Let_def pad_len_def chunk_sectors_def write_int_be_tl c empty_region)
  have "1 \<notin> used ?f" using 1 empty_region(2) by (simp add: saved_def c)
  then have "saved (cindex 1 0) (chunk_sectors [4]) ?f two_chunks"
    unfolding two_chunks_def using 1 l by (intro append_chunk_saved [THEN conjunct1]) (auto simp: saved_def used_def c)
  moreover have "length two_chunks = 16384"
    by (simp add: two_chunks_def append_chunk_def [of 1] Let_def pad_len_def chunk_sectors_def write_int_be_tl c l)
  ultimately show ?thesis by (simp add: region_file_ok_def saved_def)
qed

theorem region_save_refines_witness:
  "\<exists>f. region_save 0 0 (replicate 5000 7) (Some two_chunks) = Some f \<and> region_ok f \<and>
    region_map (Some f) = (region_map (Some two_chunks))(cindex 0 0 \<mapsto> chunk_sectors (replicate 5000 7)) \<and>
    region_find 1 0 (Some f) = Some (region_map (Some f) (cindex 1 0))"
  by (rule region_save_refines) (simp_all add: two_chunks)

end
