(* ===== verification/Anvil.thy ===== *)
theory Anvil
  imports World Nbt Region
begin

text \<open>
  The anvil world provider (\<open>src/world/providers/anvil/provider.cpp\<close>): chunks as NBT, compressed
  into the sectors of region files, and the world data in \<open>level.dat\<close>. The provider's directory is
  the record of its files; zlib is the two functions \<open>compress\<close> and \<open>inflate\<close>. \<open>None\<close> is a null
  pointer, a cast to the wrong tag or an access outside an array.
\<close>

record anvil =
  av_regions :: "u32 \<times> u32 \<Rightarrow> byte list option"
  av_level :: "byte list option"

subsection \<open>Chunks to NBT\<close>

definition nm :: "string \<Rightarrow> byte list" where
  "nm s = map of_char s"

text \<open>The three arrays computed from the types of a sub-chunk: low bytes, high and low half-bytes.\<close>

definition blocks_bytes :: "u16 list \<Rightarrow> byte list" where
  "blocks_bytes types = map (\<lambda>i. ucast (drop_bit 4 (types ! i) AND 0xFF)) [0..<4096]"

definition add_bytes :: "u16 list \<Rightarrow> byte list" where
  "add_bytes types = map (\<lambda>i. ucast (drop_bit 12 (types ! (2 * i)) AND 15)
     OR ucast (push_bit 4 (drop_bit 12 (types ! (2 * i + 1)) AND 15))) [0..<2048]"

definition data_bytes :: "u16 list \<Rightarrow> byte list" where
  "data_bytes types = map (\<lambda>i. ucast (types ! (2 * i) AND 15)
     OR ucast (push_bit 4 (types ! (2 * i + 1) AND 15))) [0..<2048]"

definition put_section :: "nat \<Rightarrow> sub_chunk \<Rightarrow> nbt_writer \<Rightarrow> nbt_writer option" where
  "put_section i sub w = do {
     w \<leftarrow> nbt_start_compound None w;
     w \<leftarrow> nbt_put_byte (of_nat i) (Some (nm ''Y'')) w;
     w \<leftarrow> nbt_put_byte_array (blocks_bytes (sc_types sub)) (Some (nm ''Blocks'')) w;
     w \<leftarrow> nbt_put_byte_array (add_bytes (sc_types sub)) (Some (nm ''Add'')) w;
     w \<leftarrow> nbt_put_byte_array (data_bytes (sc_types sub)) (Some (nm ''Data'')) w;
     w \<leftarrow> nbt_put_byte_array (sc_bl sub) (Some (nm ''BlockLight'')) w;
     w \<leftarrow> nbt_put_byte_array (sc_sl sub) (Some (nm ''SkyLight'')) w;
     nbt_end_compound w }"

fun put_sections :: "nat list \<Rightarrow> chunk \<Rightarrow> nbt_writer \<Rightarrow> nbt_writer option" where
  "put_sections [] ch w = Some w"
| "put_sections (i # is') ch w = (case ch_subs ch ! i of
     None \<Rightarrow> put_sections is' ch w
   | Some sub \<Rightarrow> Option.bind (put_section i sub w) (put_sections is' ch))"

definition chunk_nbt :: "chunk \<Rightarrow> nbt_writer option" where
  "chunk_nbt ch = do {
     w \<leftarrow> nbt_start_compound (Some []) nbt_writer_new;
     w \<leftarrow> nbt_start_compound (Some (nm ''Level'')) w;
     w \<leftarrow> nbt_put_int (cp_x (ch_pos ch)) (Some (nm ''xPos'')) w;
     w \<leftarrow> nbt_put_int (cp_z (ch_pos ch)) (Some (nm ''zPos'')) w;
     w \<leftarrow> nbt_put_byte_array (ch_biomes ch) (Some (nm ''Biomes'')) w;
     w \<leftarrow> nbt_put_int_array (map word_of_int (ch_hmap ch)) (Some (nm ''HeightMap'')) w;
     w \<leftarrow> nbt_start_list NBT_TAG_COMPOUND (Some (nm ''Sections'')) w;
     w \<leftarrow> put_sections [0..<16] ch w;
     w \<leftarrow> nbt_end_list w;
     w \<leftarrow> nbt_end_compound w;
     nbt_end_compound w }"

definition chunk_file_data :: "(nat \<Rightarrow> byte list \<Rightarrow> byte list option) \<Rightarrow> chunk \<Rightarrow> byte list option" where
  "chunk_file_data compress ch = Option.bind (chunk_nbt ch) (nbt_write compress NBT_ZLIB)"

subsection \<open>NBT to chunks\<close>

text \<open>\<open>memcpy\<close> of the first \<open>n\<close> bytes or numbers of a source into an array.\<close>

definition memcpy :: "'v list \<Rightarrow> 'v list \<Rightarrow> nat \<Rightarrow> 'v list option" where
  "memcpy dest src n = (if n \<le> length src \<and> n \<le> length dest then Some (blit dest 0 (take n src)) else None)"

definition nbt_member :: "string \<Rightarrow> (nbt_tag \<Rightarrow> 'v option) \<Rightarrow> (byte list \<times> nbt_tag) list \<Rightarrow> 'v option" where
  "nbt_member name cast m = Option.bind (nbt_get (nm name) m) cast"

definition load_blocks :: "byte list \<Rightarrow> u16 list \<Rightarrow> u16 list option" where
  "load_blocks bytes types = (if 4096 \<le> length bytes
     then Some (fold (\<lambda>i ts. ts[i := push_bit 4 (ucast (bytes ! i))]) [0..<4096] types) else None)"

text \<open>The loops over \<open>Add\<close> and \<open>Data\<close>: a half-byte goes to the bits of the mask's complement.\<close>

definition load_add :: "byte list \<Rightarrow> u16 list \<Rightarrow> u16 list option" where
  "load_add bytes types = (if 2048 \<le> length bytes
     then Some (fold (\<lambda>i ts.
       let ts = ts[2 * i := (ts ! (2 * i) AND 0x0FFF) OR push_bit 12 (ucast (bytes ! i) AND 15)]
       in ts[2 * i + 1 := (ts ! (2 * i + 1) AND 0x0FFF) OR push_bit 12 (drop_bit 4 (ucast (bytes ! i)))]) [0..<2048] types)
     else None)"

definition load_data :: "byte list \<Rightarrow> u16 list \<Rightarrow> u16 list option" where
  "load_data bytes types = (if 2048 \<le> length bytes
     then Some (fold (\<lambda>i ts.
       let ts = ts[2 * i := (ts ! (2 * i) AND 0xFFF0) OR (ucast (bytes ! i) AND 15)]
       in ts[2 * i + 1 := (ts ! (2 * i + 1) AND 0xFFF0) OR drop_bit 4 (ucast (bytes ! i))]) [0..<2048] types)
     else None)"

text \<open>One section; a section without \<open>Add\<close> has the null pointer there.\<close>

definition load_section :: "(byte list \<times> nbt_tag) list \<Rightarrow> chunk \<Rightarrow> chunk option" where
  "load_section sect ch = do {
     sy \<leftarrow> nbt_member ''Y'' as_byte sect;
     ch \<leftarrow> chunk_set_id 0 (unat sy * 16) 0 1 ch;
     sub \<leftarrow> ch_subs ch ! unat sy;
     bytes \<leftarrow> nbt_member ''Blocks'' as_byte_array sect;
     types \<leftarrow> load_blocks bytes (sc_types sub);
     types \<leftarrow> (case nbt_get (nm ''Add'') sect of
         None \<Rightarrow> Some types
       | Some tag \<Rightarrow> Option.bind (as_byte_array tag) (\<lambda>bytes. load_add bytes types));
     bytes \<leftarrow> nbt_member ''Data'' as_byte_array sect;
     types \<leftarrow> load_data bytes types;
     bytes \<leftarrow> nbt_member ''BlockLight'' as_byte_array sect;
     bl \<leftarrow> memcpy (sc_bl sub) bytes 2048;
     bytes \<leftarrow> nbt_member ''SkyLight'' as_byte_array sect;
     sl \<leftarrow> memcpy (sc_sl sub) bytes 2048;
     Some (ch\<lparr>ch_subs := (ch_subs ch)[unat sy := Some \<lparr>sc_types = types, sc_sl = sl, sc_bl = bl\<rparr>]\<rparr>) }"

fun load_sections :: "nbt_tag list \<Rightarrow> chunk \<Rightarrow> chunk option" where
  "load_sections [] ch = Some ch"
| "load_sections (tag # tags) ch = do {
     sect \<leftarrow> as_compound tag;
     ch \<leftarrow> load_section sect ch;
     load_sections tags ch }"

definition load_chunk_from_nbt :: "(byte list \<times> nbt_tag) list \<Rightarrow> chunk option" where
  "load_chunk_from_nbt root = do {
     level \<leftarrow> nbt_member ''Level'' as_compound root;
     cx \<leftarrow> nbt_member ''xPos'' as_int level;
     cz \<leftarrow> nbt_member ''zPos'' as_int level;
     let ch = chunk_init cx cz;
     biomes \<leftarrow> nbt_member ''Biomes'' as_byte_array level;
     bs \<leftarrow> memcpy (ch_biomes ch) biomes (length biomes);
     hmap \<leftarrow> nbt_member ''HeightMap'' as_int_array level;
     hs \<leftarrow> memcpy (ch_hmap ch) (map sint hmap) (length hmap);
     sects \<leftarrow> nbt_member ''Sections'' as_list level;
     load_sections sects (ch\<lparr>ch_biomes := bs, ch_hmap := hs\<rparr>) }"

text \<open>
  The absent \<open>Level\<close>, for which the code throws \<open>world_load_error\<close>, is the one null pointer it looks at.
\<close>

definition nbt_chunk :: "(byte list \<times> (byte list \<times> nbt_tag) list) nbt_result \<Rightarrow> chunk_load option" where
  "nbt_chunk r = (case r of
     Done (name, root) rest \<Rightarrow>
       (if nbt_get (nm ''Level'') root = None then Some World_load_error
        else map_option Chunk_loaded (load_chunk_from_nbt root))
   | Fail e \<Rightarrow> Some World_load_error
   | _ \<Rightarrow> None)"

definition anvil_load_chunk :: "(byte list \<Rightarrow> byte list option) \<Rightarrow> anvil \<Rightarrow> u32 \<Rightarrow> u32 \<Rightarrow> chunk_load option" where
  "anvil_load_chunk inflate av x z = do {
     found \<leftarrow> region_find x z (av_regions av (signed_drop_bit 5 x, signed_drop_bit 5 z));
     case found of
       None \<Rightarrow> Some No_chunk
     | Some data \<Rightarrow> do {
         len \<leftarrow> read_int_be data;
         let compressed_len = len - 1;
         type \<leftarrow> (if 4 < length data then Some (data ! 4) else None);
         if type \<noteq> 1 \<and> type \<noteq> 2 then Some World_load_error
         else if sint compressed_len < 0 \<or> length data < unat compressed_len + 5 then None
         else case nbt_read inflate NBT_ZLIB (take (unat compressed_len) (drop 5 data)) of
             None \<Rightarrow> Some World_load_error
           | Some r \<Rightarrow> nbt_chunk r } }"

definition anvil_save_chunk :: "(nat \<Rightarrow> byte list \<Rightarrow> byte list option) \<Rightarrow> chunk \<Rightarrow> anvil \<Rightarrow> anvil option" where
  "anvil_save_chunk compress ch av = do {
     let cx = cp_x (ch_pos ch);
     let cz = cp_z (ch_pos ch);
     let r = (signed_drop_bit 5 cx, signed_drop_bit 5 cz);
     data \<leftarrow> chunk_file_data compress ch;
     f \<leftarrow> region_save cx cz data (av_regions av r);
     Some (av\<lparr>av_regions := (av_regions av)(r \<mapsto> f)\<rparr>) }"

subsection \<open>World data\<close>

definition save_world_data :: "(nat \<Rightarrow> byte list \<Rightarrow> byte list option) \<Rightarrow> world_data \<Rightarrow> anvil \<Rightarrow> anvil option" where
  "save_world_data compress wd av = do {
     w \<leftarrow> nbt_start_compound (Some []) nbt_writer_new;
     w \<leftarrow> nbt_start_compound (Some (nm ''Data'')) w;
     w \<leftarrow> nbt_put_int 19133 (Some (nm ''version'')) w;
     w \<leftarrow> nbt_put_byte 1 (Some (nm ''initialized'')) w;
     w \<leftarrow> nbt_put_string (nm (wd_name wd)) (Some (nm ''LevelName'')) w;
     w \<leftarrow> nbt_put_string (nm (wd_gen_name wd)) (Some (nm ''generatorName'')) w;
     w \<leftarrow> nbt_put_int 0 (Some (nm ''generatorVersion'')) w;
     w \<leftarrow> nbt_put_long (wd_seed wd) (Some (nm ''RandomSeed'')) w;
     w \<leftarrow> nbt_put_byte 0 (Some (nm ''MapFeatures'')) w;
     x \<leftarrow> double_trunc 0 (ep_x (wd_spawn_pos wd));
     w \<leftarrow> nbt_put_int x (Some (nm ''SpawnX'')) w;
     y \<leftarrow> double_trunc 0 (ep_y (wd_spawn_pos wd));
     w \<leftarrow> nbt_put_int y (Some (nm ''SpawnY'')) w;
     z \<leftarrow> double_trunc 0 (ep_z (wd_spawn_pos wd));
     w \<leftarrow> nbt_put_int z (Some (nm ''SpawnZ'')) w;
     w \<leftarrow> nbt_start_compound (Some (nm ''hCraft'')) w;
     w \<leftarrow> nbt_put_int (word_of_int (wd_width wd)) (Some (nm ''Width'')) w;
     w \<leftarrow> nbt_put_int (word_of_int (wd_depth wd)) (Some (nm ''Depth'')) w;
     w \<leftarrow> nbt_end_compound w;
     w \<leftarrow> nbt_end_compound w;
     w \<leftarrow> nbt_end_compound w;
     bytes \<leftarrow> nbt_write compress NBT_GZIP w;
     Some (av\<lparr>av_level := Some bytes\<rparr>) }"

definition load_world_data_from_nbt :: "(byte list \<times> nbt_tag) list \<Rightarrow> world_data option" where
  "load_world_data_from_nbt root = do {
     data \<leftarrow> nbt_member ''Data'' as_compound root;
     name \<leftarrow> nbt_member ''LevelName'' as_string data;
     gen \<leftarrow> nbt_member ''generatorName'' as_string data;
     seed \<leftarrow> nbt_member ''RandomSeed'' as_long data;
     x \<leftarrow> nbt_member ''SpawnX'' as_int data;
     y \<leftarrow> nbt_member ''SpawnY'' as_int data;
     z \<leftarrow> nbt_member ''SpawnZ'' as_int data;
     (width, depth) \<leftarrow> (case nbt_get (nm ''hCraft'') data of
         None \<Rightarrow> Some (-1, -1)
       | Some hcs \<Rightarrow> do {
           hcc \<leftarrow> as_compound hcs;
           w \<leftarrow> nbt_member ''Width'' as_int hcc;
           d \<leftarrow> nbt_member ''Depth'' as_int hcc;
           Some (sint w, sint d) });
     Some \<lparr>wd_name = map (char_of \<circ> unat) name, wd_seed = seed, wd_gen_name = map (char_of \<circ> unat) gen,
       wd_spawn_pos = entity_pos_of_block (block_pos_make x y z), wd_width = width, wd_depth = depth\<rparr> }"

datatype data_load = Data_loaded world_data | Data_load_error

definition load_world_data :: "(byte list \<Rightarrow> byte list option) \<Rightarrow> anvil \<Rightarrow> data_load option" where
  "load_world_data inflate av = (case av_level av of
     None \<Rightarrow> Some Data_load_error
   | Some data \<Rightarrow> (case nbt_read inflate NBT_GZIP data of
       None \<Rightarrow> Some Data_load_error
     | Some (Done (name, root) rest) \<Rightarrow> map_option Data_loaded (load_world_data_from_nbt root)
     | Some (Fail e) \<Rightarrow> Some Data_load_error
     | _ \<Rightarrow> None))"

subsection \<open>Half-bytes and types\<close>

lemma fold_set_all:
  assumes "n \<le> length ts"
  shows "fold (\<lambda>i ts. ts[i := g i]) [0..<n] ts = map g [0..<n] @ drop n ts"
  using assms by (induction n) (simp_all add: Cons_nth_drop_Suc [symmetric] upd_conv_take_nth_drop nth_append take_append)

lemma fold_pairs:
  assumes "2 * n \<le> length ts"
  shows "length (fold (\<lambda>i ts. let ts = ts[2 * i := g i (ts ! (2 * i))] in ts[2 * i + 1 := h i (ts ! (2 * i + 1))]) [0..<n] ts) = length ts \<and>
    (\<forall>k < length ts. fold (\<lambda>i ts. let ts = ts[2 * i := g i (ts ! (2 * i))] in ts[2 * i + 1 := h i (ts ! (2 * i + 1))]) [0..<n] ts ! k =
      (if k < 2 * n then (if even k then g (k div 2) (ts ! k) else h (k div 2) (ts ! k)) else ts ! k))"
  using assms
proof (induction n)
  case (Suc n)
  define f where "f = fold (\<lambda>i ts. let ts = ts[2 * i := g i (ts ! (2 * i))] in ts[2 * i + 1 := h i (ts ! (2 * i + 1))]) [0..<n] ts"
  from Suc have IH: "length f = length ts" "\<And>k. k < length ts \<Longrightarrow>
      f ! k = (if k < 2 * n then (if even k then g (k div 2) (ts ! k) else h (k div 2) (ts ! k)) else ts ! k)" by (auto simp: f_def)
  have "(f[2 * n := g n (f ! (2 * n)), 2 * n + 1 := h n (f ! (2 * n + 1))]) ! k =
      (if k < 2 * Suc n then (if even k then g (k div 2) (ts ! k) else h (k div 2) (ts ! k)) else ts ! k)"
    if k: "k < length ts" for k
  proof -
    consider "k < 2 * n" | "k = 2 * n" | "k = 2 * n + 1" | "2 * Suc n \<le> k" by atomize_elim arith
    then show ?thesis
    proof cases
      case 3
      then have "odd k" "k div 2 = n" by simp_all
      with 3 k show ?thesis by (simp add: IH)
    qed (use k in \<open>simp_all add: IH\<close>)
  qed
  moreover have "fold (\<lambda>i ts. let ts = ts[2 * i := g i (ts ! (2 * i))] in ts[2 * i + 1 := h i (ts ! (2 * i + 1))]) [0..<Suc n] ts
      = f[2 * n := g n (f ! (2 * n)), 2 * n + 1 := h n (f ! (2 * n + 1))]"
    unfolding f_def by simp
  ultimately show ?case using IH(1) by simp
qed simp

lemma below_16: "n < 16 \<Longrightarrow> n \<in> {0, 1, 2, 3, 4, 5, 6, 7, 8, 9, 10, 11, 12, 13, 14, 15 :: nat}"
  by (auto simp: numeral_eq_Suc less_Suc_eq)

lemma u16_masks: "(0x0FFF :: u16) = mask 12" "(0xFFF0 :: u16) = NOT (mask 4)" "(15 :: u16) = mask 4" "(0xFF :: u16) = mask 8"
  by (simp_all add: mask_eq_exp_minus_1 not_eq_complement)

lemma type_low:
  fixes t t' :: u16 and a d :: byte
  defines "a \<equiv> (ucast (drop_bit 12 t AND 15) OR ucast (push_bit 4 (drop_bit 12 t' AND 15)) :: byte)"
    and "d \<equiv> (ucast (t AND 15) OR ucast (push_bit 4 (t' AND 15)) :: byte)"
  shows "(((push_bit 4 (ucast (ucast (drop_bit 4 t AND 0xFF) :: byte)) AND 0x0FFF) OR push_bit 12 (ucast a AND 15)) AND 0xFFF0)
    OR (ucast d AND 15) = t"
proof (rule bit_word_eqI)
  fix n assume "n < LENGTH(16)"
  then have "n \<in> {0, 1, 2, 3, 4, 5, 6, 7, 8, 9, 10, 11, 12, 13, 14, 15}" by (intro below_16) simp
  then show "bit ((((push_bit 4 (ucast (ucast (drop_bit 4 t AND 0xFF) :: byte)) AND 0x0FFF) OR push_bit 12 (ucast a AND 15)) AND 0xFFF0)
    OR (ucast d AND 15) :: u16) n = bit t n"
    unfolding a_def d_def u16_masks by (elim insertE) (simp_all add: bit_simps)
qed

lemma type_high:
  fixes t t' :: u16 and a d :: byte
  defines "a \<equiv> (ucast (drop_bit 12 t' AND 15) OR ucast (push_bit 4 (drop_bit 12 t AND 15)) :: byte)"
    and "d \<equiv> (ucast (t' AND 15) OR ucast (push_bit 4 (t AND 15)) :: byte)"
  shows "(((push_bit 4 (ucast (ucast (drop_bit 4 t AND 0xFF) :: byte)) AND 0x0FFF) OR push_bit 12 (drop_bit 4 (ucast a))) AND 0xFFF0)
    OR drop_bit 4 (ucast d) = t"
proof (rule bit_word_eqI)
  fix n assume "n < LENGTH(16)"
  then have "n \<in> {0, 1, 2, 3, 4, 5, 6, 7, 8, 9, 10, 11, 12, 13, 14, 15}" by (intro below_16) simp
  then show "bit ((((push_bit 4 (ucast (ucast (drop_bit 4 t AND 0xFF) :: byte)) AND 0x0FFF) OR push_bit 12 (drop_bit 4 (ucast a))) AND 0xFFF0)
    OR drop_bit 4 (ucast d) :: u16) n = bit t n"
    unfolding a_def d_def u16_masks by (elim insertE) (simp_all add: bit_simps)
qed

text \<open>The three arrays together give the types back, whatever the sub-chunk held before.\<close>

lemma types_roundtrip:
  assumes "length types = 4096" "length ts = 4096"
  shows "\<exists>t1 t2. load_blocks (blocks_bytes types) ts = Some t1 \<and> load_add (add_bytes types) t1 = Some t2 \<and>
    load_data (data_bytes types) t2 = Some types"
proof -
  let ?b = "blocks_bytes types" and ?a = "add_bytes types" and ?d = "data_bytes types"
  have len: "length ?b = 4096" "length ?a = 2048" "length ?d = 2048" by (simp_all add: blocks_bytes_def add_bytes_def data_bytes_def)
  let ?t1 = "map (\<lambda>i. push_bit 4 (ucast (?b ! i)) :: u16) [0..<4096]"
  have 1: "load_blocks ?b ts = Some ?t1"
    using fold_set_all [of 4096 ts "\<lambda>i. push_bit 4 (ucast (?b ! i))"] assms(2) len by (simp add: load_blocks_def)
  obtain t2 where 2: "load_add ?a ?t1 = Some t2" by (simp add: load_add_def len)
  have t2: "length t2 = 4096" "\<And>k. k < 4096 \<Longrightarrow> t2 ! k = (?t1 ! k AND 0x0FFF) OR
      (if even k then push_bit 12 (ucast (?a ! (k div 2)) AND 15) else push_bit 12 (drop_bit 4 (ucast (?a ! (k div 2)))))"
    using 2 fold_pairs [of 2048 ?t1 "\<lambda>i t. (t AND 0x0FFF) OR push_bit 12 (ucast (?a ! i) AND 15)"
      "\<lambda>i t. (t AND 0x0FFF) OR push_bit 12 (drop_bit 4 (ucast (?a ! i)))"]
    by (auto simp: load_add_def len simp del: nth_map)
  obtain t3 where 3: "load_data ?d t2 = Some t3" by (simp add: load_data_def len)
  have t3: "length t3 = 4096" "\<And>k. k < 4096 \<Longrightarrow> t3 ! k = (t2 ! k AND 0xFFF0) OR
      (if even k then ucast (?d ! (k div 2)) AND 15 else drop_bit 4 (ucast (?d ! (k div 2))))"
    using 3 fold_pairs [of 2048 t2 "\<lambda>i t. (t AND 0xFFF0) OR (ucast (?d ! i) AND 15)"
      "\<lambda>i t. (t AND 0xFFF0) OR drop_bit 4 (ucast (?d ! i))"]
    by (auto simp: load_data_def len t2(1))
  have "t3 ! k = types ! k" if k: "k < 4096" for k
  proof -
    have j: "k div 2 < 2048" using k by simp
    have a: "?a ! (k div 2) = ucast (drop_bit 12 (types ! (2 * (k div 2))) AND 15)
        OR ucast (push_bit 4 (drop_bit 12 (types ! (2 * (k div 2) + 1)) AND 15))"
      and d: "?d ! (k div 2) = ucast (types ! (2 * (k div 2)) AND 15) OR ucast (push_bit 4 (types ! (2 * (k div 2) + 1) AND 15))"
      and b: "?t1 ! k = push_bit 4 (ucast (ucast (drop_bit 4 (types ! k) AND 0xFF) :: byte))"
      using j k by (simp_all add: add_bytes_def data_bytes_def blocks_bytes_def)
    show ?thesis
    proof (cases "even k")
      case True
      then have e: "2 * (k div 2) = k" by simp
      show ?thesis using True by (simp only: t3(2) [OF k] t2(2) [OF k] if_True a d b e type_low)
    next
      case False
      then have e: "2 * (k div 2) + 1 = k" by simp
      show ?thesis using False by (simp only: t3(2) [OF k] t2(2) [OF k] if_False a d b e type_high)
    qed
  qed
  then have "t3 = types" using t3(1) assms(1) by (intro nth_equalityI) simp_all
  with 1 2 3 show ?thesis by blast
qed

subsection \<open>The tree of a chunk\<close>

definition section_tree :: "nat \<Rightarrow> sub_chunk \<Rightarrow> nbt_tag" where
  "section_tree i sub = Nbt_compound [(nm ''Y'', Nbt_byte (of_nat i)),
     (nm ''Blocks'', Nbt_byte_array (blocks_bytes (sc_types sub))), (nm ''Add'', Nbt_byte_array (add_bytes (sc_types sub))),
     (nm ''Data'', Nbt_byte_array (data_bytes (sc_types sub))), (nm ''BlockLight'', Nbt_byte_array (sc_bl sub)),
     (nm ''SkyLight'', Nbt_byte_array (sc_sl sub))]"

fun section_trees :: "nat list \<Rightarrow> chunk \<Rightarrow> nbt_tag list" where
  "section_trees [] ch = []"
| "section_trees (i # is') ch = (case ch_subs ch ! i of
     None \<Rightarrow> section_trees is' ch | Some sub \<Rightarrow> section_tree i sub # section_trees is' ch)"

definition level_tree :: "chunk \<Rightarrow> (byte list \<times> nbt_tag) list" where
  "level_tree ch = [(nm ''xPos'', Nbt_int (cp_x (ch_pos ch))),
     (nm ''zPos'', Nbt_int (cp_z (ch_pos ch))), (nm ''Biomes'', Nbt_byte_array (ch_biomes ch)),
     (nm ''HeightMap'', Nbt_int_array (map word_of_int (ch_hmap ch))),
     (nm ''Sections'', Nbt_list (section_trees [0..<16] ch))]"

definition chunk_tree :: "chunk \<Rightarrow> (byte list \<times> nbt_tag) list" where
  "chunk_tree ch = [(nm ''Level'', Nbt_compound (level_tree ch))]"

lemma section_tree_type [simp]: "nbt_type (section_tree i sub) = NBT_TAG_COMPOUND"
  by (simp add: section_tree_def NBT_TAG_COMPOUND_def)

lemma section_trees_type: "list_type (section_trees is' ch) = NBT_TAG_COMPOUND" "t \<in> set (section_trees is' ch) \<Longrightarrow> nbt_type t = NBT_TAG_COMPOUND"
  by (induction is') (auto simp: list_type_def split: option.splits)

lemma put_section_tree: "put_section i sub w = nbt_write_tag (section_tree i sub) None w"
  by (simp add: put_section_def section_tree_def)

lemma put_sections_tree: "put_sections is' ch = nbt_write_elems (section_trees is' ch)"
proof (induction is')
  case (Cons i is')
  show ?case by (rule ext) (simp add: put_section_tree Cons split: option.split)
qed (rule ext, simp)

lemma level_tree_written: "Option.bind (nbt_write_members (level_tree ch) w) f = do {
     w \<leftarrow> nbt_put_int (cp_x (ch_pos ch)) (Some (nm ''xPos'')) w;
     w \<leftarrow> nbt_put_int (cp_z (ch_pos ch)) (Some (nm ''zPos'')) w;
     w \<leftarrow> nbt_put_byte_array (ch_biomes ch) (Some (nm ''Biomes'')) w;
     w \<leftarrow> nbt_put_int_array (map word_of_int (ch_hmap ch)) (Some (nm ''HeightMap'')) w;
     w \<leftarrow> nbt_start_list NBT_TAG_COMPOUND (Some (nm ''Sections'')) w;
     w \<leftarrow> put_sections [0..<16] ch w;
     w \<leftarrow> nbt_end_list w;
     f w }"
  by (simp add: level_tree_def section_trees_type(1) put_sections_tree del: put_sections.simps section_trees.simps upt.simps upt_Suc upt_rec_numeral)

lemma chunk_nbt_tree: "chunk_nbt ch = nbt_write_tag (Nbt_compound (chunk_tree ch)) (Some []) nbt_writer_new"
proof -
  have "chunk_nbt ch = do {
     w \<leftarrow> nbt_start_compound (Some []) nbt_writer_new;
     w \<leftarrow> nbt_start_compound (Some (nm ''Level'')) w;
     w \<leftarrow> nbt_write_members (level_tree ch) w;
     w \<leftarrow> nbt_end_compound w;
     nbt_end_compound w }"
    by (simp only: chunk_nbt_def level_tree_written)
  also have "\<dots> = nbt_write_tag (Nbt_compound (chunk_tree ch)) (Some []) nbt_writer_new"
    by (simp only: chunk_tree_def nbt_write_tag.simps nbt_write_members.simps Option.bind_assoc Option.bind_runit Option.bind.bind_lunit)
  finally show ?thesis .
qed

lemma name_nm: "list_all (\<lambda>s. name_ok (nm s)) [''Level'', ''xPos'', ''zPos'', ''Biomes'', ''HeightMap'', ''Sections'',
    ''Y'', ''Blocks'', ''Add'', ''Data'', ''BlockLight'', ''SkyLight'', ''version'', ''initialized'', ''LevelName'',
    ''generatorName'', ''generatorVersion'', ''RandomSeed'', ''MapFeatures'', ''SpawnX'', ''SpawnY'', ''SpawnZ'', ''hCraft'',
    ''Width'', ''Depth'']"
  by (simp add: name_ok_def nm_def)

lemma of_char_less: "(of_char c :: nat) < 256"
  using nat_of_char_less_256 by simp

lemma nm_inj: "nm s = nm t \<longleftrightarrow> s = t"
proof -
  have "inj (of_char :: char \<Rightarrow> byte)"
  proof (rule injI)
    fix c d :: char assume "(of_char c :: byte) = of_char d"
    then have "unat (of_nat (of_char c) :: byte) = unat (of_nat (of_char d) :: byte)" by (simp only: of_nat_of_char)
    then show "c = d" using of_char_less [of c] of_char_less [of d] by (simp add: unat_of_nat)
  qed
  then show ?thesis by (simp add: nm_def inj_map_eq_map)
qed

lemma section_tree_ok: "sub_ok sub \<Longrightarrow> nbt_ok (section_tree i sub)"
  using name_nm by (simp add: section_tree_def nm_inj sub_ok_def blocks_bytes_def add_bytes_def data_bytes_def)

lemma section_tree_length: "sub_ok sub \<Longrightarrow> length (nbt_enc (section_tree i sub)) = 12360"
  by (simp add: section_tree_def tag_start_def sub_ok_def blocks_bytes_def add_bytes_def data_bytes_def nm_def)

lemma chunk_ok_sub: "chunk_ok ch \<Longrightarrow> i < 16 \<Longrightarrow> ch_subs ch ! i = Some s \<Longrightarrow> sub_ok s"
  unfolding chunk_ok_def sub_made_def by (metis nth_mem option.simps(5))

lemma section_trees_length: "length (section_trees is' ch) \<le> length is'"
  by (induction is') (auto split: option.split)

lemma section_trees_ok:
  assumes "chunk_ok ch" "\<forall>i \<in> set is'. i < 16" "t \<in> set (section_trees is' ch)"
  shows "nbt_ok t \<and> length (nbt_enc t) = 12360"
  using assms(2,3)
proof (induction is')
  case (Cons i is')
  then show ?case using chunk_ok_sub [OF assms(1), of i] by (auto simp: section_tree_ok section_tree_length split: option.splits)
qed simp

lemma section_trees_enc_length:
  assumes "chunk_ok ch" "\<forall>i \<in> set is'. i < 16"
  shows "length (concat (map nbt_enc (section_trees is' ch))) \<le> length is' * 12360"
proof -
  have "\<forall>x \<in> set (map nbt_enc (section_trees is' ch)). length x \<le> 12360" using section_trees_ok [OF assms] by fastforce
  from concat_length_le [OF this] section_trees_length [of is' ch] show ?thesis
    by (metis (no_types, lifting) le_trans length_map mult_le_mono1)
qed

lemma chunk_tree_ok:
  assumes "chunk_ok ch"
  shows "nbt_ok (Nbt_compound (chunk_tree ch))"
    "length (tag_start [] (Nbt_compound (chunk_tree ch)) @ nbt_enc (Nbt_compound (chunk_tree ch))) + 4 \<le> bb_limit"
proof -
  have "nbt_ok (Nbt_list (section_trees [0..<16] ch))"
  proof -
    have "length (section_trees [0..<16] ch) < 2 ^ 31" using section_trees_length [of "[0..<16]" ch] by simp
    moreover have "nbt_ok t \<and> nbt_type t = list_type (section_trees [0..<16] ch)" if "t \<in> set (section_trees [0..<16] ch)" for t
      using section_trees_ok [OF assms _ that] section_trees_type(2) [OF that] by (simp add: section_trees_type(1))
    ultimately show ?thesis by simp
  qed
  then show "nbt_ok (Nbt_compound (chunk_tree ch))"
    using assms name_nm by (simp add: chunk_tree_def level_tree_def nm_inj chunk_ok_def del: section_trees.simps upt.simps nbt_ok.simps(3) upt_Suc upt_rec_numeral)
  have "length (concat (map nbt_enc (section_trees [0..<16] ch))) \<le> 16 * 12360"
    using section_trees_enc_length [OF assms, of "[0..<16]"] by (simp del: section_trees.simps upt.simps upt_Suc upt_rec_numeral)
  then show "length (tag_start [] (Nbt_compound (chunk_tree ch)) @ nbt_enc (Nbt_compound (chunk_tree ch))) + 4 \<le> bb_limit"
    using assms by (simp add: chunk_tree_def level_tree_def tag_start_def chunk_ok_def bb_limit_def nm_def o_def
      del: section_trees.simps upt.simps upt_Suc upt_rec_numeral length_concat map_map)
qed

subsection \<open>Loading the tree of a chunk\<close>

lemma blocks_height_1: "blocks_height 1"
  by code_simp

text \<open>The block that is set to make a sub-chunk raises the height of its column.\<close>

lemma make_sub:
  assumes "chunk_ok c" "i < 16"
  shows "\<exists>s. chunk_set_id 0 (i * 16) 0 1 c = Some (c\<lparr>ch_subs := (ch_subs c)[i := Some s],
    ch_hmap := (ch_hmap c)[0 := max (ch_hmap c ! 0) (int i * 16 + 1)]\<rparr>) \<and> sub_ok s"
proof -
  have d: "drop_bit 4 (i * 16) = i" by (simp add: drop_bit_eq_div)
  have x: "ch_index 0 (i * 16) 0 = 0" "col_index 0 0 = 0" by (simp_all add: ch_index_eq col_index_eq)
  let ?s = "sub_made (ch_subs c ! i)"
  let ?n = "?s\<lparr>sc_types := (sc_types ?s)[0 := (sc_types ?s ! 0 AND 0x000F) OR push_bit 4 1]\<rparr>"
  let ?c = "c\<lparr>ch_subs := (ch_subs c)[i := Some ?n]\<rparr>"
  have "sub_ok ?s" using assms by (simp add: chunk_ok_def)
  then have "sub_ok ?n" by (simp add: sub_ok_def)
  moreover have "chunk_set_id 0 (i * 16) 0 1 c = update_height 0 (i * 16) 0 1 ?c"
    using assms(2) by (simp add: chunk_set_id_def sub_at_def d x Let_def put_sub_def)
  moreover have "update_height 0 (i * 16) 0 1 ?c = Some (?c\<lparr>ch_hmap := (ch_hmap c)[0 := max (ch_hmap c ! 0) (int i * 16 + 1)]\<rparr>)"
  proof (cases "int i * 16 \<ge> ch_hmap c ! 0")
    case True
    then have "max (ch_hmap c ! 0) (int i * 16 + 1) = int i * 16 + 1" by simp
    with True show ?thesis by (simp add: update_height_def x blocks_height_1)
  next
    case False
    then have "max (ch_hmap c ! 0) (int i * 16 + 1) = ch_hmap c ! 0" by simp
    with False show ?thesis by (simp add: update_height_def x blocks_height_1)
  qed
  ultimately show ?thesis by auto
qed

lemma section_members:
  fixes i sub
  defines "m \<equiv> (case section_tree i sub of Nbt_compound m \<Rightarrow> m | _ \<Rightarrow> [])"
  shows "section_tree i sub = Nbt_compound m" "nbt_member ''Y'' as_byte m = Some (of_nat i)"
    "nbt_member ''Blocks'' as_byte_array m = Some (blocks_bytes (sc_types sub))"
    "nbt_get (nm ''Add'') m = Some (Nbt_byte_array (add_bytes (sc_types sub)))"
    "nbt_member ''Data'' as_byte_array m = Some (data_bytes (sc_types sub))"
    "nbt_member ''BlockLight'' as_byte_array m = Some (sc_bl sub)"
    "nbt_member ''SkyLight'' as_byte_array m = Some (sc_sl sub)"
  by (simp_all add: m_def section_tree_def nbt_member_def nbt_get_def nm_inj)

lemma memcpy_all: "length dest = length src \<Longrightarrow> n = length src \<Longrightarrow> memcpy dest src n = Some src"
  by (simp add: memcpy_def blit_def)

lemma load_section_tree:
  assumes c: "chunk_ok c" and i: "i < 16" and sub: "sub_ok sub" and m: "section_tree i sub = Nbt_compound m"
  shows "load_section m c = Some (c\<lparr>ch_subs := (ch_subs c)[i := Some sub],
    ch_hmap := (ch_hmap c)[0 := max (ch_hmap c ! 0) (int i * 16 + 1)]\<rparr>)"
proof -
  have m': "m = (case section_tree i sub of Nbt_compound m \<Rightarrow> m | _ \<Rightarrow> [])" by (simp add: m)
  note mem = section_members [of i sub, folded m']
  have u: "unat (of_nat i :: byte) = i" using i by (simp add: unat_of_nat)
  obtain s where s: "chunk_set_id 0 (i * 16) 0 1 c = Some (c\<lparr>ch_subs := (ch_subs c)[i := Some s],
    ch_hmap := (ch_hmap c)[0 := max (ch_hmap c ! 0) (int i * 16 + 1)]\<rparr>)" "sub_ok s" using make_sub [OF c i] by blast
  have l: "length (ch_subs c) = 16" using c by (simp add: chunk_ok_def)
  obtain t1 t2 where t: "load_blocks (blocks_bytes (sc_types sub)) (sc_types s) = Some t1" "load_add (add_bytes (sc_types sub)) t1 = Some t2"
    "load_data (data_bytes (sc_types sub)) t2 = Some (sc_types sub)"
    using types_roundtrip [of "sc_types sub" "sc_types s"] sub s(2) by (auto simp: sub_ok_def)
  have light: "memcpy (sc_bl s) (sc_bl sub) 2048 = Some (sc_bl sub)" "memcpy (sc_sl s) (sc_sl sub) 2048 = Some (sc_sl sub)"
    using sub s(2) by (simp_all add: memcpy_all sub_ok_def)
  have e: "\<lparr>sc_types = sc_types sub, sc_sl = sc_sl sub, sc_bl = sc_bl sub\<rparr> = sub" by simp
  have swap: "c\<lparr>ch_hmap := h, ch_subs := ss\<rparr> = c\<lparr>ch_subs := ss, ch_hmap := h\<rparr>" for h ss by simp
  have "load_section m c = Some (c\<lparr>ch_hmap := (ch_hmap c)[0 := max (ch_hmap c ! 0) (int i * 16 + 1)], ch_subs :=
      (ch_subs c)[i := Some \<lparr>sc_types = sc_types sub, sc_sl = sc_sl sub, sc_bl = sc_bl sub\<rparr>]\<rparr>)"
    unfolding load_section_def mem(2-7)
    by (simp add: u s(1) l i t light)
  then show ?thesis unfolding e swap .
qed

text \<open>The height of the corner column after the sections of the list.\<close>

fun corner_height :: "nat list \<Rightarrow> chunk \<Rightarrow> int \<Rightarrow> int" where
  "corner_height [] ch h = h"
| "corner_height (i # is') ch h = corner_height is' ch (if ch_subs ch ! i = None then h else max h (int i * 16 + 1))"

lemma load_section_trees:
  assumes "chunk_ok ch" "chunk_ok c" "\<forall>i \<in> set is'. i < 16" "distinct is'"
  shows "load_sections (section_trees is' ch) c = Some (c\<lparr>
    ch_subs := map (\<lambda>i. if i \<in> set is' \<and> ch_subs ch ! i \<noteq> None then ch_subs ch ! i else ch_subs c ! i) [0..<16],
    ch_hmap := (ch_hmap c)[0 := corner_height is' ch (ch_hmap c ! 0)]\<rparr>)"
  using assms(2-)
proof (induction is' arbitrary: c)
  case Nil
  have "map ((!) (ch_subs c)) [0..<16] = ch_subs c" using Nil(1) map_nth [of "ch_subs c"] by (simp add: chunk_ok_def)
  then show ?case by simp
next
  case (Cons i is')
  show ?case
  proof (cases "ch_subs ch ! i")
    case None
    have "(if j \<in> set (i # is') \<and> ch_subs ch ! j \<noteq> None then ch_subs ch ! j else ch_subs c ! j)
      = (if j \<in> set is' \<and> ch_subs ch ! j \<noteq> None then ch_subs ch ! j else ch_subs c ! j)" for j using None by auto
    then show ?thesis using Cons None by (simp del: upt.simps upt_Suc upt_rec_numeral)
  next
    case (Some sub)
    have i: "i < 16" "sub_ok sub" using Cons.prems(2) chunk_ok_sub [OF assms(1) _ Some] by simp_all
    obtain m where m: "section_tree i sub = Nbt_compound m" by (simp add: section_tree_def)
    let ?c = "c\<lparr>ch_subs := (ch_subs c)[i := Some sub], ch_hmap := (ch_hmap c)[0 := max (ch_hmap c ! 0) (int i * 16 + 1)]\<rparr>"
    have "chunk_ok ?c" using Cons.prems(1) i
      by (auto simp: chunk_ok_def sub_made_def dest!: set_update_subset_insert [THEN subsetD])
    note IH = Cons.IH [OF this]
    have h: "0 < length (ch_hmap c)" and l: "length (ch_subs c) = 16" using Cons.prems(1) by (simp_all add: chunk_ok_def)
    have s: "map (\<lambda>j. if j \<in> set is' \<and> ch_subs ch ! j \<noteq> None then ch_subs ch ! j else ch_subs ?c ! j) [0..<16]
      = map (\<lambda>j. if j \<in> set (i # is') \<and> ch_subs ch ! j \<noteq> None then ch_subs ch ! j else ch_subs c ! j) [0..<16]"
    proof (rule map_cong [OF refl])
      fix j
      show "(if j \<in> set is' \<and> ch_subs ch ! j \<noteq> None then ch_subs ch ! j else ch_subs ?c ! j)
        = (if j \<in> set (i # is') \<and> ch_subs ch ! j \<noteq> None then ch_subs ch ! j else ch_subs c ! j)"
        using Cons.prems(3) Some l i(1) by (cases "j = i") auto
    qed
    have "load_sections (section_trees is' ch) ?c = Some (?c\<lparr>
      ch_subs := map (\<lambda>j. if j \<in> set is' \<and> ch_subs ch ! j \<noteq> None then ch_subs ch ! j else ch_subs ?c ! j) [0..<16],
      ch_hmap := (ch_hmap ?c)[0 := corner_height is' ch (ch_hmap ?c ! 0)]\<rparr>)"
      by (rule IH) (use Cons.prems in simp_all)
    then show ?thesis unfolding s using load_section_tree [OF Cons.prems(1) i m] h Some
      by (simp add: m del: upt.simps upt_Suc upt_rec_numeral set_simps)
  qed
qed

text \<open>
  What comes back: the chunk without its entities and neighbours, the height of the corner column
  at least that of a block at the bottom of its highest sub-chunk.
\<close>

definition reloaded :: "chunk \<Rightarrow> chunk" where
  "reloaded ch = ch\<lparr>ch_hmap := (ch_hmap ch)[0 := corner_height [0..<16] ch (ch_hmap ch ! 0)],
     ch_neighbours := replicate 4 None, ch_ents := []\<rparr>"

lemma load_chunk_tree:
  assumes ok: "chunk_ok ch" and h: "\<forall>h \<in> set (ch_hmap ch). - (2 ^ 31) \<le> h \<and> h < 2 ^ 31"
  shows "load_chunk_from_nbt (chunk_tree ch) = Some (reloaded ch)"
proof -
  let ?c = "(chunk_init (cp_x (ch_pos ch)) (cp_z (ch_pos ch)))\<lparr>ch_biomes := ch_biomes ch, ch_hmap := ch_hmap ch\<rparr>"
  have c: "chunk_ok ?c" using ok chunk_init_wf by (simp add: chunk_wf_def chunk_ok_def)
  have l: "length (ch_subs ch) = 16" using ok by (simp add: chunk_ok_def)
  have "map sint (map word_of_int (ch_hmap ch) :: u32 list) = ch_hmap ch"
    using h by (intro map_idI [THEN trans [OF map_map]]) (simp add: o_def signed_of_int signed_take_bit_int_eq_self)
  moreover have "map (\<lambda>i. if i \<in> set [0..<16] \<and> ch_subs ch ! i \<noteq> None then ch_subs ch ! i else ch_subs ?c ! i) [0..<16] = ch_subs ch"
    using l by (intro nth_equalityI) (auto simp: chunk_init_def simp del: upt.simps upt_Suc upt_rec_numeral)
  moreover have "memcpy (ch_biomes (chunk_init x z)) (ch_biomes ch) (length (ch_biomes ch)) = Some (ch_biomes ch)"
    "memcpy (ch_hmap (chunk_init x z)) (ch_hmap ch) (length (ch_hmap ch)) = Some (ch_hmap ch)" for x z
    using ok by (simp_all add: memcpy_all chunk_init_def chunk_ok_def)
  ultimately show ?thesis
    using load_section_trees [OF ok c, of "[0..<16]"]
    by (simp add: load_chunk_from_nbt_def chunk_tree_def level_tree_def nbt_member_def nbt_get_def nm_inj reloaded_def
        chunk_init_def chunk_pos_make_def del: upt.simps upt_Suc upt_rec_numeral section_trees.simps corner_height.simps)
qed

subsection \<open>Chunks in their regions\<close>

lemma cindex_eq:
  assumes "cindex x z = cindex x' z'" "signed_drop_bit 5 x = signed_drop_bit 5 x'" "signed_drop_bit 5 z = signed_drop_bit 5 z'"
  shows "x = x' \<and> z = z'"
proof -
  have m: "(31 :: u32) = mask 5" by (simp add: mask_eq_exp_minus_1)
  have e: "push_bit 5 (z AND 31) OR (x AND 31) = push_bit 5 (z' AND 31) OR (x' AND 31)"
    using assms(1) by (simp only: cindex_def word_unat_eq_iff)
  have low: "bit x n = bit x' n \<and> bit z n = bit z' n" if "n < 5" for n
  proof -
    have "bit (push_bit 5 (z AND 31) OR (x AND 31)) n = bit (push_bit 5 (z' AND 31) OR (x' AND 31)) n"
      "bit (push_bit 5 (z AND 31) OR (x AND 31)) (n + 5) = bit (push_bit 5 (z' AND 31) OR (x' AND 31)) (n + 5)"
      using e by simp_all
    then show ?thesis using that unfolding m by (auto simp: bit_simps)
  qed
  have high: "bit v n = bit v' n" if "signed_drop_bit 5 v = signed_drop_bit 5 v'" "5 \<le> n" "n < 32" for v v' :: u32 and n
  proof -
    have "bit (signed_drop_bit 5 v) (n - 5) = bit (signed_drop_bit 5 v') (n - 5)" using that(1) by simp
    then show ?thesis using that(2,3) by (simp add: bit_signed_drop_bit_iff split: if_splits)
  qed
  have "bit x n = bit x' n \<and> bit z n = bit z' n" if "n < 32" for n
    using that low [of n] high [OF assms(2), of n] high [OF assms(3), of n] by (cases "n < 5") auto
  then show ?thesis by (auto intro!: bit_word_eqI)
qed

lemma region_find_ok: "region_file_ok file \<Longrightarrow> region_find x z file = Some (region_map file (cindex x z))"
  using region_find_map by (cases "file") (auto simp: region_file_ok_def region_find_def region_map_def)

lemma heights_range:
  assumes "chunk_wf c" shows "\<forall>h \<in> set (ch_hmap c). - (2 ^ 31) \<le> h \<and> h < 2 ^ 31"
proof
  fix h assume "h \<in> set (ch_hmap c)"
  then obtain k where k: "k < 256" "h = ch_hmap c ! k" using assms by (auto simp: chunk_wf_def chunk_ok_def in_set_conv_nth)
  then have "k mod 16 < 16" "k div 16 < 16" "col_index (k mod 16) (k div 16) = k" by (simp_all add: col_index_eq)
  then have "height_right (\<lambda>y. id_at c (k mod 16) y (k div 16)) 256 h"
    using assms k(2) unfolding chunk_wf_def heights_ok_def by metis
  then show "- (2 ^ 31) \<le> h \<and> h < 2 ^ 31" by (auto simp: height_right_def)
qed

text \<open>Loading a chunk, once its sectors are found.\<close>

lemma load_sectors:
  assumes "region_find x z (av_regions av (signed_drop_bit 5 x, signed_drop_bit 5 z)) = Some (Some (chunk_sectors data))"
    and "length data + 5 \<le> 255 * 4096"
  shows "anvil_load_chunk inflate av x z = (case nbt_read inflate NBT_ZLIB data of None \<Rightarrow> Some World_load_error | Some r \<Rightarrow> nbt_chunk r)"
proof -
  let ?s = "chunk_sectors data"
  have l: "sint (of_nat (length data) :: u32) = int (length data)" "unat (of_nat (length data) :: u32) = length data"
    using length_word(1,2) [of "length data"] assms(2) by simp_all
  have "read_int_be ?s = Some (of_nat (length data) + 1)" "4 < length ?s" "?s ! 4 = 2" "length data + 5 \<le> length ?s"
    "take (length data) (drop 5 ?s) = data"
    by (simp_all add: chunk_sectors_def nth_append)
  then show ?thesis using assms(1) l by (simp add: anvil_load_chunk_def Let_def del: of_nat_add)
qed

text \<open>
  C38: a well-formed chunk that has been saved is loaded again with the same biomes, sub-chunks and
  light, and with the same heights except that of the corner column, which the loader may raise;
  what loading finds for every other chunk of the world, in this region or another, is unchanged.
  zlib enters with the law that it decompresses what it compressed.
\<close>

theorem anvil_chunk_roundtrip:
  assumes ch: "chunk_wf ch" and data: "chunk_file_data compress ch = Some data" "length data + 5 \<le> 255 * 4096"
    and zlib: "\<And>n bs z. compress n bs = Some z \<Longrightarrow> inflate z = Some bs"
    and regions: "\<And>r. region_file_ok (av_regions av r)"
  shows "\<exists>av'. anvil_save_chunk compress ch av = Some av' \<and>
    anvil_load_chunk inflate av' (cp_x (ch_pos ch)) (cp_z (ch_pos ch)) = Some (Chunk_loaded (reloaded ch)) \<and>
    (\<forall>x z. (x, z) \<noteq> (cp_x (ch_pos ch), cp_z (ch_pos ch)) \<longrightarrow> anvil_load_chunk inflate av' x z = anvil_load_chunk inflate av x z)"
proof -
  let ?x = "cp_x (ch_pos ch)" and ?z = "cp_z (ch_pos ch)"
  let ?r = "(signed_drop_bit 5 ?x, signed_drop_bit 5 ?z)"
  have ok: "chunk_ok ch" using ch by (simp add: chunk_wf_def)
  obtain w where w: "chunk_nbt ch = Some w" "nbt_read_raw (bb_contents (nw_buf w)) = Done ([], chunk_tree ch) []"
    using nbt_written_read [OF chunk_tree_ok(1) [OF ok] _ chunk_tree_ok(2) [OF ok]] chunk_nbt_tree by (auto simp: name_ok_def)
  have "inflate data = Some (bb_contents (nw_buf w))" using data(1) w(1) zlib by (simp add: chunk_file_data_def nbt_write_def)
  then have read: "nbt_read inflate NBT_ZLIB data = Some (Done ([], chunk_tree ch) [])" by (simp add: nbt_read_def w(2))
  have chunk: "nbt_chunk (Done ([], chunk_tree ch) []) = Some (Chunk_loaded (reloaded ch))"
    using load_chunk_tree [OF ok heights_range [OF ch]] by (simp add: nbt_chunk_def) (simp add: chunk_tree_def nbt_get_def)
  have "\<exists>f. region_save ?x ?z data (av_regions av ?r) = Some f \<and> region_map (Some f) = (region_map (av_regions av ?r))(cindex ?x ?z \<mapsto> chunk_sectors data) \<and>
      (\<forall>x z. region_find x z (Some f) = Some (region_map (Some f) (cindex x z)))"
    using region_saved_found [OF regions data(2)] by (metis (no_types, lifting) option.inject)
  then obtain f where f: "region_save ?x ?z data (av_regions av ?r) = Some f"
    "region_map (Some f) = (region_map (av_regions av ?r))(cindex ?x ?z \<mapsto> chunk_sectors data)"
    "\<And>x z. region_find x z (Some f) = Some (region_map (Some f) (cindex x z))" by blast
  let ?av = "av\<lparr>av_regions := (av_regions av)(?r \<mapsto> f)\<rparr>"
  have s: "anvil_save_chunk compress ch av = Some ?av" by (simp add: anvil_save_chunk_def data f(1))
  have "anvil_load_chunk inflate ?av ?x ?z = Some (Chunk_loaded (reloaded ch))"
    using load_sectors [of ?x ?z ?av data, OF _ data(2)] f(2,3) read chunk by simp
  moreover have "anvil_load_chunk inflate ?av x z = anvil_load_chunk inflate av x z" if n: "(x, z) \<noteq> (?x, ?z)" for x z
  proof -
    have "region_find x z (av_regions ?av (signed_drop_bit 5 x, signed_drop_bit 5 z))
      = region_find x z (av_regions av (signed_drop_bit 5 x, signed_drop_bit 5 z))"
    proof (cases "(signed_drop_bit 5 x, signed_drop_bit 5 z) = ?r")
      case True
      then have "cindex x z \<noteq> cindex ?x ?z" using n cindex_eq by auto
      then show ?thesis using True region_find_ok [OF regions] f(2,3) by simp
    qed auto
    then show ?thesis by (simp add: anvil_load_chunk_def)
  qed
  ultimately show ?thesis using s by blast
qed

subsection \<open>World data written and read\<close>

definition data_tree :: "world_data \<Rightarrow> u32 \<Rightarrow> u32 \<Rightarrow> u32 \<Rightarrow> (byte list \<times> nbt_tag) list" where
  "data_tree wd x y z = [(nm ''version'', Nbt_int 19133), (nm ''initialized'', Nbt_byte 1),
     (nm ''LevelName'', Nbt_string (nm (wd_name wd))), (nm ''generatorName'', Nbt_string (nm (wd_gen_name wd))),
     (nm ''generatorVersion'', Nbt_int 0), (nm ''RandomSeed'', Nbt_long (wd_seed wd)), (nm ''MapFeatures'', Nbt_byte 0),
     (nm ''SpawnX'', Nbt_int x), (nm ''SpawnY'', Nbt_int y), (nm ''SpawnZ'', Nbt_int z)]"

definition size_tree :: "world_data \<Rightarrow> (byte list \<times> nbt_tag) list" where
  "size_tree wd = [(nm ''Width'', Nbt_int (word_of_int (wd_width wd))), (nm ''Depth'', Nbt_int (word_of_int (wd_depth wd)))]"

definition world_tree :: "world_data \<Rightarrow> u32 \<Rightarrow> u32 \<Rightarrow> u32 \<Rightarrow> (byte list \<times> nbt_tag) list" where
  "world_tree wd x y z = [(nm ''Data'', Nbt_compound (data_tree wd x y z @ [(nm ''hCraft'', Nbt_compound (size_tree wd))]))]"

lemma write_members_append: "nbt_write_members (m @ m') = (\<lambda>w. Option.bind (nbt_write_members m w) (nbt_write_members m'))"
proof (induction m)
  case (Cons p m)
  obtain n t where "p = (n, t)" by (cases p)
  then show ?case by (intro ext) (simp add: Cons.IH)
qed (simp add: fun_eq_iff)

lemma data_tree_written: "Option.bind (nbt_write_members (data_tree wd x y z) w) f = do {
     w \<leftarrow> nbt_put_int 19133 (Some (nm ''version'')) w;
     w \<leftarrow> nbt_put_byte 1 (Some (nm ''initialized'')) w;
     w \<leftarrow> nbt_put_string (nm (wd_name wd)) (Some (nm ''LevelName'')) w;
     w \<leftarrow> nbt_put_string (nm (wd_gen_name wd)) (Some (nm ''generatorName'')) w;
     w \<leftarrow> nbt_put_int 0 (Some (nm ''generatorVersion'')) w;
     w \<leftarrow> nbt_put_long (wd_seed wd) (Some (nm ''RandomSeed'')) w;
     w \<leftarrow> nbt_put_byte 0 (Some (nm ''MapFeatures'')) w;
     w \<leftarrow> nbt_put_int x (Some (nm ''SpawnX'')) w;
     w \<leftarrow> nbt_put_int y (Some (nm ''SpawnY'')) w;
     w \<leftarrow> nbt_put_int z (Some (nm ''SpawnZ'')) w;
     f w }"
  by (simp add: data_tree_def)

lemma size_tree_written: "Option.bind (nbt_write_members (size_tree wd) w) f = do {
     w \<leftarrow> nbt_put_int (word_of_int (wd_width wd)) (Some (nm ''Width'')) w;
     w \<leftarrow> nbt_put_int (word_of_int (wd_depth wd)) (Some (nm ''Depth'')) w;
     f w }"
  by (simp add: size_tree_def)

lemma save_world_data_tree:
  assumes "double_trunc 0 (ep_x (wd_spawn_pos wd)) = Some x" "double_trunc 0 (ep_y (wd_spawn_pos wd)) = Some y"
    "double_trunc 0 (ep_z (wd_spawn_pos wd)) = Some z"
  shows "save_world_data compress wd av = do {
     w \<leftarrow> nbt_write_tag (Nbt_compound (world_tree wd x y z)) (Some []) nbt_writer_new;
     bytes \<leftarrow> nbt_write compress NBT_GZIP w;
     Some (av\<lparr>av_level := Some bytes\<rparr>) }"
proof -
  let ?fin = "\<lambda>w. do {
     w \<leftarrow> nbt_end_compound w;
     w \<leftarrow> nbt_end_compound w;
     w \<leftarrow> nbt_end_compound w;
     bytes \<leftarrow> nbt_write compress NBT_GZIP w;
     Some (av\<lparr>av_level := Some bytes\<rparr>) }"
  have "save_world_data compress wd av = do {
     w \<leftarrow> nbt_start_compound (Some []) nbt_writer_new;
     w \<leftarrow> nbt_start_compound (Some (nm ''Data'')) w;
     w \<leftarrow> nbt_write_members (data_tree wd x y z) w;
     w \<leftarrow> nbt_start_compound (Some (nm ''hCraft'')) w;
     w \<leftarrow> nbt_write_members (size_tree wd) w;
     ?fin w }"
    by (simp only: save_world_data_def assms Option.bind.bind_lunit data_tree_written size_tree_written)
  also have "\<dots> = do {
     w \<leftarrow> nbt_write_tag (Nbt_compound (world_tree wd x y z)) (Some []) nbt_writer_new;
     bytes \<leftarrow> nbt_write compress NBT_GZIP w;
     Some (av\<lparr>av_level := Some bytes\<rparr>) }"
    by (simp only: world_tree_def nbt_write_tag.simps nbt_write_members.simps write_members_append Option.bind_assoc
        Option.bind_runit Option.bind.bind_lunit)
  finally show ?thesis .
qed

lemma text_back: "map (char_of \<circ> unat) (nm s) = s"
proof -
  have "char_of (unat (of_char c :: byte)) = c" for c
  proof -
    have "unat (of_nat (of_char c) :: byte) = of_char c" using of_char_less [of c] by (simp add: unat_of_nat)
    then have "char_of (unat (of_nat (of_char c) :: byte)) = c" by simp
    then show ?thesis by (simp only: of_nat_of_char)
  qed
  then show ?thesis by (simp add: nm_def o_def)
qed

definition int_range :: "int \<Rightarrow> bool" where
  "int_range i \<longleftrightarrow> - (2 ^ 31) \<le> i \<and> i < 2 ^ 31"

lemma load_world_tree:
  assumes "int_range (wd_width wd)" "int_range (wd_depth wd)"
  shows "load_world_data_from_nbt (world_tree wd x y z)
    = Some (wd\<lparr>wd_spawn_pos := entity_pos_of_block (block_pos_make x y z)\<rparr>)"
proof -
  have i: "sint (word_of_int i :: u32) = i" if "int_range i" for i
    using that by (simp add: int_range_def signed_of_int signed_take_bit_int_eq_self)
  let ?d = "data_tree wd x y z @ [(nm ''hCraft'', Nbt_compound (size_tree wd))]"
  have r: "nbt_member ''Data'' as_compound (world_tree wd x y z) = Some ?d"
    by (simp add: nbt_member_def nbt_get_def world_tree_def)
  have d: "nbt_member ''LevelName'' as_string ?d = Some (nm (wd_name wd))"
    "nbt_member ''generatorName'' as_string ?d = Some (nm (wd_gen_name wd))" "nbt_member ''RandomSeed'' as_long ?d = Some (wd_seed wd)"
    "nbt_member ''SpawnX'' as_int ?d = Some x" "nbt_member ''SpawnY'' as_int ?d = Some y" "nbt_member ''SpawnZ'' as_int ?d = Some z"
    "nbt_get (nm ''hCraft'') ?d = Some (Nbt_compound (size_tree wd))"
    by (simp_all add: nbt_member_def nbt_get_def data_tree_def nm_inj)
  have s: "nbt_member ''Width'' as_int (size_tree wd) = Some (word_of_int (wd_width wd))"
    "nbt_member ''Depth'' as_int (size_tree wd) = Some (word_of_int (wd_depth wd))"
    by (simp_all add: nbt_member_def nbt_get_def size_tree_def nm_inj)
  show ?thesis
    unfolding load_world_data_from_nbt_def r d s text_back Option.bind.bind_lunit option.case as_compound.simps prod.case i [OF assms(1)] i [OF assms(2)]
    by simp
qed

definition text_ok :: "string \<Rightarrow> bool" where
  "text_ok s \<longleftrightarrow> 0 \<notin> set (nm s) \<and> length s < 2 ^ 16"

lemma world_tree_ok:
  assumes "text_ok (wd_name wd)" "text_ok (wd_gen_name wd)"
  shows "nbt_ok (Nbt_compound (world_tree wd x y z))"
    "length (tag_start [] (Nbt_compound (world_tree wd x y z)) @ nbt_enc (Nbt_compound (world_tree wd x y z))) + 4 \<le> bb_limit"
proof -
  have l: "length (nm s) = length s" for s by (simp add: nm_def)
  show "nbt_ok (Nbt_compound (world_tree wd x y z))"
    using assms name_nm by (simp add: world_tree_def data_tree_def size_tree_def nm_inj text_ok_def l)
  show "length (tag_start [] (Nbt_compound (world_tree wd x y z)) @ nbt_enc (Nbt_compound (world_tree wd x y z))) + 4 \<le> bb_limit"
    using assms by (simp add: world_tree_def data_tree_def size_tree_def tag_start_def bb_limit_def text_ok_def l)
qed

text \<open>
  C40: the world data written to \<open>level.dat\<close> are read back as they were, the spawn position
  truncated to its block.
\<close>

theorem world_data_roundtrip:
  assumes spawn: "block_pos_of_entity (wd_spawn_pos wd) = Some bp"
    and ok: "text_ok (wd_name wd)" "text_ok (wd_gen_name wd)" "int_range (wd_width wd)" "int_range (wd_depth wd)"
    and zlib: "\<And>n bs z. compress n bs = Some z \<Longrightarrow> inflate z = Some bs"
    and saved: "save_world_data compress wd av = Some av'"
  shows "load_world_data inflate av' = Some (Data_loaded (wd\<lparr>wd_spawn_pos := entity_pos_of_block bp\<rparr>)) \<and> av_regions av' = av_regions av"
proof -
  obtain x y z where p: "double_trunc 0 (ep_x (wd_spawn_pos wd)) = Some x" "double_trunc 0 (ep_y (wd_spawn_pos wd)) = Some y"
    "double_trunc 0 (ep_z (wd_spawn_pos wd)) = Some z" "bp = block_pos_make x y z"
    using spawn by (auto simp: block_pos_of_entity_def block_pos_make_def split: option.splits)
  obtain w where w: "nbt_write_tag (Nbt_compound (world_tree wd x y z)) (Some []) nbt_writer_new = Some w"
    "nbt_read_raw (bb_contents (nw_buf w)) = Done ([], world_tree wd x y z) []"
    using nbt_written_read [OF world_tree_ok(1) [OF ok(1,2)] _ world_tree_ok(2) [OF ok(1,2)], of x y z] by (auto simp: name_ok_def simp del: nbt_write_tag.simps)
  obtain bytes where bytes: "compress 31 (bb_contents (nw_buf w)) = Some bytes" "av' = av\<lparr>av_level := Some bytes\<rparr>"
    using saved by (auto simp: save_world_data_tree [OF p(1-3)] w(1) nbt_write_def Option.bind_eq_Some_conv simp del: nbt_write_tag.simps)
  then show ?thesis
    using zlib [OF bytes(1)] load_world_tree [OF ok(3,4)] by (simp add: load_world_data_def nbt_read_def w(2) p(4))
qed

text \<open>The size of a chunk before compression, for the witness.\<close>

lemma chunk_data_stored:
  assumes "chunk_ok ch"
  obtains data where "chunk_file_data (\<lambda>n. Some) ch = Some data" "length data + 5 \<le> 255 * 4096"
proof -
  obtain w where w: "chunk_nbt ch = Some w" "bb_contents (nw_buf w) = tag_start [] (Nbt_compound (chunk_tree ch)) @ nbt_enc (Nbt_compound (chunk_tree ch))"
    using nbt_written_read [OF chunk_tree_ok(1) [OF assms] _ chunk_tree_ok(2) [OF assms]] chunk_nbt_tree
    by (auto simp: name_ok_def simp del: nbt_write_tag.simps nbt_enc.simps)
  have "length (concat (map nbt_enc (section_trees [0..<16] ch))) \<le> 16 * 12360"
    using section_trees_enc_length [OF assms, of "[0..<16]"] by (simp del: section_trees.simps upt.simps upt_Suc)
  then have "length (bb_contents (nw_buf w)) + 5 \<le> 255 * 4096"
    using assms by (simp add: w(2) chunk_tree_def level_tree_def tag_start_def chunk_ok_def nm_def o_def
      del: section_trees.simps upt.simps upt_Suc upt_rec_numeral length_concat map_map)
  with w(1) that show thesis by (simp add: chunk_file_data_def nbt_write_def)
qed

definition one_block :: chunk where
  "one_block = the (chunk_set_id 5 100 5 1 (chunk_init 3 (-7)))"

lemma one_block_wf: "chunk_wf one_block"
  using chunk_set_id_cells [OF chunk_init_wf, of 5 100 5 1 3 "-7"] cells_after_wf by (auto simp: one_block_def in_chunk_def)

theorem anvil_chunk_roundtrip_witness:
  "\<exists>av'. anvil_save_chunk (\<lambda>n. Some) one_block \<lparr>av_regions = (\<lambda>r. None), av_level = None\<rparr> = Some av' \<and>
    anvil_load_chunk Some av' (cp_x (ch_pos one_block)) (cp_z (ch_pos one_block)) = Some (Chunk_loaded (reloaded one_block)) \<and>
    (\<forall>x z. (x, z) \<noteq> (cp_x (ch_pos one_block), cp_z (ch_pos one_block)) \<longrightarrow>
      anvil_load_chunk Some av' x z = anvil_load_chunk Some \<lparr>av_regions = (\<lambda>r. None), av_level = None\<rparr> x z)"
proof -
  have "chunk_ok one_block" using one_block_wf by (simp add: chunk_wf_def)
  then obtain data where "chunk_file_data (\<lambda>n. Some) one_block = Some data" "length data + 5 \<le> 255 * 4096" by (rule chunk_data_stored)
  then show ?thesis by (rule anvil_chunk_roundtrip [OF one_block_wf]) (simp_all add: region_file_ok_def)
qed

definition main_data :: world_data where
  "main_data = \<lparr>wd_name = ''main'', wd_seed = 7, wd_gen_name = ''flatgrass'',
     wd_spawn_pos = entity_pos_make 0x3FF8000000000000 0x4050000000000000 0 0 0 False, wd_width = -1, wd_depth = 512\<rparr>"

lemma main_data_ok: "block_pos_of_entity (wd_spawn_pos main_data) = Some (block_pos_make 1 64 0)"
  "text_ok (wd_name main_data)" "text_ok (wd_gen_name main_data)" "int_range (wd_width main_data)" "int_range (wd_depth main_data)"
proof -
  show "block_pos_of_entity (wd_spawn_pos main_data) = Some (block_pos_make 1 64 0)"
    by (simp add: main_data_def block_pos_of_entity_def entity_pos_make_def block_pos_make_def double_trunc_def drop_bit_eq_div bit_iff_odd Let_def)
  show "text_ok (wd_name main_data)" "text_ok (wd_gen_name main_data)" by (simp_all add: main_data_def text_ok_def nm_def)
  show "int_range (wd_width main_data)" "int_range (wd_depth main_data)" by (simp_all add: main_data_def int_range_def)
qed

lemma world_data_stored:
  assumes "block_pos_of_entity (wd_spawn_pos wd) = Some bp" "text_ok (wd_name wd)" "text_ok (wd_gen_name wd)"
  obtains av' where "save_world_data (\<lambda>n. Some) wd av = Some av'"
proof -
  obtain x y z where p: "double_trunc 0 (ep_x (wd_spawn_pos wd)) = Some x" "double_trunc 0 (ep_y (wd_spawn_pos wd)) = Some y"
    "double_trunc 0 (ep_z (wd_spawn_pos wd)) = Some z"
    using assms(1) by (auto simp: block_pos_of_entity_def split: option.splits)
  obtain w where w: "nbt_write_tag (Nbt_compound (world_tree wd x y z)) (Some []) nbt_writer_new = Some w"
    using nbt_written_read [OF world_tree_ok(1) [OF assms(2,3)] _ world_tree_ok(2) [OF assms(2,3)], of x y z]
    by (auto simp: name_ok_def simp del: nbt_write_tag.simps)
  with that show thesis by (simp add: save_world_data_tree [OF p] nbt_write_def del: nbt_write_tag.simps)
qed

theorem world_data_roundtrip_witness:
  "\<exists>av'. save_world_data (\<lambda>n. Some) main_data \<lparr>av_regions = (\<lambda>r. None), av_level = None\<rparr> = Some av' \<and>
    load_world_data Some av' = Some (Data_loaded (main_data\<lparr>wd_spawn_pos := entity_pos_of_block (block_pos_make 1 64 0)\<rparr>))"
proof -
  obtain av' where av': "save_world_data (\<lambda>n. Some) main_data \<lparr>av_regions = (\<lambda>r. None), av_level = None\<rparr> = Some av'"
    using world_data_stored [OF main_data_ok(1-3)] by blast
  then show ?thesis using world_data_roundtrip [OF main_data_ok, of "\<lambda>n. Some" Some] by auto
qed

text \<open>
  The block that makes a sub-chunk while loading raises the corner column: a chunk whose only
  block is elsewhere comes back with a height of 97 there.
\<close>

lemma corner_column_raised:
  "get_height 0 0 one_block = Some 0 \<and> get_height 0 0 (reloaded one_block) = Some 97"
proof -
  have d: "drop_bit 4 100 = (6 :: nat)" by code_simp
  have i: "ch_index 5 100 5 < 4096" "col_index 5 5 = 85" "col_index 0 0 = 0" by (simp_all add: ch_index_eq col_index_eq)
  obtain s where b: "one_block = (chunk_init 3 (-7))\<lparr>ch_subs := (replicate 16 None)[6 := Some s],
      ch_hmap := (replicate 256 0)[85 := 101]\<rparr>"
    using i(1) by (simp add: one_block_def chunk_set_id_def sub_at_def d Let_def put_sub_def update_height_def i(2) blocks_height_1 chunk_init_def)
  have c: "corner_height [0..<16] one_block 0 = 97" by (simp add: b numeral_nat)
  show ?thesis by (simp add: get_height_def i(3) reloaded_def) (simp add: b c [unfolded b])
qed

end
