(* ===== verification/Config.thy ===== *)
theory Config
  imports Json Position
begin

text \<open>
  The server's configuration (\<open>src/system/server.config.cpp\<close>): the defaults, the file that is
  written when there is none, and reading it back. Numbers go through the conversion \<open>parse\<close> of the
  JSON reader; a missing object is a null pointer, \<open>None\<close>, before the check for it is reached.
\<close>

record configuration =
  cfg_motd :: "byte list"
  cfg_max_players :: u32
  cfg_online :: bool
  cfg_port :: u32
  cfg_encryption :: bool
  cfg_compress_threshold :: u32
  cfg_compress_level :: u32
  cfg_mainw :: "byte list"
  cfg_view_dist :: u32

definition str_bytes :: "string \<Rightarrow> byte list" where
  "str_bytes s = map of_char s"

definition default_config :: configuration where
  "default_config = \<lparr>cfg_motd = str_bytes ''A new hCraft server has been born!'', cfg_max_players = 12, cfg_online = True,
     cfg_port = 25565, cfg_encryption = True, cfg_compress_threshold = 256, cfg_compress_level = 6,
     cfg_mainw = str_bytes ''Main'', cfg_view_dist = 3\<rparr>"

text \<open>The file that is written when there is none; its quotes stand here as bars.\<close>

definition config_line :: "string \<Rightarrow> byte list" where
  "config_line s = map (\<lambda>c. if c = CHR ''|'' then 0x22 else of_char c) s @ [0x0A]"

definition config_default_file :: "byte list" where
  "config_default_file = concat (map config_line [
     ''{'',
     ''|general|: {'',
     ''  |motd|: |A new hCraft server has been born!|,'',
     ''  |max-players|: 12,'',
     ''  |online|: true,'',
     ''  },'',
     [],
     ''  |net|: {'',
     ''    |port|: 25565,'',
     ''    |encryption|: true,'',
     ''    |compression|: {'',
     ''      |threshold|: 256,'',
     ''      |level|: 6,'',
     ''    }'',
     ''  },'',
     [],
     ''  |worlds|: {'',
     ''    |main-world|: |Main|,'',
     ''    |view-distance|: 3,'',
     ''  }'',
     ''}''])"

subsection \<open>Loading\<close>

datatype start_error = Object_not_found string | Parse_error | Online_needs_encryption

type_synonym json_object = "(byte list \<times> json) list"

text \<open>An entry that is missing keeps its default; \<open>None\<close> is a number outside the range of \<open>int\<close>.\<close>

definition cfg_entry :: "string \<Rightarrow> (json \<Rightarrow> 'v option) \<Rightarrow> ('v \<Rightarrow> configuration \<Rightarrow> configuration) \<Rightarrow> json_object \<Rightarrow> configuration \<Rightarrow> configuration option" where
  "cfg_entry name conv upd obj cfg = (case json_get (str_bytes name) obj of
     None \<Rightarrow> Some cfg | Some v \<Rightarrow> map_option (\<lambda>x. upd x cfg) (conv v))"

definition cfg_int :: "json \<Rightarrow> u32 option" where
  "cfg_int v = double_trunc 0 (json_as_number v)"

text \<open>
  A member that has to be an object: \<open>None\<close> when it is missing, since the null pointer is
  dereferenced for the conversion; an error when it is something else.
\<close>

definition cfg_object :: "string \<Rightarrow> json_object \<Rightarrow> (start_error + json_object) option" where
  "cfg_object name obj = (case json_get (str_bytes name) obj of
     None \<Rightarrow> None
   | Some v \<Rightarrow> Some (case json_as_object v of None \<Rightarrow> Inl (Object_not_found name) | Some o' \<Rightarrow> Inr o'))"

definition cfg_load_general :: "json_object \<Rightarrow> configuration \<Rightarrow> configuration option" where
  "cfg_load_general obj cfg = do {
     cfg \<leftarrow> cfg_entry ''motd'' (\<lambda>v. Some (json_as_string v)) (\<lambda>x cfg. cfg\<lparr>cfg_motd := x\<rparr>) obj cfg;
     cfg \<leftarrow> cfg_entry ''max-players'' cfg_int (\<lambda>x cfg. cfg\<lparr>cfg_max_players := x\<rparr>) obj cfg;
     cfg_entry ''online'' (\<lambda>v. Some (json_as_bool v)) (\<lambda>x cfg. cfg\<lparr>cfg_online := x\<rparr>) obj cfg }"

definition cfg_load_net_compression :: "json_object \<Rightarrow> configuration \<Rightarrow> configuration option" where
  "cfg_load_net_compression obj cfg = do {
     cfg \<leftarrow> cfg_entry ''threshold'' cfg_int (\<lambda>x cfg. cfg\<lparr>cfg_compress_threshold := x\<rparr>) obj cfg;
     cfg_entry ''level'' cfg_int (\<lambda>x cfg. cfg\<lparr>cfg_compress_level := x\<rparr>) obj cfg }"

definition cfg_load_net :: "json_object \<Rightarrow> configuration \<Rightarrow> (start_error + configuration) option" where
  "cfg_load_net obj cfg = do {
     cfg \<leftarrow> cfg_entry ''port'' cfg_int (\<lambda>x cfg. cfg\<lparr>cfg_port := x\<rparr>) obj cfg;
     cfg \<leftarrow> cfg_entry ''encryption'' (\<lambda>v. Some (json_as_bool v)) (\<lambda>x cfg. cfg\<lparr>cfg_encryption := x\<rparr>) obj cfg;
     comp \<leftarrow> cfg_object ''compression'' obj;
     case comp of Inl e \<Rightarrow> Some (Inl e) | Inr c \<Rightarrow> map_option Inr (cfg_load_net_compression c cfg) }"

definition cfg_load_worlds :: "json_object \<Rightarrow> configuration \<Rightarrow> configuration option" where
  "cfg_load_worlds obj cfg = do {
     cfg \<leftarrow> cfg_entry ''main-world'' (\<lambda>v. Some (json_as_string v)) (\<lambda>x cfg. cfg\<lparr>cfg_mainw := x\<rparr>) obj cfg;
     cfg_entry ''view-distance'' cfg_int (\<lambda>x cfg. cfg\<lparr>cfg_view_dist := x\<rparr>) obj cfg }"

definition cfg_load :: "json_object \<Rightarrow> configuration \<Rightarrow> (start_error + configuration) option" where
  "cfg_load root cfg = do {
     gen \<leftarrow> cfg_object ''general'' root;
     case gen of Inl e \<Rightarrow> Some (Inl e) | Inr general \<Rightarrow> do {
       cfg \<leftarrow> cfg_load_general general cfg;
       n \<leftarrow> cfg_object ''net'' root;
       case n of Inl e \<Rightarrow> Some (Inl e) | Inr net \<Rightarrow> do {
         r \<leftarrow> cfg_load_net net cfg;
         case r of Inl e \<Rightarrow> Some (Inl e) | Inr cfg' \<Rightarrow> do {
           ws \<leftarrow> cfg_object ''worlds'' root;
           case ws of Inl e \<Rightarrow> Some (Inl e) | Inr worlds \<Rightarrow>
             map_option Inr (cfg_load_worlds worlds cfg') } } } }"

text \<open>\<open>init_config\<close> on the file, if there is one: the outcome, and the file as it is left.\<close>

definition init_config ::
  "(byte list \<Rightarrow> u64) \<Rightarrow> byte list option \<Rightarrow> ((start_error + configuration) \<times> byte list) option" where
  "init_config parse file' = (case file' of
     None \<Rightarrow> Some (Inr default_config, config_default_file)
   | Some f \<Rightarrow> do {
       r \<leftarrow> json_reader_read parse f;
       case r of Inl e \<Rightarrow> Some (Inl Parse_error, f)
       | Inr (root, s) \<Rightarrow> do {
           r \<leftarrow> cfg_load root default_config;
           case r of Inl e \<Rightarrow> Some (Inl e, f)
           | Inr cfg \<Rightarrow> Some (if cfg_online cfg \<and> \<not> cfg_encryption cfg then (Inl Online_needs_encryption, f)
               else (Inr cfg, f)) } })"

subsection \<open>The default file\<close>

definition default_root :: "(byte list \<Rightarrow> u64) \<Rightarrow> json_object" where
  "default_root parse = [
     (str_bytes ''general'', J_Object [(str_bytes ''motd'', J_String (str_bytes ''A new hCraft server has been born!'')),
        (str_bytes ''max-players'', J_Number (parse (str_bytes ''12''))), (str_bytes ''online'', J_Bool True)]),
     (str_bytes ''net'', J_Object [(str_bytes ''port'', J_Number (parse (str_bytes ''25565''))),
        (str_bytes ''encryption'', J_Bool True),
        (str_bytes ''compression'', J_Object [(str_bytes ''threshold'', J_Number (parse (str_bytes ''256''))),
           (str_bytes ''level'', J_Number (parse (str_bytes ''6'')))])]),
     (str_bytes ''worlds'', J_Object [(str_bytes ''main-world'', J_String (str_bytes ''Main'')),
        (str_bytes ''view-distance'', J_Number (parse (str_bytes ''3'')))])]"

definition parsed :: "'a json_result option \<Rightarrow> 'a option" where
  "parsed r = (case r of Some (Inr (x, s)) \<Rightarrow> Some x | _ \<Rightarrow> None)"

lemma default_file_parsed: "parsed (json_reader_read parse config_default_file) = Some (default_root parse)"
  by code_simp

lemma default_file_read: "\<exists>s. json_reader_read parse config_default_file = Some (Inr (default_root parse, s))"
  using default_file_parsed [of parse] by (auto simp: parsed_def split: option.splits sum.splits)

definition numbers_read :: "(byte list \<Rightarrow> u64) \<Rightarrow> bool" where
  "numbers_read parse \<longleftrightarrow> (\<forall>(s, n) \<in> {(''12'', 12), (''25565'', 25565), (''256'', 256), (''6'', 6), (''3'', 3)}.
     double_trunc 0 (parse (str_bytes s)) = Some n)"

lemma default_root_loaded: "numbers_read parse \<Longrightarrow> cfg_load (default_root parse) default_config = Some (Inr default_config)"
proof -
  assume n: "numbers_read parse"
  have ne: "str_bytes s = str_bytes t \<longleftrightarrow> s = t" for s t
  proof -
    have "inj (of_char :: char \<Rightarrow> byte)"
    proof (rule injI)
      fix c d :: char assume "(of_char c :: byte) = of_char d"
      then have "unat (of_nat (of_char c) :: byte) = unat (of_nat (of_char d) :: byte)" by (simp only: of_nat_of_char)
      then show "c = d" using nat_of_char_less_256 [of c] nat_of_char_less_256 [of d] by (simp add: unat_of_nat)
    qed
    then show ?thesis by (simp add: str_bytes_def inj_map_eq_map)
  qed
  have g: "cfg_load_general [(str_bytes ''motd'', J_String (str_bytes ''A new hCraft server has been born!'')),
        (str_bytes ''max-players'', J_Number (parse (str_bytes ''12''))), (str_bytes ''online'', J_Bool True)] default_config = Some default_config"
    using n by (simp add: cfg_load_general_def cfg_entry_def json_get_def ne cfg_int_def numbers_read_def) (simp add: default_config_def)
  have c: "cfg_load_net_compression [(str_bytes ''threshold'', J_Number (parse (str_bytes ''256''))),
           (str_bytes ''level'', J_Number (parse (str_bytes ''6'')))] default_config = Some default_config"
    using n by (simp add: cfg_load_net_compression_def cfg_entry_def json_get_def ne cfg_int_def numbers_read_def) (simp add: default_config_def)
  have p: "default_config\<lparr>cfg_port := 25565, cfg_encryption := True\<rparr> = default_config" by (simp add: default_config_def)
  have w: "cfg_load_worlds [(str_bytes ''main-world'', J_String (str_bytes ''Main'')),
        (str_bytes ''view-distance'', J_Number (parse (str_bytes ''3'')))] default_config = Some default_config"
    using n by (simp add: cfg_load_worlds_def cfg_entry_def json_get_def ne cfg_int_def numbers_read_def) (simp add: default_config_def)
  show ?thesis
    using n by (simp add: cfg_load_def cfg_object_def default_root_def json_get_def ne g w cfg_load_net_def cfg_entry_def
        cfg_int_def numbers_read_def p c)
qed



text \<open>What a start refuses and what it does not survive.\<close>

lemma config_online_encrypted:
  "init_config parse (Some f) = Some (Inr cfg, f') \<Longrightarrow> cfg_online cfg \<Longrightarrow> cfg_encryption cfg"
  by (auto simp: init_config_def split: Option.bind_splits sum.splits if_splits prod.splits)

lemma config_without_general_crashes: "init_config parse (Some [0x7B, 0x7D]) = None"
  by code_simp

end
