(* ===== verification/Game.thy ===== *)
theory Game
  imports World Inventory Uuid Metadata Builder Config
begin

text \<open>
  Players and what they share: connections as the game sees them (\<open>src/network/connection.cpp\<close>),
  entities (\<open>src/entity/entity.cpp\<close>, \<open>src/entity/player.cpp\<close>), the asynchronous chunk generators
  (\<open>src/world/async_generator.cpp\<close>) and the players (\<open>src/player/player.cpp\<close>). Connections, players
  and worlds are known by their addresses; an entity has the address of its player. \<open>None\<close> is a use
  of a null, dangling or uninitialised pointer, an undefined conversion, or an access outside an
  array. Every operation is one atomic step; the jobs of the generators wait in a queue.
\<close>

subsection \<open>State\<close>

text \<open>A packet on its way to the client is the call of the packet builder that makes it.\<close>

datatype client_msg =
    Status_response "byte list" | Status_ping u64
  | Encryption_request "byte list" "byte list" "byte list" | Login_disconnect "byte list"
  | Login_success "byte list" "byte list" | Set_compression u32 | Join_game u32 byte byte byte byte "byte list" bool
  | Keep_alive u32 | Disconnect_msg "byte list" | Chat "byte list"
  | Player_list_add uuid "byte list" game_mode u32 | Player_list_remove uuid "byte list"
  | Spawn_player u32 uuid u64 u64 u64 u32 u32 u16 entity_metadata
  | Spawn_position u32 u32 u32 | Position_and_look u64 u64 u64 u32 u32 byte
  | Chunk_data u32 u32 bool u16 chunk | Unload_chunk u32 u32

fun msg_packet :: "(u32 \<Rightarrow> byte) \<Rightarrow> client_msg \<Rightarrow> packet option" where
  "msg_packet ang (Status_response s) = make_status_response s"
| "msg_packet ang (Status_ping t) = make_status_ping t"
| "msg_packet ang (Encryption_request sid key tok) = make_encryption_request sid key tok"
| "msg_packet ang (Login_disconnect s) = make_login_disconnect s"
| "msg_packet ang (Login_success u n) = make_login_success u n"
| "msg_packet ang (Set_compression t) = make_set_compression t"
| "msg_packet ang (Join_game e g d f m l r) = make_join_game e g d f m l r"
| "msg_packet ang (Keep_alive i) = make_keep_alive i"
| "msg_packet ang (Disconnect_msg s) = make_disconnect s"
| "msg_packet ang (Chat s) = make_chat_text s"
| "msg_packet ang (Player_list_add u n g p) = make_player_list_add u n g p"
| "msg_packet ang (Player_list_remove u n) = make_player_list_remove u n"
| "msg_packet ang (Spawn_player e u x y z yw pt i m) = make_spawn_player ang e u x y z yw pt i m"
| "msg_packet ang (Spawn_position x y z) = make_spawn_position x y z"
| "msg_packet ang (Position_and_look x y z yw pt f) = make_player_position_and_look x y z yw pt f"
| "msg_packet ang (Chunk_data x z c m ch) = make_chunk_data x z c m ch"
| "msg_packet ang (Unload_chunk x z) = make_unload_chunk x z"

datatype protocol_state = PS_HANDSHAKE | PS_STATUS | PS_LOGIN | PS_PLAY

text \<open>
  A connection with the state of its packet handler: \<open>cv_out\<close> is what has been sent,
  \<open>cv_inferred\<close> says whether the client's protocol is known, and the token is \<open>None\<close> while it has
  not been drawn.
\<close>

record conn_view =
  cv_disconnected :: bool
  cv_disconnect_req :: bool
  cv_can_send :: bool
  cv_out :: "client_msg list"
  cv_player :: "nat option"
  cv_inferred :: bool
  cv_zlib :: bool
  cv_aes :: "byte list option"
  hs_state :: protocol_state
  hs_pl :: "nat option"
  hs_name :: "byte list"
  hs_vtoken :: "byte list option"

text \<open>\<open>None\<close> is a pointer that the constructor leaves uninitialised, \<open>Some None\<close> null.\<close>

record entity =
  en_eid :: u32
  en_pos :: entity_pos
  en_w :: "nat option option"
  en_ch :: "(nat \<times> nat) option option"

record player =
  pl_conn :: nat
  pl_uuid :: uuid
  pl_name :: "byte list"
  pl_gm :: game_mode
  pl_ent :: entity
  pl_ka_expecting :: bool
  pl_ka_id :: u32
  pl_w :: "nat option"
  pl_vis :: "chunk_pos list"
  pl_pos :: entity_pos
  pl_spawned :: bool
  pl_spawn_pos :: entity_pos
  pl_last_cp :: chunk_pos
  pl_gen_tok :: int
  pl_openw :: "window option"
  pl_inv :: window
  pl_cur_slot :: nat

text \<open>The tokens of a generator that are valid; and a deferred request.\<close>

record async_gen =
  ag_next_tok :: int
  ag_toks :: "int list"

record gen_job =
  gj_world :: nat
  gj_token :: int
  gj_x :: u32
  gj_z :: u32
  gj_pl :: nat

text \<open>
  The server: \<open>gm_conn_list\<close>, \<open>gm_gray\<close> and \<open>gm_online\<close> are its lists of connections, of
  connections to be destroyed and of players. \<open>gm_auths\<close> and \<open>gm_uuid_jobs\<close> are the requests to the
  authenticator and to the UUID service that have not been answered, with the callback's handler.
\<close>

record 'p game =
  gm_cfg :: configuration
  gm_conns :: "nat \<Rightarrow> conn_view option"
  gm_players :: "nat \<Rightarrow> player option"
  gm_worlds :: "nat \<Rightarrow> 'p world option"
  gm_gens :: "nat \<Rightarrow> async_gen"
  gm_jobs :: "gen_job list"
  gm_conn_list :: "nat list"
  gm_gray :: "nat list"
  gm_online :: "nat list"
  gm_auths :: "(nat \<times> byte list \<times> byte list) list"
  gm_uuid_jobs :: "(nat \<times> byte list) list"
  gm_uuid_cache :: "(byte list \<times> uuid) list"
  gm_uman_online :: bool
  gm_main_world :: nat
  gm_next_pl :: nat
  gm_next_conn :: nat
  gm_next_eid :: u32

definition view_dist :: "'p game \<Rightarrow> int" where
  "view_dist g = sint (cfg_view_dist (gm_cfg g))"

definition upd_conn :: "nat \<Rightarrow> (conn_view \<Rightarrow> conn_view) \<Rightarrow> 'p game \<Rightarrow> 'p game option" where
  "upd_conn a f g = map_option (\<lambda>c. g\<lparr>gm_conns := (gm_conns g)(a \<mapsto> f c)\<rparr>) (gm_conns g a)"

definition upd_player :: "nat \<Rightarrow> (player \<Rightarrow> player) \<Rightarrow> 'p game \<Rightarrow> 'p game option" where
  "upd_player a f g = map_option (\<lambda>p. g\<lparr>gm_players := (gm_players g)(a \<mapsto> f p)\<rparr>) (gm_players g a)"

definition upd_world :: "nat \<Rightarrow> ('p world \<Rightarrow> 'p world option) \<Rightarrow> 'p game \<Rightarrow> 'p game option" where
  "upd_world a f g = do {
     w \<leftarrow> gm_worlds g a;
     w \<leftarrow> f w;
     Some (g\<lparr>gm_worlds := (gm_worlds g)(a \<mapsto> w)\<rparr>) }"

subsection \<open>Connections\<close>

text \<open>\<open>connection::send\<close>; the flag is \<open>CONN_SEND_DISCONNECT\<close>.\<close>

definition conn_send :: "client_msg \<Rightarrow> bool \<Rightarrow> conn_view \<Rightarrow> conn_view" where
  "conn_send msg dis c = (if \<not> cv_can_send c \<or> cv_disconnected c \<or> cv_disconnect_req c then c
     else c\<lparr>cv_out := cv_out c @ [msg], cv_can_send := \<not> dis\<rparr>)"

definition connection_new :: conn_view where
  "connection_new = \<lparr>cv_disconnected = False, cv_disconnect_req = False, cv_can_send = True, cv_out = [],
     cv_player = None, cv_inferred = False, cv_zlib = False, cv_aes = None,
     hs_state = PS_HANDSHAKE, hs_pl = None, hs_name = [], hs_vtoken = None\<rparr>"

definition request_disconnect :: "conn_view \<Rightarrow> conn_view" where
  "request_disconnect c = c\<lparr>cv_disconnect_req := True\<rparr>"

definition send_to :: "nat \<Rightarrow> client_msg \<Rightarrow> bool \<Rightarrow> 'p game \<Rightarrow> 'p game option" where
  "send_to p msg dis g = do {
     pl \<leftarrow> gm_players g p;
     upd_conn (pl_conn pl) (conn_send msg dis) g }"

definition conn_of :: "nat \<Rightarrow> 'p game \<Rightarrow> conn_view option" where
  "conn_of p g = Option.bind (gm_players g p) (\<lambda>pl. gm_conns g (pl_conn pl))"

subsection \<open>Entities\<close>

definition entity_new :: "u32 \<Rightarrow> entity" where
  "entity_new eid = \<lparr>en_eid = eid, en_pos = entity_pos_zero, en_w = None, en_ch = None\<rparr>"

definition build_metadata :: entity_metadata where
  "build_metadata = meta_put_short 1 0 (meta_put_byte 0 0 [])"

definition entity_spawn :: "nat \<Rightarrow> nat \<Rightarrow> entity_pos \<Rightarrow> 'p game \<Rightarrow> 'p game option" where
  "entity_spawn p wa pos g = do {
     w \<leftarrow> gm_worlds g wa;
     cpos \<leftarrow> chunk_pos_of_entity pos;
     case get_chunk (cp_x cpos) (cp_z cpos) w of
       None \<Rightarrow> Some g
     | Some ch \<Rightarrow> do {
         g \<leftarrow> upd_player p (\<lambda>pl. pl\<lparr>pl_ent := (pl_ent pl)\<lparr>en_w := Some (Some wa), en_pos := pos, en_ch := Some (Some (wa, ch))\<rparr>\<rparr>) g;
         upd_world wa (upd_chunk ch (Some \<circ> register_entity p)) g } }"

definition entity_despawn :: "nat \<Rightarrow> 'p game \<Rightarrow> 'p game option" where
  "entity_despawn p g = do {
     pl \<leftarrow> gm_players g p;
     curr \<leftarrow> en_ch (pl_ent pl);
     case curr of
       None \<Rightarrow> Some g
     | Some (wa, ch) \<Rightarrow> do {
         g \<leftarrow> upd_world wa (upd_chunk ch (Some \<circ> deregister_entity p)) g;
         upd_player p (\<lambda>pl. pl\<lparr>pl_ent := (pl_ent pl)\<lparr>en_w := Some None, en_ch := Some None\<rparr>\<rparr>) g } }"

definition entity_move :: "nat \<Rightarrow> entity_pos \<Rightarrow> 'p game \<Rightarrow> 'p game option" where
  "entity_move p pos g = do {
     pl \<leftarrow> gm_players g p;
     ew \<leftarrow> en_w (pl_ent pl);
     case ew of
       None \<Rightarrow> Some g
     | Some wa \<Rightarrow> do {
         pcp \<leftarrow> chunk_pos_of_entity (en_pos (pl_ent pl));
         ncp \<leftarrow> chunk_pos_of_entity pos;
         g \<leftarrow> upd_player p (\<lambda>pl. pl\<lparr>pl_ent := (pl_ent pl)\<lparr>en_pos := pos\<rparr>\<rparr>) g;
         if chunk_pos_ne pcp ncp then do {
           w \<leftarrow> gm_worlds g wa;
           let curr = map_option (Pair wa) (get_chunk (cp_x ncp) (cp_z ncp) w);
           upd_player p (\<lambda>pl. pl\<lparr>pl_ent := (pl_ent pl)\<lparr>en_ch := Some curr\<rparr>\<rparr>) g }
         else Some g } }"

text \<open>\<open>player_entity::spawn_to\<close>: the entity of player \<open>p\<close> is shown to player \<open>q\<close>.\<close>

definition spawn_to :: "nat \<Rightarrow> nat \<Rightarrow> 'p game \<Rightarrow> 'p game option" where
  "spawn_to p q g = do {
     me \<leftarrow> gm_players g p;
     let pos = en_pos (pl_ent me);
     send_to q (Spawn_player (en_eid (pl_ent me)) (pl_uuid me) (ep_x pos) (ep_y pos) (ep_z pos)
       (ep_yaw pos) (ep_pitch pos) 0 build_metadata) False g }"

text \<open>The chunk positions in a square, in the order of the two loops.\<close>

definition chunk_square :: "chunk_pos \<Rightarrow> int \<Rightarrow> chunk_pos list" where
  "chunk_square cp r = [chunk_pos_make (word_of_int x) (word_of_int z).
     x \<leftarrow> [sint (cp_x cp) - r .. sint (cp_x cp) + r], z \<leftarrow> [sint (cp_z cp) - r .. sint (cp_z cp) + r]]"

definition exchange_list_entries :: "nat \<Rightarrow> nat \<Rightarrow> 'p game \<Rightarrow> 'p game option" where
  "exchange_list_entries p q g = do {
     me \<leftarrow> gm_players g p;
     g \<leftarrow> send_to q (Player_list_add (pl_uuid me) (pl_name me) (pl_gm me) 80) False g;
     pl \<leftarrow> gm_players g q;
     send_to p (Player_list_add (pl_uuid pl) (pl_name pl) (pl_gm pl) 80) False g }"

definition show_entities :: "nat \<Rightarrow> nat \<Rightarrow> chunk_pos \<Rightarrow> 'p game \<Rightarrow> 'p game option" where
  "show_entities p wa cp g = do {
     w \<leftarrow> gm_worlds g wa;
     case get_chunk (cp_x cp) (cp_z cp) w of
       None \<Rightarrow> Some g
     | Some ch \<Rightarrow> do {
         c \<leftarrow> w_heap w ch;
         put_all (\<lambda>q g. if q = p then Some g else Option.bind (spawn_to q p g) (spawn_to p q)) (ch_ents c) g } }"

definition player_entity_spawn :: "nat \<Rightarrow> nat \<Rightarrow> entity_pos \<Rightarrow> 'p game \<Rightarrow> 'p game option" where
  "player_entity_spawn p wa pos g = do {
     g \<leftarrow> entity_spawn p wa pos g;
     w \<leftarrow> gm_worlds g wa;
     g \<leftarrow> put_all (exchange_list_entries p) (w_pls w) g;
     me \<leftarrow> gm_players g p;
     cpos \<leftarrow> chunk_pos_of_entity (en_pos (pl_ent me));
     put_all (show_entities p wa) (chunk_square cpos (view_dist g)) g }"

definition player_entity_despawn :: "nat \<Rightarrow> 'p game \<Rightarrow> 'p game option" where
  "player_entity_despawn p g = do {
     me \<leftarrow> gm_players g p;
     ew \<leftarrow> en_w (pl_ent me);
     wa \<leftarrow> ew;
     w \<leftarrow> gm_worlds g wa;
     g \<leftarrow> put_all (\<lambda>q. send_to q (Player_list_remove (pl_uuid me) (pl_name me)) False) (w_pls w) g;
     entity_despawn p g }"

subsection \<open>The asynchronous generator\<close>

definition make_token :: "nat \<Rightarrow> 'p game \<Rightarrow> int \<times> 'p game" where
  "make_token wa g = (let ag = gm_gens g wa; t = ag_next_tok ag
     in (t, g\<lparr>gm_gens := (gm_gens g)(wa := \<lparr>ag_next_tok = t + 1, ag_toks = ag_toks ag @ [t]\<rparr>)\<rparr>))"

definition free_token :: "nat \<Rightarrow> int \<Rightarrow> 'p game \<Rightarrow> 'p game" where
  "free_token wa t g = (let ag = gm_gens g wa
     in g\<lparr>gm_gens := (gm_gens g)(wa := ag\<lparr>ag_toks := filter (\<lambda>u. u \<noteq> t) (ag_toks ag)\<rparr>)\<rparr>)"

text \<open>\<open>generate\<close> for a player: the chunk when it is loaded, otherwise a job is queued.\<close>

definition generate :: "nat \<Rightarrow> int \<Rightarrow> u32 \<Rightarrow> u32 \<Rightarrow> nat \<Rightarrow> 'p game \<Rightarrow> (nat option \<times> 'p game) option" where
  "generate wa t x z p g = (if t \<notin> set (ag_toks (gm_gens g wa)) then Some (None, g)
     else do {
       w \<leftarrow> gm_worlds g wa;
       case get_chunk x z w of
         Some ch \<Rightarrow> Some (Some ch, g)
       | None \<Rightarrow> Some (None, g\<lparr>gm_jobs := gm_jobs g @ [\<lparr>gj_world = wa, gj_token = t, gj_x = x, gj_z = z, gj_pl = p\<rparr>]\<rparr>) })"

end
