(* ===== verification/Reach.thy ===== *)
theory Reach
  imports Position Complex_Main
begin

text \<open>
  The distance test of \<open>player.cpp\<close>: double arithmetic on bit patterns. A finite double is the
  rational number it stands for, and a result is rounded to 53 significant bits, ties to even, with
  the spacing of the subnormal numbers as the least one. The test never gets near the largest
  double without failing, so overflow to infinity needs no case of its own; infinities and NaNs
  make the comparison false.
\<close>

definition two_to :: "int \<Rightarrow> rat" where
  "two_to e = (if 0 \<le> e then of_int (2 ^ nat e) else 1 / of_int (2 ^ nat (- e)))"

definition dbl_val :: "u64 \<Rightarrow> rat option" where
  "dbl_val d = (let e = uint (drop_bit 52 d AND 0x7FF); m = uint (d AND 0xFFFFFFFFFFFFF);
       v = (if e = 0 then of_int m * two_to (- 1074) else of_int (m + 2 ^ 52) * two_to (e - 1075))
     in if e = 0x7FF then None else Some (if bit d 63 then - v else v))"

text \<open>The exponent of a positive number: the greatest power of two not above it.\<close>

definition ilog2 :: "rat \<Rightarrow> int" where
  "ilog2 r = (case quotient_of r of (n, d) \<Rightarrow>
     let e = int (top_bit (nat n)) - int (top_bit (nat d)) in if two_to e \<le> r then e else e - 1)"

definition round_even :: "rat \<Rightarrow> int" where
  "round_even q = (let f = \<lfloor>q\<rfloor>; d = q - of_int f
     in if d < 1 / 2 then f else if d > 1 / 2 then f + 1 else if even f then f else f + 1)"

definition dbl_round :: "rat \<Rightarrow> rat" where
  "dbl_round r = (if r = 0 then 0 else let e = max (ilog2 \<bar>r\<bar>) (- 1022) - 52
     in of_int (round_even (r / two_to e)) * two_to e)"

definition dbl_sub :: "rat \<Rightarrow> rat \<Rightarrow> rat" where "dbl_sub a b = dbl_round (a - b)"
definition dbl_add :: "rat \<Rightarrow> rat \<Rightarrow> rat" where "dbl_add a b = dbl_round (a + b)"
definition dbl_mul :: "rat \<Rightarrow> rat \<Rightarrow> rat" where "dbl_mul a b = dbl_round (a * b)"

definition block_in_range :: "entity_pos \<Rightarrow> block_pos \<Rightarrow> bool" where
  "block_in_range ppos bpos = (case (dbl_val (ep_x ppos), dbl_val (ep_y ppos), dbl_val (ep_z ppos)) of
     (Some x, Some y, Some z) \<Rightarrow>
       let xd = dbl_sub x (of_int (sint (bp_x bpos)));
           yd = dbl_sub y (of_int (sint (bp_y bpos)));
           zd = dbl_sub z (of_int (sint (bp_z bpos)));
           max_d = (6 :: int)
       in dbl_add (dbl_add (dbl_mul xd xd) (dbl_mul yd yd)) (dbl_mul zd zd) \<le> of_int (max_d * max_d)
   | _ \<Rightarrow> False)"

subsection \<open>Rounding\<close>

lemma two_to_pos [simp]: "0 < two_to e"
  by (simp add: two_to_def)

lemma two_to_add: "two_to (a + b) = two_to a * two_to b"
proof -
  have p: "two_to e = 2 powi e" for e
    by (cases "0 \<le> e") (simp_all add: two_to_def power_int_def inverse_eq_divide power_one_over)
  show ?thesis by (simp add: p power_int_add)
qed

lemma round_even_near: "\<bar>q - of_int (round_even q)\<bar> \<le> 1 / 2"
proof -
  have "0 \<le> q - of_int \<lfloor>q\<rfloor>" "q - of_int \<lfloor>q\<rfloor> < 1" by linarith+
  then show ?thesis by (auto simp: round_even_def Let_def abs_le_iff)
qed

lemma round_even_mono: "p \<le> q \<Longrightarrow> round_even p \<le> round_even q"
proof -
  assume pq: "p \<le> q"
  then have f: "\<lfloor>p\<rfloor> \<le> \<lfloor>q\<rfloor>" by (rule floor_mono)
  show ?thesis
  proof (cases "\<lfloor>p\<rfloor> = \<lfloor>q\<rfloor>")
    case True
    then show ?thesis using pq by (auto simp: round_even_def Let_def)
  next
    case False
    then show ?thesis using f by (auto simp: round_even_def Let_def)
  qed
qed

lemma round_even_nonneg: "0 \<le> q \<Longrightarrow> 0 \<le> round_even q"
  using round_even_mono [of 0 q] by (simp add: round_even_def)

lemma dbl_round_nonneg: "0 \<le> r \<Longrightarrow> 0 \<le> dbl_round r"
proof -
  assume r: "0 \<le> r"
  have "0 \<le> round_even (r / two_to e)" for e by (rule round_even_nonneg) (simp add: r less_imp_le)
  then show ?thesis by (simp add: dbl_round_def Let_def less_imp_le)
qed

lemma two_to_nat: "two_to (int k) = 2 ^ k"
  by (simp add: two_to_def)

lemma ilog2_le:
  assumes "0 < r" shows "two_to (ilog2 r) \<le> r"
proof -
  obtain n d where q: "quotient_of r = (n, d)" by fastforce
  have d: "0 < d" using quotient_of_denom_pos [OF q] .
  have r: "r = of_int n / of_int d" using quotient_of_div [OF q] .
  then have n: "0 < n" using assms d by (simp add: zero_less_divide_iff)
  let ?tn = "top_bit (nat n)" and ?td = "top_bit (nat d)"
  have "2 ^ ?tn \<le> nat n" "nat d < 2 ^ Suc ?td" using top_bit_bounds [of "nat n"] top_bit_bounds [of "nat d"] n d by auto
  then have b: "2 ^ ?tn \<le> n" "d < 2 ^ Suc ?td"
    using n d by (simp_all add: le_nat_iff nat_less_iff)
  then have c: "(2 :: rat) ^ ?tn \<le> of_int n" "(of_int d :: rat) \<le> 2 ^ Suc ?td"
    using of_int_le_iff [where 'a = rat, THEN iffD2, OF b(1)]
      of_int_le_iff [where 'a = rat, THEN iffD2, OF less_imp_le [OF b(2)]] by simp_all
  have "two_to (int ?tn - int ?td - 1) * two_to (int (Suc ?td)) = two_to (int ?tn)"
    by (simp flip: two_to_add)
  then have e: "two_to (int ?tn - int ?td - 1) * 2 ^ Suc ?td = 2 ^ ?tn" by (simp only: two_to_nat)
  have "two_to (int ?tn - int ?td - 1) * of_int d \<le> two_to (int ?tn - int ?td - 1) * 2 ^ Suc ?td"
    by (rule mult_left_mono [OF c(2)]) (simp add: less_imp_le)
  also have "\<dots> \<le> of_int n" unfolding e by (rule c(1))
  finally have "two_to (int ?tn - int ?td - 1) \<le> r" using d by (simp add: r pos_le_divide_eq)
  then show ?thesis by (simp add: ilog2_def q Let_def)
qed

lemma dbl_round_near:
  assumes "1 \<le> r" shows "255 / 256 * r \<le> dbl_round r"
proof -
  define e where "e = max (ilog2 \<bar>r\<bar>) (- 1022) - 52"
  have "two_to (e + 52) \<le> r"
  proof (cases "ilog2 \<bar>r\<bar> \<ge> - 1022")
    case True
    then show ?thesis using ilog2_le [of r] assms by (simp add: e_def max_def)
  next
    case False
    then have "two_to (e + 52) = two_to (- 1022)" by (simp add: e_def max_def)
    also have "\<dots> \<le> 1" by (simp add: two_to_def)
    finally show ?thesis using assms by simp
  qed
  then have "two_to e * two_to 52 \<le> r" by (simp add: two_to_add)
  moreover have "two_to e * 128 \<le> two_to e * two_to 52"
    by (rule mult_left_mono) (simp_all add: two_to_def less_imp_le)
  ultimately have s: "two_to e * 128 \<le> r" by linarith
  have "r / two_to e - 1 / 2 \<le> of_int (round_even (r / two_to e))" using round_even_near [of "r / two_to e"] by linarith
  then have "(r / two_to e - 1 / 2) * two_to e \<le> of_int (round_even (r / two_to e)) * two_to e"
    by (rule mult_right_mono) (simp add: less_imp_le)
  moreover have "(r / two_to e - 1 / 2) * two_to e = r - two_to e / 2"
    using less_imp_neq [OF two_to_pos [of e], symmetric] by (simp add: left_diff_distrib)
  moreover have "dbl_round r = of_int (round_even (r / two_to e)) * two_to e" using assms by (simp add: dbl_round_def e_def Let_def)
  ultimately show ?thesis using s by linarith
qed

lemma round_even_minus: "round_even (- q) = - round_even q"
proof (cases "q = of_int \<lfloor>q\<rfloor>")
  case True
  then obtain k where "q = of_int k" by blast
  then show ?thesis by (simp add: round_even_def)
next
  case False
  then have f: "\<lfloor>- q\<rfloor> = - \<lfloor>q\<rfloor> - 1" by linarith
  show ?thesis unfolding round_even_def Let_def f by (cases "even \<lfloor>q\<rfloor>") auto
qed

lemma dbl_round_minus: "dbl_round (- r) = - dbl_round r"
  by (simp add: dbl_round_def Let_def round_even_minus)

lemma dbl_far:
  assumes "7 < \<bar>r\<bar>" shows "48 \<le> dbl_mul (dbl_round r) (dbl_round r)"
proof -
  have "255 / 256 * \<bar>r\<bar> \<le> dbl_round \<bar>r\<bar>" by (rule dbl_round_near) (use assms in simp)
  then have "697 / 100 \<le> dbl_round \<bar>r\<bar>" using assms by linarith
  then have "697 / 100 * (697 / 100) \<le> dbl_round \<bar>r\<bar> * dbl_round \<bar>r\<bar>" by (intro mult_mono) simp_all
  moreover have "dbl_round \<bar>r\<bar> * dbl_round \<bar>r\<bar> = dbl_round r * dbl_round r"
    by (cases "0 \<le> r") (simp_all add: dbl_round_minus)
  ultimately have "485 / 10 \<le> dbl_round r * dbl_round r" by simp
  with dbl_round_near [of "dbl_round r * dbl_round r"] show ?thesis unfolding dbl_mul_def by linarith
qed

lemma dbl_mul_nonneg: "0 \<le> dbl_mul a a"
  by (simp add: dbl_mul_def dbl_round_nonneg)

lemma dbl_add_ge:
  assumes "0 \<le> a" "0 \<le> b" "1 \<le> a + b" shows "255 * a + 255 * b \<le> 256 * dbl_add a b"
proof -
  have "255 / 256 * (a + b) \<le> dbl_add a b" using dbl_round_near [OF assms(3)] by (simp add: dbl_add_def)
  then show ?thesis by (simp add: field_simps)
qed

text \<open>A position that passes the test has finite coordinates, each within seven blocks.\<close>

definition near_block :: "entity_pos \<Rightarrow> block_pos \<Rightarrow> bool" where
  "near_block ppos bpos \<longleftrightarrow> (\<exists>x y z. dbl_val (ep_x ppos) = Some x \<and> dbl_val (ep_y ppos) = Some y \<and> dbl_val (ep_z ppos) = Some z \<and>
     \<bar>x - of_int (sint (bp_x bpos))\<bar> \<le> 7 \<and> \<bar>y - of_int (sint (bp_y bpos))\<bar> \<le> 7 \<and> \<bar>z - of_int (sint (bp_z bpos))\<bar> \<le> 7)"

lemma dbl_add_le:
  assumes "dbl_add a b \<le> c" "0 \<le> a" "0 \<le> b" "1 \<le> c" shows "255 * a + 255 * b \<le> 256 * c"
proof (cases "1 \<le> a + b")
  case True
  from dbl_add_ge [OF assms(2,3) this] assms(1) show ?thesis by linarith
next
  case False
  with assms(4) show ?thesis by linarith
qed

lemma three_squares:
  assumes "dbl_add (dbl_add a b) c \<le> 36" "0 \<le> a" "0 \<le> b" "0 \<le> c"
  shows "a < 48" "b < 48" "c < 48"
proof -
  have ab: "0 \<le> dbl_add a b" using assms(2,3) by (simp add: dbl_add_def dbl_round_nonneg)
  have s: "255 * dbl_add a b + 255 * c \<le> 256 * 36" by (rule dbl_add_le [OF assms(1) ab assms(4)]) simp
  then show "c < 48" using ab by linarith
  have "dbl_add a b \<le> 37" using s assms(4) by linarith
  then have "255 * a + 255 * b \<le> 256 * 37" by (rule dbl_add_le) (use assms in simp_all)
  then show "a < 48" "b < 48" using assms(2,3) by linarith+
qed

lemma near_if_in_range:
  assumes "block_in_range p b" shows "near_block p b"
proof -
  obtain x y z where v: "dbl_val (ep_x p) = Some x" "dbl_val (ep_y p) = Some y" "dbl_val (ep_z p) = Some z"
    using assms by (auto simp: block_in_range_def split: option.splits)
  let ?sq = "\<lambda>u w. dbl_mul (dbl_sub u (of_int (sint w))) (dbl_sub u (of_int (sint (w :: u32))))"
  have "dbl_add (dbl_add (?sq x (bp_x b)) (?sq y (bp_y b))) (?sq z (bp_z b)) \<le> 36"
    using assms by (simp add: block_in_range_def v Let_def)
  note s = three_squares [OF this dbl_mul_nonneg dbl_mul_nonneg dbl_mul_nonneg]
  have "\<bar>u - of_int (sint w)\<bar> \<le> 7" if "?sq u w < 48" for u w
    using dbl_far [of "u - of_int (sint w)"] that unfolding dbl_sub_def by linarith
  with s v show ?thesis by (simp add: near_block_def)
qed

end
