(* ===== verification/Player.thy ===== *)
theory Player
  imports Game Reach
begin

text \<open>
  The players of \<open>src/player/player.cpp\<close>: logging in, joining worlds, streaming chunks around the
  position, chat and commands, and the changes of blocks. The provider of the worlds is the
  argument \<open>ops\<close>.
\<close>

subsection \<open>Making and destroying players\<close>

definition player_init :: "nat \<Rightarrow> uuid \<Rightarrow> byte list \<Rightarrow> u32 \<Rightarrow> player" where
  "player_init conn uuid' name eid =
     \<lparr>pl_conn = conn, pl_uuid = uuid', pl_name = name, pl_gm = GM_SURVIVAL,
      pl_ent = entity_new eid, pl_ka_expecting = False, pl_ka_id = 0, pl_w = None, pl_vis = [],
      pl_pos = entity_pos_zero, pl_spawned = False, pl_spawn_pos = entity_pos_zero,
      pl_last_cp = chunk_pos_zero, pl_gen_tok = 0, pl_openw = None, pl_inv = inventory_init, pl_cur_slot = 0\<rparr>"

definition player_new :: "nat \<Rightarrow> uuid \<Rightarrow> byte list \<Rightarrow> 'p game \<Rightarrow> nat \<times> 'p game" where
  "player_new conn uuid' name g =
     (gm_next_pl g, g\<lparr>gm_players := (gm_players g)(gm_next_pl g \<mapsto> player_init conn uuid' name (gm_next_eid g)),
        gm_next_pl := Suc (gm_next_pl g), gm_next_eid := gm_next_eid g + 1\<rparr>)"

definition player_destroy :: "nat \<Rightarrow> 'p game \<Rightarrow> 'p game option" where
  "player_destroy p g = do {
     pl \<leftarrow> gm_players g p;
     g \<leftarrow> (case pl_w pl of
         None \<Rightarrow> Some g
       | Some wa \<Rightarrow> do {
           g \<leftarrow> player_entity_despawn p g;
           upd_world wa (Some \<circ> remove_player p) (free_token wa (pl_gen_tok pl) g) });
     Some (g\<lparr>gm_players := (gm_players g)(p := None)\<rparr>) }"

subsection \<open>Messages and keep-alives\<close>

definition kick :: "nat \<Rightarrow> byte list \<Rightarrow> 'p game \<Rightarrow> 'p game option" where
  "kick p msg g = send_to p (Disconnect_msg msg) True g"

text \<open>The prefix is the UTF-8 form of the section sign and \<open>e\<close>.\<close>

definition yellow :: "byte list" where "yellow = [0xC2, 0xA7, 0x65]"
definition section_sign :: "byte list" where "section_sign = [0xC2, 0xA7]"

definition message :: "nat \<Rightarrow> byte list \<Rightarrow> 'p game \<Rightarrow> 'p game option" where
  "message p msg g = send_to p (Chat (yellow @ msg)) False g"

definition disconnect_player :: "nat \<Rightarrow> 'p game \<Rightarrow> 'p game option" where
  "disconnect_player p g = do { pl \<leftarrow> gm_players g p; upd_conn (pl_conn pl) request_disconnect g }"

text \<open>\<open>rnd\<close> is the number drawn for the packet.\<close>

definition send_keep_alive :: "u32 \<Rightarrow> nat \<Rightarrow> 'p game \<Rightarrow> 'p game option" where
  "send_keep_alive rnd p g = do {
     pl \<leftarrow> gm_players g p;
     if pl_ka_expecting pl then disconnect_player p g
     else do {
       g \<leftarrow> upd_player p (\<lambda>pl. pl\<lparr>pl_ka_id := rnd, pl_ka_expecting := True\<rparr>) g;
       send_to p (Keep_alive rnd) False g } }"

definition handle_keep_alive :: "nat \<Rightarrow> u32 \<Rightarrow> 'p game \<Rightarrow> 'p game option" where
  "handle_keep_alive p id' g = upd_player p (\<lambda>pl.
     if pl_ka_expecting pl \<and> id' = pl_ka_id pl then pl\<lparr>pl_ka_expecting := False\<rparr> else pl) g"

subsection \<open>Streaming chunks\<close>

definition section_mask :: "chunk \<Rightarrow> u16" where
  "section_mask c = fold (\<lambda>i m. if ch_subs c ! i \<noteq> None then m OR push_bit i 1 else m) [0..<16] 0"

text \<open>\<open>unordered_set::emplace\<close>.\<close>

definition set_emplace :: "'v \<Rightarrow> 'v list \<Rightarrow> 'v list" where
  "set_emplace x xs = (if x \<in> set xs then xs else xs @ [x])"

text \<open>The chunk is the one at address \<open>ch\<close> of world \<open>wa\<close>.\<close>

definition on_chunk_loaded :: "nat \<Rightarrow> nat \<Rightarrow> nat \<Rightarrow> u32 \<Rightarrow> u32 \<Rightarrow> 'p game \<Rightarrow> 'p game option" where
  "on_chunk_loaded p wa ch x z g = do {
     conn \<leftarrow> conn_of p g;
     if cv_disconnected conn then Some g else do {
       w \<leftarrow> gm_worlds g wa;
       c \<leftarrow> w_heap w ch;
       g \<leftarrow> send_to p (Chunk_data x z True (section_mask c) c) False g;
       g \<leftarrow> upd_player p (\<lambda>pl. pl\<lparr>pl_vis := set_emplace (chunk_pos_make x z) (pl_vis pl)\<rparr>) g;
       pl \<leftarrow> gm_players g p;
       if pl_spawned pl then Some g else do {
         scp \<leftarrow> chunk_pos_of_entity (pl_spawn_pos pl);
         if \<not> chunk_pos_eq (chunk_pos_make x z) scp then Some g else do {
           g \<leftarrow> upd_player p (\<lambda>pl. pl\<lparr>pl_spawned := True, pl_pos := pl_spawn_pos pl, pl_last_cp := scp\<rparr>) g;
           bpos \<leftarrow> block_pos_of_entity (pl_spawn_pos pl);
           g \<leftarrow> send_to p (Spawn_position (bp_x bpos) (bp_y bpos) (bp_z bpos)) False g;
           let pos = pl_spawn_pos pl;
           g \<leftarrow> send_to p (Position_and_look (ep_x pos) (ep_y pos) (ep_z pos) (ep_yaw pos) (ep_pitch pos) 0) False g;
           my_w \<leftarrow> pl_w pl;
           player_entity_spawn p my_w pos g } } } }"

definition in_range :: "chunk_pos \<Rightarrow> int \<Rightarrow> chunk_pos \<Rightarrow> bool" where
  "in_range me r cp \<longleftrightarrow> sint (cp_x cp) \<ge> sint (cp_x me) - r \<and> sint (cp_x cp) \<le> sint (cp_x me) + r \<and>
     sint (cp_z cp) \<ge> sint (cp_z me) - r \<and> sint (cp_z cp) \<le> sint (cp_z me) + r"

definition dist2 :: "chunk_pos \<Rightarrow> chunk_pos \<Rightarrow> int" where
  "dist2 me a = sint ((cp_x a - cp_x me) * (cp_x a - cp_x me) + (cp_z a - cp_z me) * (cp_z a - cp_z me))"

text \<open>\<open>std::sort\<close> leaves the order of equal distances open; here they keep their order.\<close>

definition by_distance :: "chunk_pos \<Rightarrow> chunk_pos list \<Rightarrow> chunk_pos list" where
  "by_distance me = sort_key (dist2 me)"

definition unload_chunk :: "nat \<Rightarrow> chunk_pos \<Rightarrow> 'p game \<Rightarrow> 'p game option" where
  "unload_chunk p cp g = do {
     g \<leftarrow> send_to p (Unload_chunk (cp_x cp) (cp_z cp)) False g;
     upd_player p (\<lambda>pl. pl\<lparr>pl_vis := filter (\<lambda>v. v \<noteq> cp) (pl_vis pl)\<rparr>) g }"

definition request_chunk :: "nat \<Rightarrow> chunk_pos \<Rightarrow> 'p game \<Rightarrow> 'p game option" where
  "request_chunk p cp g = do {
     pl \<leftarrow> gm_players g p;
     if cp \<in> set (pl_vis pl) then Some g else do {
       wa \<leftarrow> pl_w pl;
       (ch, g) \<leftarrow> generate wa (pl_gen_tok pl) (cp_x cp) (cp_z cp) p g;
       case ch of None \<Rightarrow> Some g
       | Some ch \<Rightarrow> on_chunk_loaded p wa ch (cp_x cp) (cp_z cp) g } }"

definition stream_chunks :: "nat \<Rightarrow> 'p game \<Rightarrow> 'p game option" where
  "stream_chunks p g = do {
     pl \<leftarrow> gm_players g p;
     if pl_w pl = None then Some g else do {
       me_pos \<leftarrow> chunk_pos_of_entity (pl_pos pl);
       let r = view_dist g;
       let in_sight = by_distance me_pos (chunk_square me_pos r);
       let to_unload = filter (\<lambda>cp. \<not> in_range me_pos r cp) (pl_vis pl);
       g \<leftarrow> put_all (unload_chunk p) to_unload g;
       put_all (request_chunk p) in_sight g } }"

text \<open>A job of the generators runs: its token is looked up by a map that makes a null entry of it.\<close>

definition gen_func :: "'p provider_ops \<Rightarrow> gen_job \<Rightarrow> 'p game \<Rightarrow> 'p game option" where
  "gen_func ops j g = (if gj_token j \<notin> set (ag_toks (gm_gens g (gj_world j))) then None else do {
     w \<leftarrow> gm_worlds g (gj_world j);
     (ch, w) \<leftarrow> load_chunk ops (gj_x j) (gj_z j) w;
     let g = g\<lparr>gm_worlds := (gm_worlds g)(gj_world j \<mapsto> w)\<rparr>;
     me \<leftarrow> gm_players g (gj_pl j);
     if pl_w me \<noteq> Some (gj_world j) then Some g
     else on_chunk_loaded (gj_pl j) (gj_world j) ch (gj_x j) (gj_z j) g })"

definition join_world :: "nat \<Rightarrow> nat \<Rightarrow> entity_pos \<Rightarrow> 'p game \<Rightarrow> 'p game option" where
  "join_world p wa pos g = do {
     pl \<leftarrow> gm_players g p;
     g \<leftarrow> (case pl_w pl of
         None \<Rightarrow> Some g
       | Some prev_w \<Rightarrow> upd_world prev_w (Some \<circ> remove_player p) (free_token prev_w (pl_gen_tok pl) g));
     g \<leftarrow> upd_world wa (Some \<circ> add_player p) g;
     let (tok, g) = make_token wa g;
     g \<leftarrow> upd_player p (\<lambda>pl. pl\<lparr>pl_w := Some wa, pl_spawned := False, pl_spawn_pos := pos, pl_pos := pos, pl_gen_tok := tok\<rparr>) g;
     stream_chunks p g }"

definition on_login :: "nat \<Rightarrow> 'p game \<Rightarrow> 'p game option" where
  "on_login p g = do {
     g \<leftarrow> message p (yellow @ str_bytes ''Welcome to an '' @ section_sign @ str_bytes ''6hCraft 2 '' @ yellow @
       str_bytes ''server'' @ section_sign @ str_bytes ''f!'') g;
     w \<leftarrow> gm_worlds g (gm_main_world g);
     join_world p (gm_main_world g) (wd_spawn_pos (w_inf w)) g }"

definition on_move :: "nat \<Rightarrow> entity_pos \<Rightarrow> 'p game \<Rightarrow> 'p game option" where
  "on_move p pos g = do {
     conn \<leftarrow> conn_of p g;
     pl \<leftarrow> gm_players g p;
     if cv_disconnected conn \<or> \<not> pl_spawned pl then Some g else do {
       g \<leftarrow> upd_player p (\<lambda>pl. pl\<lparr>pl_pos := pos\<rparr>) g;
       g \<leftarrow> entity_move p pos g;
       cp \<leftarrow> chunk_pos_of_entity pos;
       if chunk_pos_ne cp (pl_last_cp pl) then do {
         g \<leftarrow> upd_player p (\<lambda>pl. pl\<lparr>pl_last_cp := cp\<rparr>) g;
         stream_chunks p g }
       else Some g } }"

subsection \<open>Chat and commands\<close>

text \<open>The words behind the slash: the name, and what follows the spaces behind it.\<close>

fun split_command :: "byte list \<Rightarrow> byte list \<times> byte list" where
  "split_command [] = ([], [])"
| "split_command (c # cs) = (if c \<noteq> 0x20 then (let (name, rest) = split_command cs in (c # name, rest))
     else ([], dropWhile (\<lambda>c. c = 0x20) (c # cs)))"

text \<open>The commands the server registers, by name; there is one.\<close>

datatype command = Cmd_help

definition find_command :: "byte list \<Rightarrow> command option" where
  "find_command name = (if name = str_bytes ''help'' then Some Cmd_help else None)"

fun command_execute :: "command \<Rightarrow> nat \<Rightarrow> byte list \<Rightarrow> 'p game \<Rightarrow> 'p game option" where
  "command_execute Cmd_help p args g = message p (section_sign @ str_bytes ''aCheck again in the future!'') g"

definition handle_command :: "nat \<Rightarrow> byte list \<Rightarrow> 'p game \<Rightarrow> 'p game option" where
  "handle_command p msg g = (let (name, rest) = split_command (tl msg) in
     case find_command name of
       None \<Rightarrow> message p (section_sign @ str_bytes ''cUnknown command'' @ section_sign @ str_bytes ''f: '' @
         section_sign @ str_bytes ''7/'' @ name) g
     | Some cmd \<Rightarrow> command_execute cmd p rest g)"

definition on_chat :: "nat \<Rightarrow> byte list \<Rightarrow> 'p game \<Rightarrow> 'p game option" where
  "on_chat p msg g = do {
     conn \<leftarrow> conn_of p g;
     pl \<leftarrow> gm_players g p;
     if cv_disconnected conn \<or> \<not> pl_spawned pl then Some g
     else if msg = [] then Some g
     else if hd msg = 0x2F then handle_command p msg g
     else put_all (\<lambda>q. message q (yellow @ pl_name pl @ section_sign @ str_bytes ''f: '' @ msg)) (gm_online g) g }"

subsection \<open>Windows, game mode and blocks\<close>

definition set_gm :: "nat \<Rightarrow> game_mode \<Rightarrow> 'p game \<Rightarrow> 'p game option" where
  "set_gm p gm g = upd_player p (\<lambda>pl. pl\<lparr>pl_gm := gm\<rparr>) g"

definition open_window :: "nat \<Rightarrow> window option \<Rightarrow> 'p game \<Rightarrow> 'p game option" where
  "open_window p win g = upd_player p (\<lambda>pl. pl\<lparr>pl_openw := win\<rparr>) g"

definition close_window :: "nat \<Rightarrow> 'p game \<Rightarrow> 'p game option" where
  "close_window p g = upd_player p (\<lambda>pl. pl\<lparr>pl_openw := None\<rparr>) g"

text \<open>
  A change of a block can start lighting that does not return, so its outcome is that of the world:
  \<open>None\<close> for ever, \<open>Some None\<close> a crash.
\<close>

definition change_block :: "nat \<Rightarrow> ('p world \<Rightarrow> 'p world option option) \<Rightarrow> 'p game \<Rightarrow> 'p game option option" where
  "change_block wa f g = (case gm_worlds g wa of
     None \<Rightarrow> Some None
   | Some w \<Rightarrow> map_option (map_option (\<lambda>w. g\<lparr>gm_worlds := (gm_worlds g)(wa \<mapsto> w)\<rparr>)) (f w))"

definition on_dig :: "'p provider_ops \<Rightarrow> nat \<Rightarrow> u32 \<Rightarrow> u32 \<Rightarrow> u32 \<Rightarrow> byte \<Rightarrow> byte \<Rightarrow> 'p game \<Rightarrow> 'p game option option" where
  "on_dig ops p x y z state face g = (case (conn_of p g, gm_players g p) of
     (Some conn, Some pl) \<Rightarrow>
       if cv_disconnected conn \<or> \<not> pl_spawned pl then Some (Some g)
       else if sint y < 0 \<or> sint y > 255 then
         Some (kick p (str_bytes ''You can't dig there (Y coordinate out of bounds)'') g)
       else if \<not> block_in_range (pl_pos pl) (block_pos_make x y z) then Some (Some g)
       else if state = 0 then (case pl_w pl of
           None \<Rightarrow> Some None
         | Some wa \<Rightarrow> change_block wa (world_set_id ops x y z 0) g)
       else Some (Some g)
   | _ \<Rightarrow> Some None)"

text \<open>The position beside the block that was clicked on.\<close>

definition face_step :: "byte \<Rightarrow> u32 \<Rightarrow> u32 \<Rightarrow> u32 \<Rightarrow> (u32 \<times> u32 \<times> u32) option" where
  "face_step face x y z = (if face = 4 then Some (x - 1, y, z) else if face = 5 then Some (x + 1, y, z)
     else if face = 0 then Some (x, y - 1, z) else if face = 1 then Some (x, y + 1, z)
     else if face = 2 then Some (x, y, z - 1) else if face = 3 then Some (x, y, z + 1) else None)"

definition on_place :: "'p provider_ops \<Rightarrow> nat \<Rightarrow> u32 \<Rightarrow> u32 \<Rightarrow> u32 \<Rightarrow> byte \<Rightarrow> 'p game \<Rightarrow> 'p game option option" where
  "on_place ops p x y z face g =
     (if x = - 1 \<and> y = 4095 \<and> z = - 1 then Some (Some g)
      else case face_step face x y z of
        None \<Rightarrow> Some (disconnect_player p g)
      | Some (nx, ny, nz) \<Rightarrow>
          if sint ny < 0 \<or> sint ny > 255 then Some (disconnect_player p g)
          else (case gm_players g p of
            None \<Rightarrow> Some None
          | Some pl \<Rightarrow>
              if \<not> block_in_range (pl_pos pl) (block_pos_make nx ny nz) then Some (Some g)
              else (case window_get (36 + pl_cur_slot pl) (pl_inv pl) of
                None \<Rightarrow> Some None
              | Some None \<Rightarrow> Some (Some g)
              | Some (Some it) \<Rightarrow> (case pl_w pl of
                  None \<Rightarrow> Some None
                | Some wa \<Rightarrow> change_block wa (world_set_id_and_meta ops nx ny nz (si_id it) (ucast (si_damage it))) g))))"

end
