(* ===== verification/Handler.thy ===== *)
theory Handler
  imports Player Connection
begin

text \<open>
  The packet handler for version 1.8 (\<open>src/network/handlers/mc18.cpp\<close>), from the handshake to the
  packets of the game, with what it calls of the server (\<open>src/system/server.cpp\<close>) and of the UUID
  manager (\<open>src/player/uuid_manager.cpp\<close>). The results are those of \<^const>\<open>world_set_id\<close>: \<open>None\<close> does
  not return, \<open>Some None\<close> crashes; reading past the packet, an exception nobody catches and a null
  player are crashes. Requests to the two web services wait in the game until they are answered.
\<close>

subsection \<open>What is outside\<close>

text \<open>
  The provider of the worlds, the conversions of numbers, the digest of version 3 UUIDs, the
  decryption with the private key (\<open>None\<close>: Crypto++ throws) and the encoded public key.
\<close>

record 'p server_env =
  se_ops :: "'p provider_ops"
  se_num :: "u64 \<Rightarrow> byte list"
  se_parse :: "byte list \<Rightarrow> u64"
  se_md5 :: "byte list \<Rightarrow> byte list"
  se_decrypt :: "byte list \<Rightarrow> byte list option"
  se_pub_key :: "byte list"

subsection \<open>The server's lists\<close>

definition register_player :: "nat \<Rightarrow> 'p game \<Rightarrow> 'p game option" where
  "register_player p g = (if word_of_nat (length (gm_online g)) = cfg_max_players (gm_cfg g) then None
     else Some (g\<lparr>gm_online := gm_online g @ [p]\<rparr>))"

definition deregister_player :: "nat \<Rightarrow> 'p game \<Rightarrow> 'p game" where
  "deregister_player p g = g\<lparr>gm_online := filter (\<lambda>q. q \<noteq> p) (gm_online g)\<rparr>"

definition server_disconnect_connection :: "nat \<Rightarrow> 'p game \<Rightarrow> 'p game" where
  "server_disconnect_connection a g =
     g\<lparr>gm_conn_list := filter (\<lambda>b. b \<noteq> a) (gm_conn_list g), gm_gray := gm_gray g @ [a]\<rparr>"

definition keep_alive_task :: "(nat \<Rightarrow> u32) \<Rightarrow> 'p game \<Rightarrow> 'p game option" where
  "keep_alive_task rnd g = put_all (\<lambda>p. send_keep_alive (rnd p) p) (gm_online g) g"

subsection \<open>Logging in\<close>

definition uuid_get_success :: "nat \<Rightarrow> byte list \<Rightarrow> uuid \<Rightarrow> 'p game \<Rightarrow> 'p game option" where
  "uuid_get_success a name uuid' g = do {
     _ \<leftarrow> gm_conns g a;
     let (p, g) = player_new a uuid' name g;
     case register_player p g of
       None \<Rightarrow> do {
         g \<leftarrow> player_destroy p g;
         upd_conn a (conn_send (Login_disconnect (str_bytes ''Sorry, server full'')) True) g }
     | Some g \<Rightarrow> do {
         g \<leftarrow> upd_conn a (\<lambda>c. c\<lparr>cv_player := Some p, hs_pl := Some p\<rparr>) g;
         g \<leftarrow> set_gm p GM_CREATIVE g;
         g \<leftarrow> upd_conn a (conn_send (Login_success (uuid_str uuid') name) False) g;
         g \<leftarrow> upd_conn a (conn_send (Join_game 1 1 0 0 (ucast (cfg_max_players (gm_cfg g))) (str_bytes ''default'') True) False) g;
         g \<leftarrow> upd_conn a (\<lambda>c. c\<lparr>hs_state := PS_PLAY\<rparr>) g;
         g \<leftarrow> upd_conn a (conn_send (Set_compression (cfg_compress_threshold (gm_cfg g))) False) g;
         g \<leftarrow> upd_conn a (\<lambda>c. c\<lparr>cv_zlib := True\<rparr>) g;
         on_login p g } }"

definition handler_disconnect :: "nat \<Rightarrow> 'p game \<Rightarrow> 'p game option" where
  "handler_disconnect a g = map_option (\<lambda>c. case hs_pl c of None \<Rightarrow> g | Some p \<Rightarrow> deregister_player p g) (gm_conns g a)"

definition uuid_get_fail :: "nat \<Rightarrow> 'p game \<Rightarrow> 'p game option" where
  "uuid_get_fail a g = handler_disconnect a g"

text \<open>\<open>uuid_manager::from_username\<close> with the callbacks of \<open>login\<close>.\<close>

definition from_username :: "'p server_env \<Rightarrow> nat \<Rightarrow> byte list \<Rightarrow> 'p game \<Rightarrow> 'p game option" where
  "from_username env a name g = (case map_of (gm_uuid_cache g) name of
     Some u \<Rightarrow> uuid_get_success a name u g
   | None \<Rightarrow> if gm_uman_online g then Some (g\<lparr>gm_uuid_jobs := gm_uuid_jobs g @ [(a, name)]\<rparr>)
       else uuid_get_success a name (generate_v3 (se_md5 env) name) g)"

definition handler_login :: "'p server_env \<Rightarrow> nat \<Rightarrow> 'p game \<Rightarrow> 'p game option" where
  "handler_login env a g = do { c \<leftarrow> gm_conns g a; from_username env a (hs_name c) g }"

text \<open>The worker of the UUID manager, with the body of the response if there was one.\<close>

definition uuid_worker :: "'p server_env \<Rightarrow> nat \<Rightarrow> byte list \<Rightarrow> byte list option \<Rightarrow> 'p game \<Rightarrow> 'p game option" where
  "uuid_worker env a name resp g = (case resp of
     None \<Rightarrow> uuid_get_fail a g
   | Some body \<Rightarrow> do {
       r \<leftarrow> json_reader_read (se_parse env) body;
       case r of Inl e \<Rightarrow> uuid_get_fail a g
       | Inr (obj, s) \<Rightarrow> (case json_get (str_bytes ''id'') obj of
           Some (J_String id_v) \<Rightarrow> do {
             u \<leftarrow> parse_hex id_v;
             uuid_get_success a name u (g\<lparr>gm_uuid_cache := (name, u) # gm_uuid_cache g\<rparr>) }
         | _ \<Rightarrow> uuid_get_fail a g) })"

definition uman_set_online :: "'p game \<Rightarrow> 'p game" where
  "uman_set_online g = g\<lparr>gm_uuid_cache := (if \<not> gm_uman_online g then [] else gm_uuid_cache g), gm_uman_online := True\<rparr>"

definition uman_insert :: "byte list \<Rightarrow> uuid \<Rightarrow> 'p game \<Rightarrow> 'p game" where
  "uman_insert name u g = g\<lparr>gm_uuid_cache := (name, u) # gm_uuid_cache g\<rparr>"

subsection \<open>Reading\<close>

definition read_slot :: "packet_reader \<Rightarrow> (slot_item \<times> packet_reader) option" where
  "read_slot r = do {
     (id', r) \<leftarrow> pr_read_short r;
     if id' = - 1 then Some (slot_item_make id' 0 1, r)
     else do {
       (count, r) \<leftarrow> pr_read_byte r;
       (damage, r) \<leftarrow> pr_read_short r;
       (more, r) \<leftarrow> pr_read_byte r;
       if more = 0 then Some (slot_item_make id' damage (uint count), r) else None } }"

definition unpack_pos :: "u64 \<Rightarrow> block_pos" where
  "unpack_pos pos =
     (let x = ucast (drop_bit 38 pos) :: u32;
          y = ucast (drop_bit 26 pos AND 0xFFF);
          z = ucast (pos AND 0x3FFFFFF);
          x = (if x AND push_bit 25 1 \<noteq> 0 then x OR push_bit 26 0xFFFFFFFF else x);
          x = (if y AND push_bit 11 1 \<noteq> 0 then x OR push_bit 12 0xFFFFFFFF else x);
          z = (if z AND push_bit 25 1 \<noteq> 0 then z OR push_bit 26 0xFFFFFFFF else z)
      in block_pos_make x y z)"

definition read_pos :: "packet_reader \<Rightarrow> (block_pos \<times> packet_reader) option" where
  "read_pos r = map_option (\<lambda>(pos, r). (unpack_pos pos, r)) (pr_read_long r)"

subsection \<open>Handshake and status\<close>

definition handle_h00 :: "nat \<Rightarrow> packet_reader \<Rightarrow> 'p game \<Rightarrow> 'p game option" where
  "handle_h00 a r g = do {
     (proto, r) \<leftarrow> pr_read_varint r;
     if proto \<noteq> 47 then upd_conn a request_disconnect g
     else do {
       (addr, r) \<leftarrow> pr_read_string 256 r;
       (port, r) \<leftarrow> pr_read_short r;
       (st, r) \<leftarrow> pr_read_varint r;
       if st \<noteq> 1 \<and> st \<noteq> 2 then upd_conn a request_disconnect g
       else upd_conn a (\<lambda>c. c\<lparr>hs_state := (if st = 1 then PS_STATUS else PS_LOGIN)\<rparr>) g } }"

text \<open>The object that answers a status request; its entries stand in the order they are set.\<close>

definition status_object :: "'p game \<Rightarrow> (byte list \<times> json) list" where
  "status_object g =
     [(str_bytes ''version'', J_Object [(str_bytes ''name'', J_String (str_bytes ''1.8'')),
         (str_bytes ''protocol'', J_Number (double_of_int 47))]),
      (str_bytes ''players'', J_Object [(str_bytes ''max'', J_Number (double_of_int (sint (cfg_max_players (gm_cfg g))))),
         (str_bytes ''online'', J_Number (double_of_int (int (length (gm_online g))))),
         (str_bytes ''sample'', J_Array [])]),
      (str_bytes ''description'', J_Object [(str_bytes ''text'', J_String (cfg_motd (gm_cfg g)))])]"

definition handle_s00 :: "'p server_env \<Rightarrow> nat \<Rightarrow> 'p game \<Rightarrow> 'p game option" where
  "handle_s00 env a g =
     upd_conn a (conn_send (Status_response (json_writer_write (se_num env) json_nice (status_object g))) False) g"

definition handle_s01 :: "nat \<Rightarrow> packet_reader \<Rightarrow> 'p game \<Rightarrow> 'p game option" where
  "handle_s01 a r g = do { (time, r) \<leftarrow> pr_read_long r; upd_conn a (conn_send (Status_ping time) False) g }"

subsection \<open>Login\<close>

text \<open>\<open>rnd\<close> are the four bytes drawn for the token.\<close>

definition handle_l00 :: "'p server_env \<Rightarrow> byte list \<Rightarrow> nat \<Rightarrow> packet_reader \<Rightarrow> 'p game \<Rightarrow> 'p game option" where
  "handle_l00 env rnd a r g = do {
     (name, r) \<leftarrow> pr_read_string 256 r;
     case name of None \<Rightarrow> upd_conn a request_disconnect g
     | Some name \<Rightarrow> do {
         g \<leftarrow> upd_conn a (\<lambda>c. c\<lparr>hs_name := c_str name\<rparr>) g;
         if \<not> cfg_encryption (gm_cfg g) then handler_login env a g
         else do {
           g \<leftarrow> upd_conn a (\<lambda>c. c\<lparr>hs_vtoken := Some rnd\<rparr>) g;
           upd_conn a (conn_send (Encryption_request [] (se_pub_key env) rnd) False) g } } }"

definition auth_cb :: "'p server_env \<Rightarrow> nat \<Rightarrow> bool \<Rightarrow> 'p game \<Rightarrow> 'p game option" where
  "auth_cb env a succ g = (if succ then handler_login env a g else upd_conn a request_disconnect g)"

text \<open>What is logged when a response is refused names the player, who does not exist yet.\<close>

definition refuse_response :: "nat \<Rightarrow> 'p game \<Rightarrow> 'p game option" where
  "refuse_response a g = do {
     c \<leftarrow> gm_conns g a;
     p \<leftarrow> hs_pl c;
     _ \<leftarrow> gm_players g p;
     upd_conn a request_disconnect g }"

definition accept_secret :: "'p server_env \<Rightarrow> nat \<Rightarrow> byte list \<Rightarrow> 'p game \<Rightarrow> 'p game option" where
  "accept_secret env a ssec g = do {
     c \<leftarrow> gm_conns g a;
     g \<leftarrow> upd_conn a (\<lambda>c. c\<lparr>cv_aes := Some ssec\<rparr>) g;
     if \<not> cfg_online (gm_cfg g) then handler_login env a g
     else Some (g\<lparr>gm_auths := gm_auths g @ [(a, hs_name c, ssec)]\<rparr>) }"

definition check_response :: "'p server_env \<Rightarrow> nat \<Rightarrow> byte list \<Rightarrow> byte list \<Rightarrow> 'p game \<Rightarrow> 'p game option" where
  "check_response env a ss_enc vtoken_enc g = do {
     c \<leftarrow> gm_conns g a;
     rec \<leftarrow> se_decrypt env vtoken_enc;
     if length rec \<noteq> 4 then refuse_response a g
     else do {
       vtoken \<leftarrow> hs_vtoken c;
       if vtoken \<noteq> rec then refuse_response a g
       else do {
         ssec \<leftarrow> se_decrypt env ss_enc;
         if length ssec \<noteq> 16 then refuse_response a g
         else accept_secret env a ssec g } } }"

definition handle_l01 :: "'p server_env \<Rightarrow> nat \<Rightarrow> packet_reader \<Rightarrow> 'p game \<Rightarrow> 'p game option" where
  "handle_l01 env a r g = do {
     (ss_len, r) \<leftarrow> pr_read_varint r;
     if sint ss_len < 0 \<or> sint ss_len > 128 then handler_disconnect a g
     else do {
       (ss_enc, r) \<leftarrow> pr_read_bytes (sint ss_len) r;
       (vtoken_len, r) \<leftarrow> pr_read_varint r;
       if sint vtoken_len < 0 \<or> sint vtoken_len > 128 then handler_disconnect a g
       else do {
         (vtoken_enc, r) \<leftarrow> pr_read_bytes (sint vtoken_len) r;
         check_response env a ss_enc vtoken_enc g } } }"

subsection \<open>Play\<close>

definition handle_p00 :: "nat \<Rightarrow> packet_reader \<Rightarrow> 'p game \<Rightarrow> 'p game option" where
  "handle_p00 p r g = do { (id', r) \<leftarrow> pr_read_varint r; handle_keep_alive p id' g }"

definition handle_p01 :: "nat \<Rightarrow> nat \<Rightarrow> packet_reader \<Rightarrow> 'p game \<Rightarrow> 'p game option" where
  "handle_p01 a p r g = do {
     (str, r) \<leftarrow> pr_read_string 119 r;
     case str of None \<Rightarrow> upd_conn a request_disconnect g | Some str \<Rightarrow> on_chat p (c_str str) g }"

definition read_position :: "packet_reader \<Rightarrow> entity_pos \<Rightarrow> (entity_pos \<times> packet_reader) option" where
  "read_position r pos = do {
     (x, r) \<leftarrow> pr_read_double r;
     (y, r) \<leftarrow> pr_read_double r;
     (z, r) \<leftarrow> pr_read_double r;
     Some (pos\<lparr>ep_x := x, ep_y := y, ep_z := z\<rparr>, r) }"

definition read_look :: "packet_reader \<Rightarrow> entity_pos \<Rightarrow> (entity_pos \<times> packet_reader) option" where
  "read_look r pos = do {
     (yaw, r) \<leftarrow> pr_read_float r;
     (pitch, r) \<leftarrow> pr_read_float r;
     Some (pos\<lparr>ep_yaw := yaw, ep_pitch := pitch\<rparr>, r) }"

definition read_ground :: "packet_reader \<Rightarrow> entity_pos \<Rightarrow> entity_pos option" where
  "read_ground r pos = do { (b, r) \<leftarrow> pr_read_bool r; Some (pos\<lparr>ep_on_ground := b\<rparr>) }"

definition handle_p03 :: "nat \<Rightarrow> packet_reader \<Rightarrow> 'p game \<Rightarrow> 'p game option" where
  "handle_p03 p r g = do {
     pl \<leftarrow> gm_players g p;
     pos \<leftarrow> read_ground r (pl_pos pl);
     on_move p pos g }"

definition handle_p04 :: "nat \<Rightarrow> packet_reader \<Rightarrow> 'p game \<Rightarrow> 'p game option" where
  "handle_p04 p r g = do {
     pl \<leftarrow> gm_players g p;
     (pos, r) \<leftarrow> read_position r (pl_pos pl);
     pos \<leftarrow> read_ground r pos;
     on_move p pos g }"

definition handle_p05 :: "nat \<Rightarrow> packet_reader \<Rightarrow> 'p game \<Rightarrow> 'p game option" where
  "handle_p05 p r g = do {
     pl \<leftarrow> gm_players g p;
     (pos, r) \<leftarrow> read_look r (pl_pos pl);
     pos \<leftarrow> read_ground r pos;
     on_move p pos g }"

definition handle_p06 :: "nat \<Rightarrow> packet_reader \<Rightarrow> 'p game \<Rightarrow> 'p game option" where
  "handle_p06 p r g = do {
     pl \<leftarrow> gm_players g p;
     (pos, r) \<leftarrow> read_position r (pl_pos pl);
     (pos, r) \<leftarrow> read_look r pos;
     pos \<leftarrow> read_ground r pos;
     on_move p pos g }"

definition handle_p07 :: "'p provider_ops \<Rightarrow> nat \<Rightarrow> packet_reader \<Rightarrow> 'p game \<Rightarrow> 'p game option option" where
  "handle_p07 ops p r g = (case do {
       (status, r) \<leftarrow> pr_read_byte r;
       (pos, r) \<leftarrow> read_pos r;
       (face, r) \<leftarrow> pr_read_byte r;
       Some (status, pos, face) } of
     None \<Rightarrow> Some None
   | Some (status, pos, face) \<Rightarrow> on_dig ops p (bp_x pos) (bp_y pos) (bp_z pos) status face g)"

definition handle_p08 :: "'p provider_ops \<Rightarrow> nat \<Rightarrow> packet_reader \<Rightarrow> 'p game \<Rightarrow> 'p game option option" where
  "handle_p08 ops p r g = (case do {
       (pos, r) \<leftarrow> read_pos r;
       (face, r) \<leftarrow> pr_read_byte r;
       (slot, r) \<leftarrow> read_slot r;
       (c, r) \<leftarrow> pr_read_byte r;
       (c, r) \<leftarrow> pr_read_byte r;
       (c, r) \<leftarrow> pr_read_byte r;
       Some (pos, face) } of
     None \<Rightarrow> Some None
   | Some (pos, face) \<Rightarrow> on_place ops p (bp_x pos) (bp_y pos) (bp_z pos) face g)"

definition handle_p09 :: "nat \<Rightarrow> nat \<Rightarrow> packet_reader \<Rightarrow> 'p game \<Rightarrow> 'p game option" where
  "handle_p09 a p r g = do {
     (slot, r) \<leftarrow> pr_read_short r;
     if sint slot < 0 \<or> sint slot > 8 then upd_conn a request_disconnect g
     else upd_player p (\<lambda>pl. pl\<lparr>pl_cur_slot := unat slot\<rparr>) g }"

definition handle_p0d :: "nat \<Rightarrow> nat \<Rightarrow> packet_reader \<Rightarrow> 'p game \<Rightarrow> 'p game option" where
  "handle_p0d a p r g = do {
     (wid, r) \<leftarrow> pr_read_byte r;
     if wid = 0 then Some g
     else do {
       pl \<leftarrow> gm_players g p;
       w \<leftarrow> pl_openw pl;
       if w_wid w \<noteq> wid then upd_conn a request_disconnect g else close_window p g } }"

definition handle_p0e :: "nat \<Rightarrow> nat \<Rightarrow> packet_reader \<Rightarrow> 'p game \<Rightarrow> 'p game option" where
  "handle_p0e a p r g = do {
     (wid, r) \<leftarrow> pr_read_byte r;
     (slot, r) \<leftarrow> pr_read_short r;
     (btn, r) \<leftarrow> pr_read_byte r;
     (act, r) \<leftarrow> pr_read_short r;
     (mode, r) \<leftarrow> pr_read_byte r;
     (item, r) \<leftarrow> read_slot r;
     pl \<leftarrow> gm_players g p;
     if (case pl_openw pl of Some w \<Rightarrow> w_wid w \<noteq> wid | None \<Rightarrow> wid \<noteq> 0)
     then upd_conn a request_disconnect g else Some g }"

definition handle_p10 :: "nat \<Rightarrow> nat \<Rightarrow> packet_reader \<Rightarrow> 'p game \<Rightarrow> 'p game option" where
  "handle_p10 a p r g = do {
     (slot, r) \<leftarrow> pr_read_short r;
     (item, r) \<leftarrow> read_slot r;
     if sint slot < 1 \<or> sint slot > 44 then upd_conn a request_disconnect g
     else do {
       pl \<leftarrow> gm_players g p;
       inv \<leftarrow> window_set (unat slot) (if si_id item = EMPTY_SLOT_VALUE then None else Some item) (pl_inv pl);
       upd_player p (\<lambda>pl. pl\<lparr>pl_inv := inv\<rparr>) g } }"

subsection \<open>Dispatch\<close>

text \<open>Entries of the tables that are not listed are the dummy handler.\<close>

definition play_table :: "'p server_env \<Rightarrow> nat \<Rightarrow> nat \<Rightarrow> u32 \<Rightarrow> packet_reader \<Rightarrow> 'p game \<Rightarrow> 'p game option option" where
  "play_table env a p opc r g =
     (if opc = 0x00 then Some (handle_p00 p r g)
      else if opc = 0x01 then Some (handle_p01 a p r g)
      else if opc = 0x03 then Some (handle_p03 p r g)
      else if opc = 0x04 then Some (handle_p04 p r g)
      else if opc = 0x05 then Some (handle_p05 p r g)
      else if opc = 0x06 then Some (handle_p06 p r g)
      else if opc = 0x07 then handle_p07 (se_ops env) p r g
      else if opc = 0x08 then handle_p08 (se_ops env) p r g
      else if opc = 0x09 then Some (handle_p09 a p r g)
      else if opc = 0x0D then Some (handle_p0d a p r g)
      else if opc = 0x0E then Some (handle_p0e a p r g)
      else if opc = 0x10 then Some (handle_p10 a p r g)
      else Some (Some g))"

text \<open>An opcode below zero indexes in front of the table.\<close>

definition dispatch :: "'p server_env \<Rightarrow> byte list \<Rightarrow> nat \<Rightarrow> u32 \<Rightarrow> packet_reader \<Rightarrow> 'p game \<Rightarrow> 'p game option option" where
  "dispatch env rnd a opc r g = (case gm_conns g a of
     None \<Rightarrow> Some None
   | Some c \<Rightarrow>
       (let top = (case hs_state c of PS_HANDSHAKE \<Rightarrow> 0 | PS_STATUS \<Rightarrow> 1 | PS_LOGIN \<Rightarrow> 1 | PS_PLAY \<Rightarrow> 0x19)
        in if sint opc > top then Some (upd_conn a request_disconnect g)
           else if sint opc < 0 then Some None
           else (case hs_state c of
               PS_HANDSHAKE \<Rightarrow> Some (handle_h00 a r g)
             | PS_STATUS \<Rightarrow> Some (if opc = 0 then handle_s00 env a g else handle_s01 a r g)
             | PS_LOGIN \<Rightarrow> Some (if opc = 0 then handle_l00 env rnd a r g else handle_l01 env a r g)
             | PS_PLAY \<Rightarrow> (case hs_pl c of
                 None \<Rightarrow> Some None
               | Some p \<Rightarrow> play_table env a p opc r g))))"

definition mc18_handle :: "'p server_env \<Rightarrow> byte list \<Rightarrow> nat \<Rightarrow> packet_reader \<Rightarrow> 'p game \<Rightarrow> 'p game option option" where
  "mc18_handle env rnd a r g = (case do {
       (len, r) \<leftarrow> pr_read_varint r;
       (opc, r) \<leftarrow> pr_read_varint r;
       Some (opc, r) } of
     None \<Rightarrow> Some None
   | Some (opc, r) \<Rightarrow> dispatch env rnd a opc r g)"

text \<open>The handler of a connection: the protocol is inferred from its first packet.\<close>

definition conn_handle :: "'p server_env \<Rightarrow> byte list \<Rightarrow> nat \<Rightarrow> packet_reader \<Rightarrow> 'p game \<Rightarrow> 'p game option option" where
  "conn_handle env rnd a r g = (case gm_conns g a of
     None \<Rightarrow> Some None
   | Some c \<Rightarrow>
       if cv_inferred c then mc18_handle env rnd a r g
       else (case infer_handle r of
           None \<Rightarrow> Some None
         | Some None \<Rightarrow> Some (upd_conn a request_disconnect g)
         | Some (Some name) \<Rightarrow>
             Option.bind (Some (upd_conn a (\<lambda>c. c\<lparr>cv_inferred := True\<rparr>) g)) (\<lambda>g. case g of
               None \<Rightarrow> Some None
             | Some g \<Rightarrow> mc18_handle env rnd a (pr_rewind r) g)))"

subsection \<open>The end of a connection\<close>

text \<open>\<open>connection::disconnect_\<close>, when the timer finds the request.\<close>

definition disconnect_conn :: "nat \<Rightarrow> 'p game \<Rightarrow> 'p game option" where
  "disconnect_conn a g = do {
     c \<leftarrow> gm_conns g a;
     if cv_disconnected c then Some g
     else do {
       g \<leftarrow> handler_disconnect a g;
       g \<leftarrow> upd_conn a (\<lambda>c. c\<lparr>cv_disconnected := True\<rparr>) g;
       Some (server_disconnect_connection a g) } }"

text \<open>\<open>delete conn\<close> destroys the handler, which destroys its player.\<close>

definition connection_destroy :: "nat \<Rightarrow> 'p game \<Rightarrow> 'p game option" where
  "connection_destroy a g = do {
     g \<leftarrow> upd_conn a request_disconnect g;
     c \<leftarrow> gm_conns g a;
     g \<leftarrow> (case hs_pl c of None \<Rightarrow> Some g | Some p \<Rightarrow> player_destroy p g);
     Some (g\<lparr>gm_conns := (gm_conns g)(a := None)\<rparr>) }"

text \<open>\<open>busy\<close> are the players whose reference counter is not zero.\<close>

definition clean_gray :: "(nat \<Rightarrow> bool) \<Rightarrow> 'p game \<Rightarrow> 'p game option" where
  "clean_gray busy g =
     (let keep = (\<lambda>a. case gm_conns g a of None \<Rightarrow> False | Some c \<Rightarrow>
            (case cv_player c of None \<Rightarrow> False | Some p \<Rightarrow> busy p))
      in map_option (\<lambda>g'. g'\<lparr>gm_gray := filter keep (gm_gray g)\<rparr>)
           (put_all connection_destroy (filter (\<lambda>a. \<not> keep a) (gm_gray g)) g))"

end
