(* ===== verification/Session.thy ===== *)
theory Session
  imports Handler
begin

text \<open>
  The running server: what happens to it, one atomic event after another. A packet, the answer of
  a web service, a job of the chunk generators, a timer of a connection and the tasks of the
  scheduler (\<open>src/system/server.cpp\<close>) are the events; the order in which the threads run them is
  left open. The second half is a method for invariants: a locale states what an invariant has to
  promise about the few primitive changes, and the operations of players and handlers keep it.
\<close>

subsection \<open>Events\<close>

text \<open>The server once \<open>start\<close> is through, with its main world: \<open>init_crypt\<close> sets the UUID manager's mode.\<close>

definition server_boot :: "configuration \<Rightarrow> 'p world \<Rightarrow> 'p game" where
  "server_boot cfg mw =
     \<lparr>gm_cfg = cfg, gm_conns = Map.empty, gm_players = Map.empty, gm_worlds = [0 \<mapsto> mw],
      gm_gens = (\<lambda>_. \<lparr>ag_next_tok = 1, ag_toks = []\<rparr>), gm_jobs = [], gm_conn_list = [], gm_gray = [], gm_online = [],
      gm_auths = [], gm_uuid_jobs = [], gm_uuid_cache = [], gm_uman_online = cfg_online cfg, gm_main_world = 0,
      gm_next_pl = 0, gm_next_conn = 0, gm_next_eid = 0\<rparr>"

definition on_accept :: "'p game \<Rightarrow> 'p game" where
  "on_accept g = g\<lparr>gm_conns := (gm_conns g)(gm_next_conn g \<mapsto> connection_new),
     gm_conn_list := gm_conn_list g @ [gm_next_conn g], gm_next_conn := Suc (gm_next_conn g)\<rparr>"

definition conn_timer :: "nat \<Rightarrow> 'p game \<Rightarrow> 'p game option" where
  "conn_timer a g = Option.bind (gm_conns g a) (\<lambda>c. if cv_disconnect_req c then disconnect_conn a g else Some g)"

text \<open>
  \<open>Packet\<close> has the connection, the random bytes for a token and the packet; \<open>Prefetched\<close> is the
  answer to the request that \<open>last_init\<close> makes; \<open>Light\<close> is one item of the lighting thread; \<open>Keep_alives\<close>
  and \<open>Clean\<close> are the two tasks.
\<close>

datatype game_event =
    Accept
  | Packet nat "byte list" "byte list"
  | Auth_result nat "byte list" "byte list" bool
  | Uuid_result nat "byte list" "byte list option"
  | Prefetched "byte list" uuid
  | Run_job
  | Light nat
  | Keep_alives "nat \<Rightarrow> u32"
  | Hang_up nat
  | Timer nat
  | Clean "nat \<Rightarrow> bool"

fun enabled :: "game_event \<Rightarrow> 'p game \<Rightarrow> bool" where
  "enabled (Packet a rnd bs) g \<longleftrightarrow> (case gm_conns g a of None \<Rightarrow> False | Some c \<Rightarrow> \<not> cv_disconnected c)"
| "enabled (Auth_result a name ssec succ) g \<longleftrightarrow> (a, name, ssec) \<in> set (gm_auths g)"
| "enabled (Uuid_result a name resp) g \<longleftrightarrow> (a, name) \<in> set (gm_uuid_jobs g)"
| "enabled Run_job g \<longleftrightarrow> gm_jobs g \<noteq> []"
| "enabled (Light wa) g \<longleftrightarrow> (case gm_worlds g wa of None \<Rightarrow> False | Some w \<Rightarrow> w_updates w \<noteq> [])"
| "enabled _ g \<longleftrightarrow> True"

fun game_step :: "'p server_env \<Rightarrow> game_event \<Rightarrow> 'p game \<Rightarrow> 'p game option option" where
  "game_step env Accept g = Some (Some (on_accept g))"
| "game_step env (Packet a rnd bs) g = conn_handle env rnd a (packet_reader_init bs) g"
| "game_step env (Auth_result a name ssec succ) g =
     Some (auth_cb env a succ (g\<lparr>gm_auths := remove1 (a, name, ssec) (gm_auths g)\<rparr>))"
| "game_step env (Uuid_result a name resp) g =
     Some (uuid_worker env a name resp (g\<lparr>gm_uuid_jobs := remove1 (a, name) (gm_uuid_jobs g)\<rparr>))"
| "game_step env (Prefetched name u) g = Some (Some (uman_insert name u g))"
| "game_step env Run_job g = Some (gen_func (se_ops env) (hd (gm_jobs g)) (g\<lparr>gm_jobs := tl (gm_jobs g)\<rparr>))"
| "game_step env (Light wa) g = change_block wa process_update g"
| "game_step env (Keep_alives rnd) g = Some (keep_alive_task rnd g)"
| "game_step env (Hang_up a) g = Some (upd_conn a request_disconnect g)"
| "game_step env (Timer a) g = Some (conn_timer a g)"
| "game_step env (Clean busy) g = Some (clean_gray busy g)"

text \<open>A run without a crash, with its events; and the game it ends in, if there is one.\<close>

inductive runs_to :: "'p server_env \<Rightarrow> 'p game \<Rightarrow> game_event list \<Rightarrow> 'p game \<Rightarrow> bool" for env g0 where
  start: "runs_to env g0 [] g0"
| event: "runs_to env g0 evs g \<Longrightarrow> enabled ev g \<Longrightarrow> game_step env ev g = Some (Some g') \<Longrightarrow> runs_to env g0 (evs @ [ev]) g'"

fun run_events :: "'p server_env \<Rightarrow> game_event list \<Rightarrow> 'p game \<Rightarrow> 'p game option" where
  "run_events env [] g = Some g"
| "run_events env (ev # evs) g = (if enabled ev g then (case game_step env ev g of
     Some (Some g') \<Rightarrow> run_events env evs g' | _ \<Rightarrow> None) else None)"

lemma run_events_from: "runs_to env g0 evs0 g \<Longrightarrow> run_events env evs g = Some g' \<Longrightarrow> runs_to env g0 (evs0 @ evs) g'"
proof (induction evs arbitrary: g evs0)
  case (Cons ev evs)
  then obtain g1 where "enabled ev g" "game_step env ev g = Some (Some g1)" "run_events env evs g1 = Some g'"
    by (auto split: if_splits option.splits)
  with Cons.IH [OF runs_to.event [OF Cons.prems(1)]] show ?case by simp
qed simp

lemma run_events_runs: "run_events env evs g0 = Some g \<Longrightarrow> runs_to env g0 evs g"
  using run_events_from [OF runs_to.start] by simp

subsection \<open>Keeping an invariant\<close>

definition keeps :: "('s \<Rightarrow> bool) \<Rightarrow> ('s \<Rightarrow> 's option) \<Rightarrow> bool" where
  "keeps P f \<longleftrightarrow> (\<forall>s s'. P s \<longrightarrow> f s = Some s' \<longrightarrow> P s')"

named_theorems keeps_intros \<open>how an operation keeps an invariant\<close>

lemma keepsI: "(\<And>s s'. P s \<Longrightarrow> f s = Some s' \<Longrightarrow> P s') \<Longrightarrow> keeps P f"
  by (simp add: keeps_def)

lemma keepsD: "keeps P f \<Longrightarrow> f s = Some s' \<Longrightarrow> P s \<Longrightarrow> P s'"
  by (simp add: keeps_def)

lemma keeps_Some [keeps_intros]: "keeps P Some" "keeps P (\<lambda>s. Some s)" "keeps P (\<lambda>s. None)"
  by (simp_all add: keeps_def)

lemma keeps_then [keeps_intros]: "keeps P f \<Longrightarrow> keeps P h \<Longrightarrow> keeps P (\<lambda>s. Option.bind (f s) h)"
  by (rule keepsI) (metis bind_eq_Some_conv keepsD)

lemma keeps_read [keeps_intros]: "(\<And>x. keeps P (F x)) \<Longrightarrow> keeps P (\<lambda>s. Option.bind (r s) (\<lambda>x. F x s))"
  by (rule keepsI) (metis bind_eq_Some_conv keepsD)

lemma keeps_if [keeps_intros]: "keeps P f \<Longrightarrow> keeps P h \<Longrightarrow> keeps P (\<lambda>s. if b s then f s else h s)"
  by (rule keepsI) (metis keepsD)

lemma keeps_case_option [keeps_intros]:
  "keeps P f \<Longrightarrow> (\<And>x. keeps P (F x)) \<Longrightarrow> keeps P (\<lambda>s. case r s of None \<Rightarrow> f s | Some x \<Rightarrow> F x s)"
  by (rule keepsI) (metis (no_types, lifting) keepsD option.case_eq_if)

lemma keeps_case_prod [keeps_intros]:
  "(\<And>x y. keeps P (F x y)) \<Longrightarrow> keeps P (\<lambda>s. case r s of (x, y) \<Rightarrow> F x y s)"
  by (rule keepsI) (metis keepsD prod.case_eq_if)

lemma keeps_let [keeps_intros]: "(\<And>x. keeps P (F x)) \<Longrightarrow> keeps P (\<lambda>s. let x = r s in F x s)"
  by (rule keepsI) (metis keepsD)

lemma keeps_apply: "(\<And>t. keeps P (F t)) \<Longrightarrow> keeps P (\<lambda>s. F (r s) s)"
  by (rule keepsI) (metis keepsD)

lemma keeps_put_all [keeps_intros]: "(\<And>x. keeps P (f x)) \<Longrightarrow> keeps P (put_all f xs)"
proof (induction xs)
  case (Cons x xs)
  have "keeps P (\<lambda>s. Option.bind (f x s) (put_all f xs))"
    by (rule keeps_then [OF Cons.prems Cons.IH [OF Cons.prems]])
  then show ?case by (simp add: keeps_def)
qed (simp add: keeps_def)

lemma keeps_put_all_read [keeps_intros]: "(\<And>t x. keeps P (f t x)) \<Longrightarrow> keeps P (\<lambda>s. put_all (f (t s)) (xs s) s)"
  by (rule keepsI) (metis keeps_put_all keepsD)

text \<open>The same for a state that is known to satisfy more than the invariant.\<close>

definition leads :: "('s \<Rightarrow> bool) \<Rightarrow> ('s \<Rightarrow> 's option) \<Rightarrow> ('s \<Rightarrow> bool) \<Rightarrow> bool" where
  "leads Q f P \<longleftrightarrow> (\<forall>s s'. Q s \<longrightarrow> f s = Some s' \<longrightarrow> P s')"

named_theorems leads_intros \<open>how an operation leads from one condition to another\<close>

lemma leadsI: "(\<And>s s'. Q s \<Longrightarrow> f s = Some s' \<Longrightarrow> P s') \<Longrightarrow> leads Q f P"
  by (simp add: leads_def)

lemma leadsD: "leads Q f P \<Longrightarrow> f s = Some s' \<Longrightarrow> Q s \<Longrightarrow> P s'"
  by (simp add: leads_def)

lemma leads_keeps: "keeps P f \<Longrightarrow> (\<And>s. Q s \<Longrightarrow> P s) \<Longrightarrow> leads Q f P"
  by (rule leadsI) (metis keepsD)

lemma leads_then: "leads Q f R \<Longrightarrow> leads R h P \<Longrightarrow> leads Q (\<lambda>s. Option.bind (f s) h) P"
proof (rule leadsI)
  fix s s' assume a: "leads Q f R" "leads R h P" "Q s" "Option.bind (f s) h = Some s'"
  then obtain t where "f s = Some t" "h t = Some s'" by (cases "f s") simp_all
  with a leadsD [OF a(1)] leadsD [OF a(2)] show "P s'" by blast
qed

lemma leads_read [leads_intros]: "(\<And>x. leads Q (F x) P) \<Longrightarrow> leads Q (\<lambda>s. Option.bind (r s) (\<lambda>x. F x s)) P"
proof (rule leadsI)
  fix s s' assume a: "\<And>x. leads Q (F x) P" "Q s" "Option.bind (r s) (\<lambda>x. F x s) = Some s'"
  then obtain x where "F x s = Some s'" by (cases "r s") simp_all
  with leadsD [OF a(1)] a(2) show "P s'" by blast
qed

lemma leads_if [leads_intros]: "leads Q f P \<Longrightarrow> leads Q h P \<Longrightarrow> leads Q (\<lambda>s. if b s then f s else h s) P"
  by (rule leadsI) (metis leadsD)

lemma leads_case_option [leads_intros]:
  "leads Q f P \<Longrightarrow> (\<And>x. leads Q (F x) P) \<Longrightarrow> leads Q (\<lambda>s. case r s of None \<Rightarrow> f s | Some x \<Rightarrow> F x s) P"
  by (rule leadsI) (metis (no_types, lifting) leadsD option.case_eq_if)

lemma leads_case_prod [leads_intros]:
  "(\<And>x y. leads Q (F x y) P) \<Longrightarrow> leads Q (\<lambda>s. case r s of (x, y) \<Rightarrow> F x y s) P"
  by (rule leadsI) (metis leadsD prod.case_eq_if)

end
