(* ===== verification/Invariants.thy ===== *)
theory Invariants
  imports Session
begin

text \<open>
  A method for invariants of the running server: a locale states what an invariant has to promise
  about the few primitive changes of the state, and every operation of the players and of the
  packet handler keeps it. Two locales extend it, to packets and to all events.
\<close>

subsection \<open>The primitive changes\<close>

text \<open>Messages that change which chunks the client holds; the rest of a player that streaming relies on.\<close>

fun map_msg :: "client_msg \<Rightarrow> bool" where
  "map_msg (Chunk_data _ _ _ _ _) = True"
| "map_msg (Unload_chunk _ _) = True"
| "map_msg _ = False"

definition carries :: "player \<Rightarrow> bool" where
  "carries pl \<longleftrightarrow> length (w_slots (pl_inv pl)) = 45 \<and> pl_cur_slot pl \<le> 8"

definition same_player :: "player \<Rightarrow> player \<Rightarrow> bool" where
  "same_player pl pl' \<longleftrightarrow> pl_conn pl' = pl_conn pl \<and> pl_vis pl' = pl_vis pl \<and> pl_name pl' = pl_name pl \<and>
     (carries pl \<longrightarrow> carries pl')"

text \<open>A chunk and the note that the client has it go together.\<close>

definition send_chunk :: "nat \<Rightarrow> u32 \<Rightarrow> u32 \<Rightarrow> chunk \<Rightarrow> 'p game \<Rightarrow> 'p game option" where
  "send_chunk p x z c g = Option.bind (send_to p (Chunk_data x z True (section_mask c) c) False g)
     (upd_player p (\<lambda>pl. pl\<lparr>pl_vis := set_emplace (chunk_pos_make x z) (pl_vis pl)\<rparr>))"

locale game_invariant =
  fixes ops :: "'p provider_ops" and P :: "'p game \<Rightarrow> bool" and mild :: "'p world \<Rightarrow> 'p world \<Rightarrow> bool"
  assumes send: "\<not> map_msg m \<Longrightarrow> keeps P (upd_conn a (conn_send m d))"
    and disconnect: "keeps P (upd_conn a request_disconnect)"
    and player: "P g \<Longrightarrow> gm_players g p = Some pl \<Longrightarrow> same_player pl pl' \<Longrightarrow> P (g\<lparr>gm_players := (gm_players g)(p \<mapsto> pl')\<rparr>)"
    and chunk_sent: "keeps P (send_chunk p x z c)"
    and chunk_unloaded: "keeps P (unload_chunk p cp)"
    and world: "P g \<Longrightarrow> gm_worlds g wa = Some w \<Longrightarrow> mild w w' \<Longrightarrow> P (g\<lparr>gm_worlds := (gm_worlds g)(wa \<mapsto> w')\<rparr>)"
    and generators: "P g \<Longrightarrow> P (g\<lparr>gm_gens := gens\<rparr>)"
    and jobs: "P g \<Longrightarrow> P (g\<lparr>gm_jobs := js\<rparr>)"
    and mild_entities: "w_heap w ch = Some c \<Longrightarrow> mild w (w\<lparr>w_heap := (w_heap w)(ch \<mapsto> c\<lparr>ch_ents := es\<rparr>)\<rparr>)"
    and mild_players: "mild w (add_player p w)" "mild w (remove_player p w)"
    and mild_load: "load_chunk ops x z w = Some (ch, w') \<Longrightarrow> mild w w'"
begin

lemma player_keeps: "(\<And>pl. same_player pl (f pl)) \<Longrightarrow> keeps P (upd_player p f)"
  by (rule keepsI) (use player in \<open>auto simp: upd_player_def\<close>)

lemma send_to_keeps [keeps_intros]: "\<not> map_msg m \<Longrightarrow> keeps P (send_to p m d)"
  unfolding send_to_def by (intro keeps_read send)

lemma exchange_keeps [keeps_intros]: "keeps P (exchange_list_entries p q)"
  unfolding exchange_list_entries_def by (intro keeps_intros) simp_all

lemma spawn_to_keeps [keeps_intros]: "keeps P (spawn_to p q)"
  unfolding spawn_to_def Let_def by (intro keeps_intros) simp_all

lemma show_keeps [keeps_intros]: "keeps P (show_entities p wa cp)"
  unfolding show_entities_def by (intro keeps_intros)

lemma upd_world_keeps:
  assumes "\<And>w w'. f w = Some w' \<Longrightarrow> mild w w'" shows "keeps P (upd_world wa f)"
proof (rule keepsI)
  fix g g' assume g: "P g" "upd_world wa f g = Some g'"
  then obtain w w' where "gm_worlds g wa = Some w" "f w = Some w'" "g' = g\<lparr>gm_worlds := (gm_worlds g)(wa \<mapsto> w')\<rparr>"
    by (auto simp: upd_world_def bind_eq_Some_conv)
  with world [OF g(1)] assms show "P g'" by simp
qed

lemma register_keeps [keeps_intros]: "keeps P (upd_world wa (upd_chunk ch (Some \<circ> register_entity p)))"
    "keeps P (upd_world wa (upd_chunk ch (Some \<circ> deregister_entity p)))"
    "keeps P (upd_world wa (Some \<circ> add_player p))" "keeps P (upd_world wa (Some \<circ> remove_player p))"
  by (rule upd_world_keeps, auto simp: upd_chunk_def bind_eq_Some_conv register_entity_def deregister_entity_def
    intro: mild_entities mild_players)+

lemma same_player_simps [simp]: "same_player pl (pl\<lparr>pl_ent := e\<rparr>)" "same_player pl (pl\<lparr>pl_ka_expecting := b\<rparr>)"
    "same_player pl (pl\<lparr>pl_gm := gm\<rparr>)" "same_player pl (pl\<lparr>pl_openw := win\<rparr>)" "same_player pl (pl\<lparr>pl_pos := pos\<rparr>)"
    "same_player pl (pl\<lparr>pl_last_cp := cp\<rparr>)" "same_player pl pl"
    "same_player pl (pl\<lparr>pl_ka_id := i, pl_ka_expecting := b\<rparr>)"
    "same_player pl (pl\<lparr>pl_spawned := b, pl_pos := pos, pl_last_cp := cp\<rparr>)"
    "same_player pl (pl\<lparr>pl_w := w, pl_spawned := b, pl_spawn_pos := pos, pl_pos := pos', pl_gen_tok := tok\<rparr>)"
  by (simp_all add: same_player_def carries_def)

lemma entity_keeps [keeps_intros]: "keeps P (entity_spawn p wa pos)" "keeps P (entity_despawn p)" "keeps P (entity_move p pos)"
  unfolding entity_spawn_def entity_despawn_def entity_move_def Let_def
  by (intro keeps_intros player_keeps; simp)+

lemma player_entity_keeps [keeps_intros]: "keeps P (player_entity_spawn p wa pos)" "keeps P (player_entity_despawn p)"
  unfolding player_entity_spawn_def player_entity_despawn_def
  by (intro keeps_intros; simp)+

lemma token_keeps: "P g \<Longrightarrow> P (free_token wa t g)" "P g \<Longrightarrow> P (snd (make_token wa g))"
  using generators by (simp_all add: free_token_def make_token_def Let_def)

lemma generate_keeps: "P g \<Longrightarrow> generate wa t x z p g = Some (ch, g') \<Longrightarrow> P g'"
  using jobs by (auto simp: generate_def bind_eq_Some_conv split: if_splits option.splits)

lemma chunk_loaded_keeps [keeps_intros]: "keeps P (on_chunk_loaded p wa ch x z)"
proof -
  have eq: "on_chunk_loaded p wa ch x z = (\<lambda>g. do {
     conn \<leftarrow> conn_of p g;
     if cv_disconnected conn then Some g else do {
       w \<leftarrow> gm_worlds g wa;
       c \<leftarrow> w_heap w ch;
       g \<leftarrow> send_chunk p x z c g;
       pl \<leftarrow> gm_players g p;
       if pl_spawned pl then Some g else do {
         scp \<leftarrow> chunk_pos_of_entity (pl_spawn_pos pl);
         if \<not> chunk_pos_eq (chunk_pos_make x z) scp then Some g else do {
           g \<leftarrow> upd_player p (\<lambda>pl. pl\<lparr>pl_spawned := True, pl_pos := pl_spawn_pos pl, pl_last_cp := scp\<rparr>) g;
           bpos \<leftarrow> block_pos_of_entity (pl_spawn_pos pl);
           g \<leftarrow> send_to p (Spawn_position (bp_x bpos) (bp_y bpos) (bp_z bpos)) False g;
           let pos = pl_spawn_pos pl;
           g \<leftarrow> send_to p (Position_and_look (ep_x pos) (ep_y pos) (ep_z pos) (ep_yaw pos) (ep_pitch pos) 0) False g;
           my_w \<leftarrow> pl_w pl;
           player_entity_spawn p my_w pos g } } } })"
    unfolding on_chunk_loaded_def send_chunk_def Option.bind_assoc by (rule refl)
  show ?thesis unfolding eq Let_def by (intro keeps_intros chunk_sent player_keeps; simp)
qed

lemma request_keeps [keeps_intros]: "keeps P (request_chunk p cp)"
proof (rule keepsI)
  fix g g' assume g: "P g" "request_chunk p cp g = Some g'"
  show "P g'"
  proof (cases "\<exists>pl. gm_players g p = Some pl \<and> cp \<in> set (pl_vis pl)")
    case False
    with g(2) obtain pl where pl: "gm_players g p = Some pl" "cp \<notin> set (pl_vis pl)"
      by (cases "gm_players g p") (simp_all add: request_chunk_def)
    with g(2) obtain wa where wa: "pl_w pl = Some wa" by (cases "pl_w pl") (simp_all add: request_chunk_def)
    with g(2) pl obtain ch g1 where 1: "generate wa (pl_gen_tok pl) (cp_x cp) (cp_z cp) p g = Some (ch, g1)"
      by (cases "generate wa (pl_gen_tok pl) (cp_x cp) (cp_z cp) p g") (auto simp: request_chunk_def)
    have 2: "(case ch of None \<Rightarrow> Some g1 | Some ch \<Rightarrow> on_chunk_loaded p wa ch (cp_x cp) (cp_z cp) g1) = Some g'"
      using g(2) pl wa 1 by (simp add: request_chunk_def)
    from generate_keeps [OF g(1) 1(1)] have "P g1" .
    then show ?thesis using 2 keepsD [OF chunk_loaded_keeps] by (cases ch) auto
  qed (use g in \<open>auto simp: request_chunk_def\<close>)
qed

lemma stream_keeps [keeps_intros]: "keeps P (stream_chunks p)"
  unfolding stream_chunks_def by (intro keeps_intros chunk_unloaded)

lemma job_keeps: "keeps P (gen_func ops j)"
proof (rule keepsI)
  fix g g' assume g: "P g" "gen_func ops j g = Some g'"
  then obtain w ch w' where w: "gm_worlds g (gj_world j) = Some w" "load_chunk ops (gj_x j) (gj_z j) w = Some (ch, w')"
    by (auto simp: gen_func_def bind_eq_Some_conv split: if_splits)
  let ?g = "g\<lparr>gm_worlds := (gm_worlds g)(gj_world j \<mapsto> w')\<rparr>"
  have "P ?g" using world [OF g(1) w(1)] mild_load [OF w(2)] by simp
  moreover have "?g = g' \<or> on_chunk_loaded (gj_pl j) (gj_world j) ch (gj_x j) (gj_z j) ?g = Some g'"
    using g(2) w by (auto simp: gen_func_def bind_eq_Some_conv Let_def split: if_splits)
  ultimately show "P g'" using keepsD [OF chunk_loaded_keeps] by blast
qed

lemma join_keeps [keeps_intros]: "keeps P (join_world p wa pos)"
proof -
  have free: "keeps P (\<lambda>g. upd_world prev (Some \<circ> remove_player p) (free_token prev t g))" for prev t
    by (rule keepsI) (use keepsD [OF register_keeps(4)] token_keeps(1) in blast)
  have tok: "keeps P (\<lambda>g. let (tok, g) = make_token wa g in do {
      g \<leftarrow> upd_player p (\<lambda>pl. pl\<lparr>pl_w := Some wa, pl_spawned := False, pl_spawn_pos := pos, pl_pos := pos, pl_gen_tok := tok\<rparr>) g;
      stream_chunks p g })"
  proof (rule keepsI)
    fix g g'
    define f :: "int \<Rightarrow> 'p game \<Rightarrow> 'p game option" where "f t = (\<lambda>g. do {
      g \<leftarrow> upd_player p (\<lambda>pl. pl\<lparr>pl_w := Some wa, pl_spawned := False, pl_spawn_pos := pos, pl_pos := pos, pl_gen_tok := t\<rparr>) g;
      stream_chunks p g })" for t
    have f: "keeps P (f t)" for t unfolding f_def by (intro keeps_intros player_keeps) simp
    assume "P g" and "(let (tok, g) = make_token wa g in do {
      g \<leftarrow> upd_player p (\<lambda>pl. pl\<lparr>pl_w := Some wa, pl_spawned := False, pl_spawn_pos := pos, pl_pos := pos, pl_gen_tok := tok\<rparr>) g;
      stream_chunks p g }) = Some g'"
    then have "f (fst (make_token wa g)) (snd (make_token wa g)) = Some g'" by (simp add: f_def split_beta)
    with keepsD [OF f] token_keeps(2) \<open>P g\<close> show "P g'" by blast
  qed
  show ?thesis unfolding join_world_def by (intro keeps_intros free tok)
qed

lemmas join_read_keeps [keeps_intros] = keeps_apply [where F = "\<lambda>wa. join_world p wa pos" for p pos, OF join_keeps]

lemma player_ops_keep [keeps_intros]:
  "keeps P (kick p msg)" "keeps P (message p msg)" "keeps P (disconnect_player p)" "keeps P (send_keep_alive r p)"
  "keeps P (handle_keep_alive p i)" "keeps P (set_gm p gm)" "keeps P (open_window p win)" "keeps P (close_window p)"
  "keeps P (on_login p)" "keeps P (on_move p pos)" "keeps P (keep_alive_task rnd)"
proof -
  note defs = kick_def message_def disconnect_player_def send_keep_alive_def handle_keep_alive_def set_gm_def
    open_window_def close_window_def
  show basic: "keeps P (kick p msg)" "keeps P (message p msg)" "keeps P (disconnect_player p)" "keeps P (send_keep_alive r p)"
    "keeps P (handle_keep_alive p i)" "keeps P (set_gm p gm)" "keeps P (open_window p win)" "keeps P (close_window p)"
    for p msg r i gm win
    unfolding defs by (intro keeps_intros player_keeps disconnect; simp)+
  show "keeps P (on_login p)" unfolding on_login_def by (intro keeps_intros basic)
  show "keeps P (on_move p pos)" unfolding on_move_def by (intro keeps_intros player_keeps) simp_all
  show "keeps P (keep_alive_task rnd)" unfolding keep_alive_task_def by (intro keeps_intros basic)
qed

text \<open>A player that is destroyed leaves its world first.\<close>

lemma destroy_leaves:
  assumes "P g" "player_destroy p g = Some g'"
  shows "\<exists>g1. P g1 \<and> g' = g1\<lparr>gm_players := (gm_players g1)(p := None)\<rparr>"
proof -
  define leave :: "'p game \<Rightarrow> 'p game option" where "leave g = do {
     pl \<leftarrow> gm_players g p;
     (case pl_w pl of
         None \<Rightarrow> Some g
       | Some wa \<Rightarrow> do {
           g \<leftarrow> player_entity_despawn p g;
           upd_world wa (Some \<circ> remove_player p) (free_token wa (pl_gen_tok pl) g) }) }" for g
  have free: "keeps P (\<lambda>g. upd_world wa (Some \<circ> remove_player p) (free_token wa t g))" for wa t
    by (rule keepsI) (use keepsD [OF register_keeps(4)] token_keeps(1) in blast)
  have "keeps P leave" unfolding leave_def by (intro keeps_intros free)
  moreover have "player_destroy p g = map_option (\<lambda>g. g\<lparr>gm_players := (gm_players g)(p := None)\<rparr>) (leave g)"
    by (simp add: player_destroy_def leave_def map_conv_bind_option Option.bind_assoc comp_def)
  ultimately show ?thesis using assms keepsD [of P leave] by (cases "leave g") auto
qed

lemma command_keeps [keeps_intros]: "keeps P (command_execute cmd p args)"
proof -
  have eq: "command_execute cmd p args = message p (section_sign @ str_bytes ''aCheck again in the future!'')"
    by (rule ext) (cases cmd; simp)
  show ?thesis unfolding eq by (rule player_ops_keep)
qed

lemma chat_keeps [keeps_intros]: "keeps P (handle_command p msg)" "keeps P (on_chat p msg)"
proof -
  show c: "keeps P (handle_command p msg)"
    unfolding handle_command_def Let_def by (cases "split_command (tl msg)") (simp split: option.split, intro conjI impI allI keeps_intros)
  show "keeps P (on_chat p msg)" unfolding on_chat_def by (intro keeps_intros c)
qed

end

subsection \<open>Packets\<close>

text \<open>What may change about a connection before its player exists.\<close>

definition prelude_step :: "conn_view \<Rightarrow> conn_view \<Rightarrow> bool" where
  "prelude_step c c' \<longleftrightarrow> hs_state c \<noteq> PS_PLAY \<and> hs_state c' \<noteq> PS_PLAY \<and> hs_pl c' = hs_pl c \<and> cv_player c' = cv_player c \<and>
     cv_out c' = cv_out c \<and> cv_can_send c' = cv_can_send c \<and> cv_disconnected c' = cv_disconnected c \<and>
     cv_disconnect_req c' = cv_disconnect_req c"

locale session_invariant = game_invariant "se_ops env" P mild
  for env :: "'p server_env" and P :: "'p game \<Rightarrow> bool" and mild +
  assumes online: "P g \<Longrightarrow> P (g\<lparr>gm_online := ps\<rparr>)"
    and prelude: "P g \<Longrightarrow> gm_conns g a = Some c \<Longrightarrow> prelude_step c c' \<Longrightarrow> P (g\<lparr>gm_conns := (gm_conns g)(a \<mapsto> c')\<rparr>)"
    and login: "P g \<Longrightarrow> gm_conns g a = Some c \<Longrightarrow> hs_state c = PS_LOGIN \<Longrightarrow> \<not> cfg_encryption (gm_cfg g) \<Longrightarrow>
      handler_login env a g = Some g' \<Longrightarrow> P g'"
    and inferred: "P g \<Longrightarrow> gm_conns g a = Some c \<Longrightarrow> P (g\<lparr>gm_conns := (gm_conns g)(a \<mapsto> c\<lparr>cv_inferred := True\<rparr>)\<rparr>)"
    and secret: "P g \<Longrightarrow> gm_conns g a = Some c \<Longrightarrow> hs_state c = PS_LOGIN \<Longrightarrow> accept_secret env a ssec g = Some g' \<Longrightarrow> P g'"
begin

lemma prelude_upd:
  "P g \<Longrightarrow> upd_conn a f g = Some g' \<Longrightarrow> (\<And>c. gm_conns g a = Some c \<Longrightarrow> prelude_step c (f c)) \<Longrightarrow> P g'"
  by (auto simp: upd_conn_def intro: prelude)

lemma handler_disconnect_keeps [keeps_intros]: "keeps P (handler_disconnect a)"
  by (rule keepsI) (auto simp: handler_disconnect_def deregister_player_def intro: online split: option.splits)

text \<open>The invariant, and a connection that has come to a given state.\<close>

definition at_state :: "nat \<Rightarrow> protocol_state \<Rightarrow> 'p game \<Rightarrow> bool" where
  "at_state a st g \<longleftrightarrow> P g \<and> (\<exists>c. gm_conns g a = Some c \<and> hs_state c = st)"

lemma at_state_leads: "keeps P f \<Longrightarrow> leads (at_state a st) f P"
  by (rule leads_keeps) (simp_all add: at_state_def)

lemma prelude_leads:
  assumes "st \<noteq> PS_PLAY" "\<And>c. hs_state c = st \<Longrightarrow> prelude_step c (f c)"
  shows "leads (at_state a st) (upd_conn a f) P"
  by (rule leadsI) (use assms in \<open>auto simp: at_state_def elim!: prelude_upd [rotated]\<close>)

lemma prelude_stays:
  assumes "st \<noteq> PS_PLAY" "\<And>c. hs_state c = st \<Longrightarrow> prelude_step c (f c) \<and> hs_state (f c) = st"
  shows "leads (at_state a st) (upd_conn a f) (at_state a st)"
proof (rule leadsI)
  fix g g' assume g: "at_state a st g" "upd_conn a f g = Some g'"
  then obtain c where c: "gm_conns g a = Some c" "hs_state c = st" "g' = g\<lparr>gm_conns := (gm_conns g)(a \<mapsto> f c)\<rparr>"
    by (auto simp: at_state_def upd_conn_def)
  have "P g'" using leadsD [OF prelude_leads g(2,1)] assms by blast
  with c assms(2) [OF c(2)] show "at_state a st g'" by (simp add: at_state_def)
qed

lemma handshake_keeps: "leads (at_state a PS_HANDSHAKE) (handle_h00 a r) P"
  unfolding handle_h00_def by (intro leads_intros at_state_leads disconnect prelude_leads) (simp_all add: prelude_step_def)

lemma status_keeps: "keeps P (handle_s00 env a)" "keeps P (handle_s01 a r)"
proof -
  show "keeps P (handle_s00 env a)" unfolding handle_s00_def
    by (rule keeps_apply [where F = "\<lambda>m. upd_conn a (conn_send (Status_response m) False)"], rule send) simp
  show "keeps P (handle_s01 a r)" unfolding handle_s01_def by (intro keeps_intros send) simp
qed

lemma login_start_keeps: "leads (at_state a PS_LOGIN) (handle_l00 env rnd a r) P"
proof -
  have enc: "leads (at_state a PS_LOGIN) (\<lambda>g. if \<not> cfg_encryption (gm_cfg g) then handler_login env a g
         else do {
           g \<leftarrow> upd_conn a (\<lambda>c. c\<lparr>hs_vtoken := Some rnd\<rparr>) g;
           upd_conn a (conn_send (Encryption_request [] (se_pub_key env) rnd) False) g }) P"
  proof (rule leadsI)
    fix g g' assume g: "at_state a PS_LOGIN g" and s: "(if \<not> cfg_encryption (gm_cfg g) then handler_login env a g
         else do {
           g \<leftarrow> upd_conn a (\<lambda>c. c\<lparr>hs_vtoken := Some rnd\<rparr>) g;
           upd_conn a (conn_send (Encryption_request [] (se_pub_key env) rnd) False) g }) = Some g'"
    show "P g'"
    proof (cases "cfg_encryption (gm_cfg g)")
      case True
      have "leads (at_state a PS_LOGIN) (\<lambda>g. do {
           g \<leftarrow> upd_conn a (\<lambda>c. c\<lparr>hs_vtoken := Some rnd\<rparr>) g;
           upd_conn a (conn_send (Encryption_request [] (se_pub_key env) rnd) False) g }) P"
        by (rule leads_then [OF prelude_leads leads_keeps [OF send]]) (simp_all add: prelude_step_def)
      from leadsD [OF this _ g] True s show ?thesis by simp
    next
      case False
      with s g show ?thesis by (auto simp: at_state_def intro: login)
    qed
  qed
  show ?thesis unfolding handle_l00_def
    by (intro leads_intros at_state_leads disconnect leads_then [OF prelude_stays enc]) (simp_all add: prelude_step_def)
qed

lemma response_keeps: "leads (at_state a PS_LOGIN) (handle_l01 env a r) P"
proof -
  have s: "leads (at_state a PS_LOGIN) (accept_secret env a ssec) P" for ssec
    by (rule leadsI) (auto simp: at_state_def intro: secret)
  have f: "keeps P (refuse_response a)" unfolding refuse_response_def by (intro keeps_intros disconnect)
  have c: "leads (at_state a PS_LOGIN) (check_response env a ss vt) P" for ss vt
    unfolding check_response_def by (intro leads_intros s at_state_leads f)
  show ?thesis unfolding handle_l01_def by (intro leads_intros c at_state_leads handler_disconnect_keeps)
qed

lemma play_keeps [keeps_intros]:
  "keeps P (handle_p00 p r)" "keeps P (handle_p01 a p r)" "keeps P (handle_p03 p r)" "keeps P (handle_p04 p r)"
  "keeps P (handle_p05 p r)" "keeps P (handle_p06 p r)" "keeps P (handle_p0d a p r)" "keeps P (handle_p0e a p r)"
  unfolding handle_p00_def handle_p01_def handle_p03_def handle_p04_def handle_p05_def handle_p06_def handle_p0d_def handle_p0e_def
  by (intro keeps_intros disconnect)+

lemma slot_number: "0 \<le> sint (w :: u16) \<Longrightarrow> int (unat w) = sint w"
  using uint_sint [of w] sint_lt [of w] by (simp add: take_bit_eq_mod)

lemma slot_keeps [keeps_intros]: "keeps P (handle_p09 a p r)"
proof -
  have "keeps P (\<lambda>g. if sint slot < 0 \<or> sint slot > 8 then upd_conn a request_disconnect g
     else upd_player p (\<lambda>pl. pl\<lparr>pl_cur_slot := unat slot\<rparr>) g)" for slot :: u16
  proof (cases "sint slot < 0 \<or> sint slot > 8")
    case False
    then have "unat slot \<le> 8" using slot_number [of slot] by linarith
    then have "keeps P (upd_player p (\<lambda>pl. pl\<lparr>pl_cur_slot := unat slot\<rparr>))"
      by (intro player_keeps) (simp add: same_player_def carries_def)
    with False show ?thesis by simp
  qed (simp add: disconnect)
  then show ?thesis unfolding handle_p09_def by (intro keeps_read keeps_case_prod)
qed

lemma creative_keeps [keeps_intros]: "keeps P (handle_p10 a p r)"
proof -
  have put: "keeps P (\<lambda>g. do {
       pl \<leftarrow> gm_players g p;
       inv' \<leftarrow> window_set i it (pl_inv pl);
       upd_player p (\<lambda>pl. pl\<lparr>pl_inv := inv'\<rparr>) g })" for i it
    by (rule keepsI) (auto simp: bind_eq_Some_conv upd_player_def window_set_def same_player_def carries_def
      split: if_splits intro!: player)
  show ?thesis unfolding handle_p10_def
    by (rule keeps_read, rule keeps_case_prod, rule keeps_read, rule keeps_case_prod, rule keeps_if, rule disconnect, rule put)
qed

text \<open>Every packet but the two that change blocks.\<close>

lemma dispatch_keeps:
  assumes "P g" "dispatch env rnd a opc r g = Some (Some g')"
    and "\<And>c p. gm_conns g a = Some c \<Longrightarrow> hs_pl c = Some p \<Longrightarrow>
      handle_p07 (se_ops env) p r g = Some (Some g') \<or> handle_p08 (se_ops env) p r g = Some (Some g') \<Longrightarrow> P g'"
  shows "P g'"
proof -
  obtain c where c: "gm_conns g a = Some c" using assms(2) by (cases "gm_conns g a") (simp_all add: dispatch_def)
  have at: "at_state a (hs_state c) g" using assms(1) c by (simp add: at_state_def)
  have disc: "upd_conn a request_disconnect g = Some g' \<Longrightarrow> P g'" using keepsD [OF disconnect] assms(1) by blast
  show ?thesis
  proof (cases "hs_state c")
    case PS_HANDSHAKE
    then have "upd_conn a request_disconnect g = Some g' \<or> handle_h00 a r g = Some g'"
      using assms(2) by (auto simp: dispatch_def c Let_def split: if_splits)
    then show ?thesis using disc leadsD [OF handshake_keeps] at PS_HANDSHAKE by auto
  next
    case PS_STATUS
    then have "upd_conn a request_disconnect g = Some g' \<or> handle_s00 env a g = Some g' \<or> handle_s01 a r g = Some g'"
      using assms(2) by (auto simp: dispatch_def c Let_def split: if_splits)
    then show ?thesis using disc keepsD [OF status_keeps(1)] keepsD [OF status_keeps(2)] assms(1) by blast
  next
    case PS_LOGIN
    then have "upd_conn a request_disconnect g = Some g' \<or> handle_l00 env rnd a r g = Some g' \<or> handle_l01 env a r g = Some g'"
      using assms(2) by (auto simp: dispatch_def c Let_def split: if_splits)
    then show ?thesis using disc leadsD [OF login_start_keeps] leadsD [OF response_keeps] at PS_LOGIN by auto
  next
    case PS_PLAY
    show ?thesis
    proof (cases "upd_conn a request_disconnect g = Some g'")
      case False
      then obtain p where p: "hs_pl c = Some p" "play_table env a p opc r g = Some (Some g')"
        using assms(2) PS_PLAY by (auto simp: dispatch_def c Let_def split: if_splits option.splits)
      show ?thesis
      proof (cases "opc = 7 \<or> opc = 8")
        case False
        have "keeps P (\<lambda>g. if opc = 0x00 then handle_p00 p r g
            else if opc = 0x01 then handle_p01 a p r g
            else if opc = 0x03 then handle_p03 p r g
            else if opc = 0x04 then handle_p04 p r g
            else if opc = 0x05 then handle_p05 p r g
            else if opc = 0x06 then handle_p06 p r g
            else if opc = 0x09 then handle_p09 a p r g
            else if opc = 0x0D then handle_p0d a p r g
            else if opc = 0x0E then handle_p0e a p r g
            else if opc = 0x10 then handle_p10 a p r g
            else Some g)" by (intro keeps_intros)
        from keepsD [OF this, of g g'] False p(2) assms(1) show ?thesis
          by (simp add: play_table_def split: if_splits)
      next
        case True
        then have "handle_p07 (se_ops env) p r g = Some (Some g') \<or> handle_p08 (se_ops env) p r g = Some (Some g')"
          using p(2) by (auto simp: play_table_def)
        with assms(3) c p(1) show ?thesis by blast
      qed
    qed (rule disc)
  qed
qed

lemma packet_keeps:
  assumes "P g" "conn_handle env rnd a r g = Some (Some g')"
    and blocks: "\<And>g0 c p r'. P g0 \<Longrightarrow> gm_players g0 = gm_players g \<Longrightarrow> gm_worlds g0 = gm_worlds g \<Longrightarrow>
      gm_conns g a = Some c \<Longrightarrow> hs_pl c = Some p \<Longrightarrow>
      handle_p07 (se_ops env) p r' g0 = Some (Some g') \<or> handle_p08 (se_ops env) p r' g0 = Some (Some g') \<Longrightarrow> P g'"
  shows "P g'"
proof -
  obtain c where c: "gm_conns g a = Some c" using assms(2) by (cases "gm_conns g a") (simp_all add: conn_handle_def)
  define g0 where "g0 = (if cv_inferred c then g else g\<lparr>gm_conns := (gm_conns g)(a \<mapsto> c\<lparr>cv_inferred := True\<rparr>)\<rparr>)"
  have g0: "P g0" "gm_players g0 = gm_players g" "gm_worlds g0 = gm_worlds g"
    using assms(1) inferred [OF assms(1) c] by (simp_all add: g0_def)
  show ?thesis
  proof (cases "Some (upd_conn a request_disconnect g) = Some (Some g')")
    case True
    then show ?thesis using keepsD [OF disconnect] assms(1) by blast
  next
    case False
    then have "\<exists>r'. mc18_handle env rnd a r' g0 = Some (Some g')"
      using assms(2) c by (auto simp: conn_handle_def g0_def upd_conn_def split: if_splits option.splits)
    then obtain r' opc where "dispatch env rnd a opc r' g0 = Some (Some g')"
      by (auto simp: mc18_handle_def bind_eq_Some_conv split: option.splits)
    then show ?thesis
    proof (rule dispatch_keeps [OF g0(1)])
      fix c0 p assume c0: "gm_conns g0 a = Some c0" "hs_pl c0 = Some p"
        "handle_p07 (se_ops env) p r' g0 = Some (Some g') \<or> handle_p08 (se_ops env) p r' g0 = Some (Some g')"
      have "hs_pl c = Some p" using c0(1,2) c by (auto simp: g0_def split: if_splits)
      from blocks [OF g0 c this c0(3)] show "P g'" .
    qed
  qed
qed

end

subsection \<open>All events\<close>

text \<open>\<open>fair\<close> are the events that the invariant is proved for.\<close>

locale event_invariant = session_invariant env P mild
  for env :: "'p server_env" and P :: "'p game \<Rightarrow> bool" and mild +
  fixes fair :: "game_event \<Rightarrow> bool"
  assumes accept: "P g \<Longrightarrow> P (on_accept g)"
    and closed: "P g \<Longrightarrow> gm_conns g a = Some c \<Longrightarrow> P (g\<lparr>gm_conns := (gm_conns g)(a \<mapsto> c\<lparr>cv_disconnected := True\<rparr>)\<rparr>)"
    and lists: "P g \<Longrightarrow> P (g\<lparr>gm_conn_list := l, gm_gray := l'\<rparr>)"
    and cache: "P g \<Longrightarrow> P (g\<lparr>gm_uuid_cache := m\<rparr>)"
    and destroy: "P g \<Longrightarrow> connection_destroy a g = Some g' \<Longrightarrow> P g'"
    and auth_answer: "P g \<Longrightarrow> fair (Auth_result a name ssec succ) \<Longrightarrow> (a, name, ssec) \<in> set (gm_auths g) \<Longrightarrow>
      auth_cb env a succ (g\<lparr>gm_auths := remove1 (a, name, ssec) (gm_auths g)\<rparr>) = Some g' \<Longrightarrow> P g'"
    and uuid_answer: "P g \<Longrightarrow> fair (Uuid_result a name resp) \<Longrightarrow> (a, name) \<in> set (gm_uuid_jobs g) \<Longrightarrow>
      uuid_worker env a name resp (g\<lparr>gm_uuid_jobs := remove1 (a, name) (gm_uuid_jobs g)\<rparr>) = Some g' \<Longrightarrow> P g'"
begin

lemma disconnect_conn_keeps: "keeps P (disconnect_conn a)"
proof (rule keepsI)
  fix g g' assume g: "P g" "disconnect_conn a g = Some g'"
  show "P g'"
  proof (cases "g' = g")
    case False
    with g obtain c g1 where 1: "handler_disconnect a g = Some g1"
      "Option.bind (upd_conn a (\<lambda>c. c\<lparr>cv_disconnected := True\<rparr>) g1) (\<lambda>g. Some (server_disconnect_connection a g)) = Some g'"
      by (auto simp: disconnect_conn_def bind_eq_Some_conv split: if_splits)
    have "P g1" using keepsD [OF handler_disconnect_keeps 1(1) g(1)] .
    with 1(2) show ?thesis
      by (auto simp: upd_conn_def server_disconnect_connection_def bind_eq_Some_conv intro!: lists intro: closed)
  qed (use g in simp)
qed

lemma clean_keeps: "keeps P (clean_gray busy)"
proof (rule keepsI)
  fix g g' assume g: "P g" "clean_gray busy g = Some g'"
  then obtain l l' g1 where 1: "put_all connection_destroy l g = Some g1" "g' = g1\<lparr>gm_gray := l'\<rparr>"
    by (auto simp: clean_gray_def Let_def)
  have d: "keeps P (connection_destroy a)" for a by (rule keepsI) (rule destroy)
  have "keeps P (put_all connection_destroy l)" by (rule keeps_put_all) (rule d)
  from keepsD [OF this 1(1) g(1)] have "P g1" .
  from lists [OF this, where l = "gm_conn_list g1" and l' = l'] show "P g'" by (simp add: 1(2))
qed

text \<open>Every event but packets and the lighting thread.\<close>

lemma quiet_step_keeps:
  assumes "P g" "fair ev" "enabled ev g" "game_step env ev g = Some (Some g')"
    and "\<And>a rnd bs. ev \<noteq> Packet a rnd bs" "\<And>wa. ev \<noteq> Light wa"
  shows "P g'"
proof (cases ev)
  case (Auth_result a name ssec succ)
  then show ?thesis using assms by (auto intro: auth_answer)
next
  case (Uuid_result a name resp)
  then show ?thesis using assms by (auto intro: uuid_answer)
next
  case Run_job
  then show ?thesis using assms jobs keepsD [OF job_keeps] by auto
next
  case (Keep_alives rnd)
  then show ?thesis using assms keepsD [OF player_ops_keep(11)] by auto
next
  case (Hang_up a)
  then show ?thesis using assms keepsD [OF disconnect] by auto
next
  case (Timer a)
  then show ?thesis using assms keepsD [OF disconnect_conn_keeps] by (auto simp: conn_timer_def bind_eq_Some_conv split: if_splits)
next
  case (Clean busy)
  then show ?thesis using assms keepsD [OF clean_keeps] by auto
qed (use assms accept cache in \<open>auto simp: uman_insert_def\<close>)

end

text \<open>An invariant that does not speak of the worlds.\<close>

locale run_invariant = event_invariant env P mild fair
  for env :: "'p server_env" and P :: "'p game \<Rightarrow> bool" and mild and fair +
  assumes any_world: "P g \<Longrightarrow> gm_worlds g wa = Some w \<Longrightarrow> P (g\<lparr>gm_worlds := (gm_worlds g)(wa \<mapsto> w')\<rparr>)"
begin

lemma change_block_keeps: "P g \<Longrightarrow> change_block wa f g = Some (Some g') \<Longrightarrow> P g'"
  by (auto simp: change_block_def intro: any_world split: option.splits)

lemma dig_keeps: "P g \<Longrightarrow> on_dig ops p x y z st face g = Some (Some g') \<Longrightarrow> P g'"
  by (auto simp: on_dig_def intro: change_block_keeps dest: keepsD [OF player_ops_keep(1)] split: option.splits if_splits)

lemma place_keeps: "P g \<Longrightarrow> on_place ops p x y z face g = Some (Some g') \<Longrightarrow> P g'"
  by (auto simp: on_place_def intro: change_block_keeps dest: keepsD [OF player_ops_keep(3)]
    split: option.splits if_splits prod.splits)

lemma any_packet_keeps: "P g \<Longrightarrow> conn_handle env rnd a r g = Some (Some g') \<Longrightarrow> P g'"
proof (erule packet_keeps, assumption)
  fix g0 p r' assume "P g0" "handle_p07 (se_ops env) p r' g0 = Some (Some g') \<or> handle_p08 (se_ops env) p r' g0 = Some (Some g')"
  then show "P g'" by (auto simp: handle_p07_def handle_p08_def intro: dig_keeps place_keeps split: option.splits prod.splits)
qed

lemma step_keeps:
  assumes "P g" "fair ev" "enabled ev g" "game_step env ev g = Some (Some g')" shows "P g'"
proof (cases "(\<exists>a rnd bs. ev = Packet a rnd bs) \<or> (\<exists>wa. ev = Light wa)")
  case True
  then show ?thesis using assms by (auto intro: any_packet_keeps change_block_keeps)
next
  case False
  then show ?thesis using quiet_step_keeps [OF assms] by blast
qed

lemma runs_keep: "runs_to env g0 evs g \<Longrightarrow> P g0 \<Longrightarrow> (\<forall>ev \<in> set evs. fair ev) \<Longrightarrow> P g"
  by (induction rule: runs_to.induct) (auto intro: step_keeps)

end

end
