(* ===== verification/Client_View.thy ===== *)
theory Client_View
  imports Invariants
begin

text \<open>
  What the invariants of the running server are: on a server in offline mode the player of every
  connection is the one its handler knows, and the chunks a client holds are exactly those the
  server has noted for its player; on a server in online mode nobody plays who was not
  authenticated; and the held slot is always a slot of the hotbar.
\<close>

subsection \<open>The chunks a client holds\<close>

fun view_step :: "client_msg \<Rightarrow> chunk_pos set \<Rightarrow> chunk_pos set" where
  "view_step (Chunk_data x z _ _ _) s = insert (chunk_pos_make x z) s"
| "view_step (Unload_chunk x z) s = s - {chunk_pos_make x z}"
| "view_step _ s = s"

definition client_view :: "client_msg list \<Rightarrow> chunk_pos set" where
  "client_view ms = fold view_step ms {}"

text \<open>A connection whose packets still go out.\<close>

definition receiving :: "conn_view \<Rightarrow> bool" where
  "receiving c \<longleftrightarrow> cv_can_send c \<and> \<not> cv_disconnected c \<and> \<not> cv_disconnect_req c"

definition conn_exact :: "'p game \<Rightarrow> nat \<Rightarrow> conn_view \<Rightarrow> bool" where
  "conn_exact g a c \<longleftrightarrow> a < gm_next_conn g \<and> (case hs_pl c of
     None \<Rightarrow> hs_state c \<noteq> PS_PLAY \<and> client_view (cv_out c) = {}
   | Some p \<Rightarrow> hs_state c = PS_PLAY \<and> cv_player c = Some p \<and>
       (\<exists>pl. gm_players g p = Some pl \<and> pl_conn pl = a \<and> (receiving c \<longrightarrow> client_view (cv_out c) = set (pl_vis pl))))"

definition views_exact :: "'p game \<Rightarrow> bool" where
  "views_exact g \<longleftrightarrow> (\<forall>a c. gm_conns g a = Some c \<longrightarrow> conn_exact g a c) \<and>
     (\<forall>p pl. gm_players g p = Some pl \<longrightarrow> p < gm_next_pl g \<and> (\<exists>c. gm_conns g (pl_conn pl) = Some c \<and> hs_pl c = Some p))"

text \<open>Offline, nothing is ever asked of the web services.\<close>

definition offline_exact :: "'p game \<Rightarrow> bool" where
  "offline_exact g \<longleftrightarrow> \<not> cfg_online (gm_cfg g) \<and> \<not> gm_uman_online g \<and> gm_auths g = [] \<and> gm_uuid_jobs g = [] \<and> views_exact g"

lemma view_quiet [simp]: "\<not> map_msg m \<Longrightarrow> view_step m = id"
  by (cases m) auto

lemma client_view_Nil [simp]: "client_view [] = {}"
  by (simp add: client_view_def)

lemma client_view_snoc [simp]: "client_view (ms @ [m]) = view_step m (client_view ms)"
  by (simp add: client_view_def)

lemma conn_send_fields [simp]:
  "hs_pl (conn_send m d c) = hs_pl c" "hs_state (conn_send m d c) = hs_state c" "cv_player (conn_send m d c) = cv_player c"
  by (simp_all add: conn_send_def)

lemma receiving_send: "receiving (conn_send m d c) \<Longrightarrow> receiving c"
  by (auto simp: conn_send_def receiving_def split: if_splits)

lemma conn_send_quiet: "\<not> map_msg m \<Longrightarrow> client_view (cv_out (conn_send m d c)) = client_view (cv_out c)"
  by (simp add: conn_send_def)

lemma conn_send_receiving: "receiving c \<Longrightarrow> cv_out (conn_send m d c) = cv_out c @ [m]"
  by (simp add: conn_send_def receiving_def)

lemma conn_exact_frame:
  assumes "conn_exact g a c" "gm_next_conn g \<le> gm_next_conn g'" "hs_pl c' = hs_pl c" "hs_state c' = hs_state c" "cv_player c' = cv_player c"
    and "receiving c' \<Longrightarrow> receiving c" "hs_pl c = None \<or> receiving c' \<Longrightarrow> client_view (cv_out c') = client_view (cv_out c)"
    and "\<And>p pl. hs_pl c = Some p \<Longrightarrow> gm_players g p = Some pl \<Longrightarrow> pl_conn pl = a \<Longrightarrow>
      \<exists>pl'. gm_players g' p = Some pl' \<and> pl_conn pl' = a \<and> set (pl_vis pl') = set (pl_vis pl)"
  shows "conn_exact g' a c'"
proof (cases "hs_pl c")
  case None
  then show ?thesis using assms by (auto simp: conn_exact_def)
next
  case (Some p)
  with assms(1) obtain pl where "gm_players g p = Some pl" "pl_conn pl = a" "receiving c \<longrightarrow> client_view (cv_out c) = set (pl_vis pl)"
    by (auto simp: conn_exact_def)
  with assms(8) Some obtain pl' where "gm_players g' p = Some pl'" "pl_conn pl' = a" "set (pl_vis pl') = set (pl_vis pl)" by blast
  then show ?thesis using assms Some \<open>receiving c \<longrightarrow> _\<close> by (auto simp: conn_exact_def)
qed

lemma conn_exact_cong:
  "gm_players g' = gm_players g \<Longrightarrow> gm_next_conn g' = gm_next_conn g \<Longrightarrow> conn_exact g' a c = conn_exact g a c"
  by (cases "hs_pl c") (simp_all add: conn_exact_def)

lemma views_cong:
  "gm_players g' = gm_players g \<Longrightarrow> gm_next_conn g' = gm_next_conn g \<Longrightarrow> gm_conns g' = gm_conns g \<Longrightarrow>
   gm_next_pl g' = gm_next_pl g \<Longrightarrow> views_exact g' = views_exact g"
  using conn_exact_cong [of g' g] by (simp add: views_exact_def)

lemma views_exactD:
  assumes "views_exact g"
  shows "gm_conns g a = Some c \<Longrightarrow> conn_exact g a c"
    and "gm_players g p = Some pl \<Longrightarrow> p < gm_next_pl g"
    and "gm_players g p = Some pl \<Longrightarrow> \<exists>c. gm_conns g (pl_conn pl) = Some c \<and> hs_pl c = Some p"
  using assms unfolding views_exact_def by blast+

lemma views_mono:
  assumes "views_exact g" "gm_players g' = gm_players g" "gm_next_conn g' = gm_next_conn g" "gm_conns g' = gm_conns g"
    and "gm_next_pl g \<le> gm_next_pl g'"
  shows "views_exact g'"
  unfolding views_exact_def using views_exactD [OF assms(1)] conn_exact_cong [OF assms(2,3)] assms(2-5)
  by (metis order_less_le_trans)

text \<open>One connection changes and the players keep what matters.\<close>

lemma views_conn:
  assumes "views_exact g" "gm_conns g a = Some c" "hs_pl c' = hs_pl c" "conn_exact g a c \<Longrightarrow> conn_exact g a c'"
  shows "views_exact (g\<lparr>gm_conns := (gm_conns g)(a \<mapsto> c')\<rparr>)"
proof -
  have fr: "conn_exact (g\<lparr>gm_conns := cs\<rparr>) b d = conn_exact g b d" for cs b d by (rule conn_exact_cong) simp_all
  show ?thesis unfolding views_exact_def
  proof (intro conjI allI impI)
    fix b d assume "gm_conns (g\<lparr>gm_conns := (gm_conns g)(a \<mapsto> c')\<rparr>) b = Some d"
    then show "conn_exact (g\<lparr>gm_conns := (gm_conns g)(a \<mapsto> c')\<rparr>) b d"
      using assms unfolding fr views_exact_def by (cases "b = a") auto
  next
    fix p pl assume "gm_players (g\<lparr>gm_conns := (gm_conns g)(a \<mapsto> c')\<rparr>) p = Some pl"
    then have "gm_players g p = Some pl" by simp
    then obtain d where d: "p < gm_next_pl g" "gm_conns g (pl_conn pl) = Some d" "hs_pl d = Some p"
      using views_exactD(2,3) [OF assms(1)] by blast
    then show "p < gm_next_pl (g\<lparr>gm_conns := (gm_conns g)(a \<mapsto> c')\<rparr>)" by simp
    show "\<exists>d. gm_conns (g\<lparr>gm_conns := (gm_conns g)(a \<mapsto> c')\<rparr>) (pl_conn pl) = Some d \<and> hs_pl d = Some p"
      using d assms(2,3) by (cases "pl_conn pl = a") auto
  qed
qed

lemma views_player:
  assumes "views_exact g" "gm_players g p = Some pl" "pl_conn pl' = pl_conn pl" "set (pl_vis pl') = set (pl_vis pl)"
  shows "views_exact (g\<lparr>gm_players := (gm_players g)(p \<mapsto> pl')\<rparr>)"
proof -
  let ?g = "g\<lparr>gm_players := (gm_players g)(p \<mapsto> pl')\<rparr>"
  have "conn_exact ?g a c" if "gm_conns g a = Some c" for a c
  proof (rule conn_exact_frame [where g = g])
    show "conn_exact g a c" using assms(1) that by (simp add: views_exact_def)
    show "\<exists>q'. gm_players ?g q = Some q' \<and> pl_conn q' = a \<and> set (pl_vis q') = set (pl_vis ql)"
      if "gm_players g q = Some ql" "pl_conn ql = a" for q ql
      using that assms(2-4) by (cases "q = p") auto
  qed simp_all
  with assms show ?thesis by (auto simp: views_exact_def split: if_splits)
qed

lemma views_exact_player:
  assumes "views_exact g" "gm_players g p = Some pl" "gm_conns g (pl_conn pl) = Some c"
  shows "hs_pl c = Some p" "hs_state c = PS_PLAY" "cv_player c = Some p"
    "receiving c \<Longrightarrow> client_view (cv_out c) = set (pl_vis pl)"
proof -
  show p: "hs_pl c = Some p" using views_exactD(3) [OF assms(1,2)] assms(3) by simp
  have "conn_exact g (pl_conn pl) c" using assms by (simp add: views_exact_def)
  then show "hs_state c = PS_PLAY" "cv_player c = Some p" "receiving c \<Longrightarrow> client_view (cv_out c) = set (pl_vis pl)"
    using p assms(2) by (auto simp: conn_exact_def)
qed

text \<open>A packet about a chunk and the note about it.\<close>

lemma views_both:
  assumes v: "views_exact g" and pl: "gm_players g p = Some pl" "gm_conns g (pl_conn pl) = Some c" and same: "pl_conn pl' = pl_conn pl"
    and new: "set (pl_vis pl') = view_step m (set (pl_vis pl))"
  shows "views_exact (g\<lparr>gm_conns := (gm_conns g)(pl_conn pl \<mapsto> conn_send m False c), gm_players := (gm_players g)(p \<mapsto> pl')\<rparr>)"
    (is "views_exact ?g")
proof -
  note c = views_exact_player [OF v pl]
  have one: "conn_exact ?g (pl_conn pl) (conn_send m False c)"
  proof -
    have "pl_conn pl < gm_next_conn g" using v pl by (auto simp: views_exact_def conn_exact_def)
    moreover have "client_view (cv_out (conn_send m False c)) = set (pl_vis pl')" if "receiving (conn_send m False c)"
      using receiving_send [OF that] c(4) new by (simp add: conn_send_receiving)
    ultimately show ?thesis using c same by (simp add: conn_exact_def)
  qed
  have other: "conn_exact ?g a d" if d: "gm_conns g a = Some d" "a \<noteq> pl_conn pl" for a d
  proof (rule conn_exact_frame [where g = g])
    show "conn_exact g a d" using v d by (simp add: views_exact_def)
    show "\<exists>q'. gm_players ?g q = Some q' \<and> pl_conn q' = a \<and> set (pl_vis q') = set (pl_vis ql)"
      if "gm_players g q = Some ql" "pl_conn ql = a" for q ql
      using that d(2) pl(1) by auto
  qed simp_all
  have "\<exists>d. gm_conns ?g (pl_conn ql) = Some d \<and> hs_pl d = Some q" if q: "gm_players ?g q = Some ql" for q ql
  proof (cases "q = p")
    case True
    then show ?thesis using q c(1) same by auto
  next
    case False
    with q have ql: "gm_players g q = Some ql" by simp
    then obtain d where d: "gm_conns g (pl_conn ql) = Some d" "hs_pl d = Some q" using views_exactD(3) [OF v] by blast
    with False c(1) pl(2) have "pl_conn ql \<noteq> pl_conn pl" by auto
    with d show ?thesis by simp
  qed
  moreover have "q < gm_next_pl g" if "gm_players ?g q = Some ql" for q ql
    using that v pl(1) by (cases "q = p") (auto simp: views_exact_def)
  ultimately show ?thesis unfolding views_exact_def using one other by (auto split: if_splits)
qed

lemma views_send_both:
  assumes "views_exact g" "Option.bind (send_to p m False g) (upd_player p f) = Some g'"
    and "\<And>pl. pl_conn (f pl) = pl_conn pl \<and> set (pl_vis (f pl)) = view_step m (set (pl_vis pl))"
  shows "views_exact g'"
proof -
  from assms(2) obtain pl c where pl: "gm_players g p = Some pl" "gm_conns g (pl_conn pl) = Some c"
    by (auto simp: send_to_def upd_conn_def bind_eq_Some_conv)
  with assms(2) have "g' = g\<lparr>gm_conns := (gm_conns g)(pl_conn pl \<mapsto> conn_send m False c), gm_players := (gm_players g)(p \<mapsto> f pl)\<rparr>"
    by (simp add: send_to_def upd_conn_def upd_player_def)
  with views_both [OF assms(1) pl, of "f pl" m] assms(3) show ?thesis by simp
qed

lemma views_send:
  assumes "views_exact g" "\<not> map_msg m" "upd_conn a (conn_send m d) g = Some g'" shows "views_exact g'"
proof -
  from assms(3) obtain c where c: "gm_conns g a = Some c" "g' = g\<lparr>gm_conns := (gm_conns g)(a \<mapsto> conn_send m d c)\<rparr>"
    by (auto simp: upd_conn_def)
  show ?thesis unfolding c(2)
    by (rule views_conn [OF assms(1) c(1)], simp, erule conn_exact_frame)
       (use assms(2) in \<open>auto simp: conn_send_quiet dest: receiving_send\<close>)
qed

lemma views_quiet_conn:
  assumes "views_exact g" "gm_conns g a = Some c" "cv_out c' = cv_out c" "hs_pl c' = hs_pl c" "cv_player c' = cv_player c"
    "hs_state c' = hs_state c \<or> hs_state c \<noteq> PS_PLAY \<and> hs_state c' \<noteq> PS_PLAY" "receiving c' \<Longrightarrow> receiving c"
  shows "views_exact (g\<lparr>gm_conns := (gm_conns g)(a \<mapsto> c')\<rparr>)"
  by (rule views_conn [OF assms(1,2)]) (use assms in \<open>auto simp: conn_exact_def split: option.splits\<close>)

lemma views_rest [simp]:
  "views_exact (g\<lparr>gm_worlds := ws\<rparr>) = views_exact g" "views_exact (g\<lparr>gm_gens := gens\<rparr>) = views_exact g"
  "views_exact (g\<lparr>gm_jobs := js\<rparr>) = views_exact g" "views_exact (g\<lparr>gm_online := ps\<rparr>) = views_exact g"
  "views_exact (g\<lparr>gm_conn_list := l\<rparr>) = views_exact g" "views_exact (g\<lparr>gm_gray := l\<rparr>) = views_exact g"
  "views_exact (g\<lparr>gm_uuid_cache := m\<rparr>) = views_exact g" "views_exact (g\<lparr>gm_auths := as\<rparr>) = views_exact g"
  "views_exact (g\<lparr>gm_uuid_jobs := us\<rparr>) = views_exact g" "views_exact (g\<lparr>gm_next_eid := e\<rparr>) = views_exact g"
  by (rule views_cong; simp)+

lemma chunk_pos_eta [simp]: "chunk_pos_make (cp_x cp) (cp_z cp) = cp"
  by (simp add: chunk_pos_make_def)

lemma offline_cong:
  "offline_exact g \<Longrightarrow> gm_cfg g' = gm_cfg g \<Longrightarrow> gm_uman_online g' = gm_uman_online g \<Longrightarrow> gm_auths g' = gm_auths g \<Longrightarrow>
   gm_uuid_jobs g' = gm_uuid_jobs g \<Longrightarrow> views_exact g' \<Longrightarrow> offline_exact g'"
  by (simp add: offline_exact_def)

lemma offline_player:
  assumes "offline_exact g" "gm_players g p = Some pl" "same_player pl pl'"
  shows "offline_exact (g\<lparr>gm_players := (gm_players g)(p \<mapsto> pl')\<rparr>)"
  by (rule offline_cong [OF assms(1)])
     (use views_player [of g p pl pl'] assms in \<open>simp_all add: same_player_def offline_exact_def\<close>)

lemma upd_conn_rest:
  "upd_conn a f g = Some g' \<Longrightarrow> gm_cfg g' = gm_cfg g \<and> gm_uman_online g' = gm_uman_online g \<and> gm_auths g' = gm_auths g \<and>
     gm_uuid_jobs g' = gm_uuid_jobs g \<and> gm_players g' = gm_players g"
  by (auto simp: upd_conn_def)

interpretation offline: game_invariant ops offline_exact "\<lambda>_ _. True" for ops :: "'p provider_ops"
proof unfold_locales
  fix m a d assume m: "\<not> map_msg m"
  show "keeps offline_exact (upd_conn a (conn_send m d) :: 'p game \<Rightarrow> _)"
  proof (rule keepsI)
    fix g g' :: "'p game" assume g: "offline_exact g" "upd_conn a (conn_send m d) g = Some g'"
    then show "offline_exact g'"
      using offline_cong [OF g(1)] upd_conn_rest [OF g(2)] views_send [OF _ m g(2)] by (simp add: offline_exact_def)
  qed
next
  fix a
  show "keeps offline_exact (upd_conn a request_disconnect :: 'p game \<Rightarrow> _)"
  proof (rule keepsI)
    fix g g' :: "'p game" assume g: "offline_exact g" "upd_conn a request_disconnect g = Some g'"
    then have "views_exact g'"
      by (auto simp: upd_conn_def offline_exact_def request_disconnect_def receiving_def intro: views_quiet_conn)
    with offline_cong [OF g(1), of g'] upd_conn_rest [OF g(2)] show "offline_exact g'" by simp
  qed
next
  fix p x z c
  show "keeps offline_exact (send_chunk p x z c :: 'p game \<Rightarrow> _)"
  proof (rule keepsI)
    fix g g' :: "'p game" assume g: "offline_exact g" "send_chunk p x z c g = Some g'"
    have "views_exact g'"
      by (rule views_send_both [OF _ g(2) [unfolded send_chunk_def]]) (use g(1) in \<open>auto simp: offline_exact_def set_emplace_def\<close>)
    then show "offline_exact g'" using g
      by (auto simp: offline_exact_def send_chunk_def send_to_def upd_conn_def upd_player_def bind_eq_Some_conv)
  qed
next
  fix p cp
  show "keeps offline_exact (unload_chunk p cp :: 'p game \<Rightarrow> _)"
  proof (rule keepsI)
    fix g g' :: "'p game" assume g: "offline_exact g" "unload_chunk p cp g = Some g'"
    have "views_exact g'"
      by (rule views_send_both [where m = "Unload_chunk (cp_x cp) (cp_z cp)"])
         (use g in \<open>auto simp: offline_exact_def unload_chunk_def\<close>)
    then show "offline_exact g'" using g
      by (auto simp: offline_exact_def unload_chunk_def send_to_def upd_conn_def upd_player_def bind_eq_Some_conv)
  qed
qed (simp_all add: offline_player, simp_all add: offline_exact_def)

subsection \<open>Logging in and leaving\<close>

lemma views_new_player:
  assumes v: "views_exact g" and c: "gm_conns g a = Some c" "hs_pl c = None"
    and c': "hs_pl c' = Some (gm_next_pl g)" "cv_player c' = Some (gm_next_pl g)" "hs_state c' = PS_PLAY"
      "client_view (cv_out c') = client_view (cv_out c)"
    and pl: "pl_conn pl = a" "pl_vis pl = []"
  shows "views_exact (g\<lparr>gm_players := (gm_players g)(gm_next_pl g \<mapsto> pl), gm_next_pl := Suc (gm_next_pl g),
    gm_conns := (gm_conns g)(a \<mapsto> c')\<rparr>)" (is "views_exact ?g")
proof -
  have fresh: "gm_players g p \<noteq> None \<Longrightarrow> p \<noteq> gm_next_pl g" for p using views_exactD(2) [OF v, of p] by auto
  have out: "client_view (cv_out c) = {}" "a < gm_next_conn g" using views_exactD(1) [OF v c(1)] c(2) by (simp_all add: conn_exact_def)
  have "conn_exact ?g b d" if d: "gm_conns ?g b = Some d" for b d
  proof (cases "b = a")
    case True
    with d c' pl out show ?thesis by (simp add: conn_exact_def)
  next
    case False
    show ?thesis
    proof (rule conn_exact_frame [where g = g])
      show "conn_exact g b d" using views_exactD(1) [OF v] d False by simp
      show "\<exists>q'. gm_players ?g q = Some q' \<and> pl_conn q' = b \<and> set (pl_vis q') = set (pl_vis ql)"
        if "gm_players g q = Some ql" "pl_conn ql = b" for q ql using that fresh [of q] by simp
    qed simp_all
  qed
  moreover have "q < gm_next_pl ?g \<and> (\<exists>d. gm_conns ?g (pl_conn ql) = Some d \<and> hs_pl d = Some q)"
    if q: "gm_players ?g q = Some ql" for q ql
  proof (cases "q = gm_next_pl g")
    case True
    with q c' pl(1) show ?thesis by simp
  next
    case False
    with q have ql: "gm_players g q = Some ql" by simp
    from views_exactD(3) [OF v ql] obtain d where d: "gm_conns g (pl_conn ql) = Some d" "hs_pl d = Some q" by blast
    with c have "pl_conn ql \<noteq> a" by auto
    with d views_exactD(2) [OF v ql] show ?thesis by simp
  qed
  ultimately show ?thesis unfolding views_exact_def by blast
qed

text \<open>What logging in does up to the moment the player's own code takes over.\<close>

definition enter_play :: "configuration \<Rightarrow> nat \<Rightarrow> uuid \<Rightarrow> byte list \<Rightarrow> conn_view \<Rightarrow> conn_view" where
  "enter_play cfg p u name c =
     (let c = conn_send (Login_success (uuid_str u) name) False (c\<lparr>cv_player := Some p, hs_pl := Some p\<rparr>);
          c = conn_send (Join_game 1 1 0 0 (ucast (cfg_max_players cfg)) (str_bytes ''default'') True) False c;
          c = conn_send (Set_compression (cfg_compress_threshold cfg)) False (c\<lparr>hs_state := PS_PLAY\<rparr>)
      in c\<lparr>cv_zlib := True\<rparr>)"

lemma enter_play_fields [simp]:
  "hs_pl (enter_play cfg p u name c) = Some p" "cv_player (enter_play cfg p u name c) = Some p"
  "hs_state (enter_play cfg p u name c) = PS_PLAY"
  "client_view (cv_out (enter_play cfg p u name c)) = client_view (cv_out c)"
  by (simp_all add: enter_play_def conn_send_quiet Let_def)

definition before_login :: "nat \<Rightarrow> uuid \<Rightarrow> byte list \<Rightarrow> 'p game \<Rightarrow> conn_view \<Rightarrow> 'p game" where
  "before_login a u name g c =
     g\<lparr>gm_next_pl := Suc (gm_next_pl g), gm_next_eid := gm_next_eid g + 1, gm_online := gm_online g @ [gm_next_pl g],
       gm_players := (gm_players g)(gm_next_pl g \<mapsto> (player_init a u name (gm_next_eid g))\<lparr>pl_gm := GM_CREATIVE\<rparr>),
       gm_conns := (gm_conns g)(a \<mapsto> enter_play (gm_cfg g) (gm_next_pl g) u name c)\<rparr>"

definition turned_away :: "nat \<Rightarrow> 'p game \<Rightarrow> conn_view \<Rightarrow> 'p game" where
  "turned_away a g c = g\<lparr>gm_players := (gm_players g)(gm_next_pl g := None),
     gm_next_pl := Suc (gm_next_pl g), gm_next_eid := gm_next_eid g + 1,
     gm_conns := (gm_conns g)(a \<mapsto> conn_send (Login_disconnect (str_bytes ''Sorry, server full'')) True c)\<rparr>"

lemma uuid_success_eq:
  assumes "gm_conns g a = Some c"
  shows "uuid_get_success a name u g =
    (if word_of_nat (length (gm_online g)) = cfg_max_players (gm_cfg g) then Some (turned_away a g c)
     else on_login (gm_next_pl g) (before_login a u name g c))"
  using assms
  by (simp add: uuid_get_success_def player_new_def register_player_def player_destroy_def player_init_def upd_conn_def
    set_gm_def upd_player_def turned_away_def before_login_def enter_play_def Let_def)

lemma offline_login:
  assumes g: "offline_exact g" "gm_conns g a = Some c" "hs_state c \<noteq> PS_PLAY" "uuid_get_success a name u g = Some g'"
  shows "offline_exact g'"
proof -
  have v: "views_exact g" using g(1) by (simp add: offline_exact_def)
  have none: "hs_pl c = None"
    using views_exactD(1) [OF v g(2)] g(3) by (cases "hs_pl c") (auto simp: conn_exact_def)
  have fresh: "gm_players g (gm_next_pl g) = None"
    using views_exactD(2) [OF v, of "gm_next_pl g"] by (cases "gm_players g (gm_next_pl g)") auto
  show ?thesis
  proof (cases "word_of_nat (length (gm_online g)) = cfg_max_players (gm_cfg g)")
    case True
    then have g': "g' = turned_away a g c" using g(4) uuid_success_eq [OF g(2)] by simp
    let ?g = "g\<lparr>gm_conns := (gm_conns g)(a \<mapsto> conn_send (Login_disconnect (str_bytes ''Sorry, server full'')) True c)\<rparr>"
    have "views_exact ?g" by (rule views_send [OF v, where m = "Login_disconnect (str_bytes ''Sorry, server full'')" and a = a and d = True]) (simp_all add: upd_conn_def g(2))
    then have "views_exact g'"
      by (rule views_mono) (simp_all add: g' turned_away_def fun_upd_idem [where f = "gm_players g", OF fresh])
    then show ?thesis by (rule offline_cong [OF g(1), rotated -1]) (simp_all add: g' turned_away_def)
  next
    case False
    then have on: "on_login (gm_next_pl g) (before_login a u name g c) = Some g'" using g(4) uuid_success_eq [OF g(2)] by simp
    have "views_exact (before_login a u name g c)"
      using views_new_player [OF v g(2) none, where c' = "enter_play (gm_cfg g) (gm_next_pl g) u name c"
        and pl = "(player_init a u name (gm_next_eid g))\<lparr>pl_gm := GM_CREATIVE\<rparr>"]
      by (simp add: player_init_def) (subst (asm) views_cong [where g = "before_login a u name g c"], simp_all add: before_login_def player_init_def)
    then have "offline_exact (before_login a u name g c)"
      by (rule offline_cong [OF g(1), rotated -1]) (simp_all add: before_login_def)
    then show ?thesis using keepsD [OF offline.player_ops_keep(9) on] by blast
  qed
qed

text \<open>The player of a connection while it is destroyed.\<close>

definition offline_bound :: "nat \<Rightarrow> nat \<Rightarrow> 'p game \<Rightarrow> bool" where
  "offline_bound a p g \<longleftrightarrow> offline_exact g \<and> map_option hs_pl (gm_conns g a) = Some (Some p)"

lemma upd_conn_bound:
  "upd_conn b f g = Some g' \<Longrightarrow> (\<And>c. hs_pl (f c) = hs_pl c) \<Longrightarrow> map_option hs_pl (gm_conns g' a) = map_option hs_pl (gm_conns g a)"
  by (auto simp: upd_conn_def)

lemma upd_player_conns: "upd_player p f g = Some g' \<Longrightarrow> gm_conns g' = gm_conns g"
  by (auto simp: upd_player_def)

lemma bound_keeps:
  assumes "keeps offline_exact f" "\<And>g g'. f g = Some g' \<Longrightarrow> map_option hs_pl (gm_conns g' a) = map_option hs_pl (gm_conns g a)"
  shows "keeps (offline_bound a p) f"
  by (rule keepsI) (use assms keepsD [OF assms(1)] in \<open>auto simp: offline_bound_def\<close>)

interpretation bound: game_invariant ops "offline_bound a p" "\<lambda>_ _. True" for ops :: "'p provider_ops" and a p
proof unfold_locales
  fix m b d assume "\<not> map_msg m"
  then show "keeps (offline_bound a p) (upd_conn b (conn_send m d) :: 'p game \<Rightarrow> _)"
    by (intro bound_keeps [OF offline.send]) (auto elim: upd_conn_bound)
next
  fix b
  show "keeps (offline_bound a p) (upd_conn b request_disconnect :: 'p game \<Rightarrow> _)"
    by (rule bound_keeps [OF offline.disconnect]) (erule upd_conn_bound, simp add: request_disconnect_def)
next
  fix q x z c
  show "keeps (offline_bound a p) (send_chunk q x z c :: 'p game \<Rightarrow> _)"
    by (rule bound_keeps [OF offline.chunk_sent])
       (auto simp: send_chunk_def send_to_def bind_eq_Some_conv dest!: upd_player_conns upd_conn_bound [of _ _ _ _ a])
next
  fix q cp
  show "keeps (offline_bound a p) (unload_chunk q cp :: 'p game \<Rightarrow> _)"
    by (rule bound_keeps [OF offline.chunk_unloaded])
       (auto simp: unload_chunk_def send_to_def bind_eq_Some_conv dest!: upd_player_conns upd_conn_bound [of _ _ _ _ a])
qed (simp_all add: offline_bound_def offline_player, simp_all add: offline_exact_def)

lemma views_remove:
  assumes v: "views_exact g" and c: "gm_conns g a = Some c"
  shows "views_exact (g\<lparr>gm_players := (case hs_pl c of None \<Rightarrow> gm_players g | Some p \<Rightarrow> (gm_players g)(p := None)),
    gm_conns := (gm_conns g)(a := None)\<rparr>)" (is "views_exact ?g")
proof -
  have pl: "\<exists>pl. gm_players g p = Some pl \<and> pl_conn pl = a" if "hs_pl c = Some p" for p
    using views_exactD(1) [OF v c] that by (auto simp: conn_exact_def)
  have "conn_exact ?g b d" if d: "gm_conns ?g b = Some d" for b d
  proof (rule conn_exact_frame [where g = g])
    have b: "b \<noteq> a" "gm_conns g b = Some d" using d by (auto split: if_splits)
    show "conn_exact g b d" by (rule views_exactD(1) [OF v b(2)])
    show "\<exists>q'. gm_players ?g q = Some q' \<and> pl_conn q' = b \<and> set (pl_vis q') = set (pl_vis ql)"
      if "gm_players g q = Some ql" "pl_conn ql = b" for q ql
      using that b(1) pl by (auto split: option.split)
  qed simp_all
  moreover have "q < gm_next_pl ?g \<and> (\<exists>d. gm_conns ?g (pl_conn ql) = Some d \<and> hs_pl d = Some q)"
    if q: "gm_players ?g q = Some ql" for q ql
  proof -
    have ql: "gm_players g q = Some ql" "hs_pl c \<noteq> Some q" using q by (auto split: option.splits if_splits)
    from views_exactD(3) [OF v ql(1)] obtain d where d: "gm_conns g (pl_conn ql) = Some d" "hs_pl d = Some q" by blast
    with c ql(2) have "pl_conn ql \<noteq> a" by auto
    with d views_exactD(2) [OF v ql(1)] show ?thesis by simp
  qed
  ultimately show ?thesis unfolding views_exact_def by blast
qed

lemma offline_destroy:
  assumes g: "offline_exact g" "connection_destroy a g = Some g'" shows "offline_exact g'"
proof -
  from g(2) obtain g1 c g2 where 1: "upd_conn a request_disconnect g = Some g1" "gm_conns g1 a = Some c"
    "(case hs_pl c of None \<Rightarrow> Some g1 | Some p \<Rightarrow> player_destroy p g1) = Some g2" "g' = g2\<lparr>gm_conns := (gm_conns g2)(a := None)\<rparr>"
    by (auto simp: connection_destroy_def bind_eq_Some_conv)
  have o1: "offline_exact g1" by (rule keepsD [OF offline.disconnect 1(1) g(1)])
  obtain g3 c3 where 3: "offline_exact g3" "gm_conns g3 a = Some c3"
    "g' = g3\<lparr>gm_players := (case hs_pl c3 of None \<Rightarrow> gm_players g3 | Some p \<Rightarrow> (gm_players g3)(p := None)),
      gm_conns := (gm_conns g3)(a := None)\<rparr>"
  proof (cases "hs_pl c")
    case None
    with that [of g1 c] o1 1 show thesis by simp
  next
    case (Some p)
    have "offline_bound a p g1" using o1 1(2) Some by (simp add: offline_bound_def)
    from bound.destroy_leaves [OF this] 1(3) Some obtain g3 where
      g3: "offline_bound a p g3" "g2 = g3\<lparr>gm_players := (gm_players g3)(p := None)\<rparr>" by auto
    then obtain c3 where "gm_conns g3 a = Some c3" "hs_pl c3 = Some p" by (auto simp: offline_bound_def)
    with that [of g3 c3] g3 1(4) show thesis by (simp add: offline_bound_def)
  qed
  have v: "views_exact g'" unfolding 3(3) using views_remove [OF _ 3(2)] 3(1) by (simp add: offline_exact_def)
  show ?thesis by (rule offline_cong [OF 3(1) _ _ _ _ v]) (simp_all add: 3(3))
qed

lemma offline_from_username:
  assumes "offline_exact g" "gm_conns g a = Some c" "hs_state c \<noteq> PS_PLAY" "handler_login env a g = Some g'"
  shows "offline_exact g'"
proof -
  have "\<not> gm_uman_online g" using assms(1) by (simp add: offline_exact_def)
  then obtain u where "uuid_get_success a (hs_name c) u g = Some g'"
    using assms(2,4) by (auto simp: handler_login_def from_username_def split: option.splits)
  from offline_login [OF assms(1-3) this] show ?thesis .
qed

lemma offline_conn:
  assumes "offline_exact g" "gm_conns g a = Some c" "cv_out c' = cv_out c" "hs_pl c' = hs_pl c" "cv_player c' = cv_player c"
    "hs_state c' = hs_state c \<or> hs_state c \<noteq> PS_PLAY \<and> hs_state c' \<noteq> PS_PLAY" "receiving c' \<Longrightarrow> receiving c"
  shows "offline_exact (g\<lparr>gm_conns := (gm_conns g)(a \<mapsto> c')\<rparr>)"
  by (rule offline_cong [OF assms(1)]) (use views_quiet_conn [OF _ assms(2-7)] assms(1) in \<open>simp_all add: offline_exact_def\<close>)

lemma offline_accept: "offline_exact g \<Longrightarrow> offline_exact (on_accept g)"
proof -
  assume g: "offline_exact g"
  then have v: "views_exact g" by (simp add: offline_exact_def)
  have free: "gm_conns g (gm_next_conn g) = None"
    using views_exactD(1) [OF v, of "gm_next_conn g"] by (cases "gm_conns g (gm_next_conn g)") (auto simp: conn_exact_def)
  have "conn_exact (on_accept g) a c" if c: "gm_conns (on_accept g) a = Some c" for a c
  proof (cases "a = gm_next_conn g")
    case True
    then have "c = connection_new" using c by (simp add: on_accept_def)
    with True show ?thesis by (simp add: on_accept_def conn_exact_def connection_new_def)
  next
    case False
    then have "conn_exact g a c" using c views_exactD(1) [OF v] by (simp add: on_accept_def)
    then show ?thesis by (rule conn_exact_frame) (simp_all add: on_accept_def)
  qed
  moreover have "gm_conns (on_accept g) (pl_conn pl) = gm_conns g (pl_conn pl)" if "gm_players g p = Some pl" for p pl
    using views_exactD(3) [OF v that] free by (auto simp: on_accept_def)
  ultimately have "views_exact (on_accept g)"
    using views_exactD(2,3) [OF v] unfolding views_exact_def by (simp add: on_accept_def)
  then show ?thesis by (rule offline_cong [OF g, rotated -1]) (simp_all add: on_accept_def)
qed

interpretation offline: run_invariant env offline_exact "\<lambda>_ _. True" "\<lambda>_. True" for env :: "'p server_env"
proof unfold_locales
  fix g g' :: "'p game" and a c ssec assume g: "offline_exact g" "gm_conns g a = Some c" "hs_state c = PS_LOGIN"
    "accept_secret env a ssec g = Some g'"
  let ?g = "g\<lparr>gm_conns := (gm_conns g)(a \<mapsto> c\<lparr>cv_aes := Some ssec\<rparr>)\<rparr>"
  have o: "offline_exact ?g" by (rule offline_conn [OF g(1,2)]) (simp_all add: receiving_def)
  have off: "\<not> cfg_online (gm_cfg g)" using g(1) by (simp add: offline_exact_def)
  have "handler_login env a ?g = Some g'" using g(4) by (simp add: accept_secret_def upd_conn_def g(2) off)
  with o show "offline_exact g'" using offline_from_username [where g = ?g and a = a and c = "c\<lparr>cv_aes := Some ssec\<rparr>"] g(3) by simp
next
  fix g :: "'p game" and a c c' assume "offline_exact g" "gm_conns g a = Some c" "prelude_step c c'"
  then show "offline_exact (g\<lparr>gm_conns := (gm_conns g)(a \<mapsto> c')\<rparr>)"
    by (intro offline_conn) (auto simp: prelude_step_def receiving_def)
next
  fix g :: "'p game" and a c assume "offline_exact g" "gm_conns g a = Some c"
  then show "offline_exact (g\<lparr>gm_conns := (gm_conns g)(a \<mapsto> c\<lparr>cv_inferred := True\<rparr>)\<rparr>)"
    "offline_exact (g\<lparr>gm_conns := (gm_conns g)(a \<mapsto> c\<lparr>cv_disconnected := True\<rparr>)\<rparr>)"
    by (auto intro: offline_conn simp: receiving_def)
next
  fix g g' :: "'p game" and a c
  assume g: "offline_exact g" "gm_conns g a = Some c" "hs_state c = PS_LOGIN" "handler_login env a g = Some g'"
  show "offline_exact g'" by (rule offline_from_username [OF g(1,2) _ g(4)]) (simp add: g(3))
next
  fix g g' :: "'p game" and a assume "offline_exact g" "connection_destroy a g = Some g'"
  then show "offline_exact g'" by (rule offline_destroy)
next
  fix g :: "'p game" and ps wa w' l l' m assume g: "offline_exact g"
  note f = offline_cong [OF g]
  show "offline_exact (g\<lparr>gm_online := ps\<rparr>)" "offline_exact (g\<lparr>gm_worlds := (gm_worlds g)(wa \<mapsto> w')\<rparr>)"
    "offline_exact (g\<lparr>gm_conn_list := l, gm_gray := l'\<rparr>)" "offline_exact (g\<lparr>gm_uuid_cache := m\<rparr>)"
    using g by (intro f; simp add: offline_exact_def)+
  show "offline_exact (on_accept g)" by (rule offline_accept [OF g])
next
  fix g g' :: "'p game" and a name ssec assume "offline_exact g" "(a, name, ssec) \<in> set (gm_auths g)"
  then show "offline_exact g'" by (simp add: offline_exact_def)
next
  fix g g' :: "'p game" and a name assume "offline_exact g" "(a, name) \<in> set (gm_uuid_jobs g)"
  then show "offline_exact g'" by (simp add: offline_exact_def)
qed

subsection \<open>Players and their connections\<close>

text \<open>
  A connection is in play exactly when it has a player, and then it is one of \<open>A\<close>: any one at all,
  or on a server in online mode one of those that were authenticated.
\<close>

definition in_phase :: "nat set \<Rightarrow> conn_view \<Rightarrow> nat \<Rightarrow> bool" where
  "in_phase A c a \<longleftrightarrow> (hs_state c = PS_PLAY \<longleftrightarrow> hs_pl c \<noteq> None) \<and> (hs_pl c \<noteq> None \<longrightarrow> a \<in> A)"

definition phases :: "nat set \<Rightarrow> 'p game \<Rightarrow> bool" where
  "phases A g \<longleftrightarrow> (\<forall>a c. gm_conns g a = Some c \<longrightarrow> in_phase A c a) \<and> (\<forall>(a, name) \<in> set (gm_uuid_jobs g). a \<in> A) \<and>
     (A = UNIV \<or> cfg_online (gm_cfg g) \<and> cfg_encryption (gm_cfg g))"

lemma phases_cong:
  "phases A g \<Longrightarrow> gm_conns g' = gm_conns g \<Longrightarrow> gm_uuid_jobs g' = gm_uuid_jobs g \<Longrightarrow> gm_cfg g' = gm_cfg g \<Longrightarrow> phases A g'"
  by (simp add: phases_def)

lemma phases_conn:
  assumes "phases A g" "gm_conns g a = Some c" "in_phase A c a \<Longrightarrow> in_phase A c' a"
  shows "phases A (g\<lparr>gm_conns := (gm_conns g)(a \<mapsto> c')\<rparr>)"
  using assms by (auto simp: phases_def)

lemma phases_upd_conn:
  assumes "phases A g" "upd_conn a f g = Some g'" "\<And>c. hs_pl (f c) = hs_pl c \<and> hs_state (f c) = hs_state c"
  shows "phases A g'"
  using assms(1,2) phases_conn [OF assms(1)] assms(3) by (auto simp: upd_conn_def in_phase_def)

lemma phases_send:
  assumes "phases A g" "Option.bind (send_to p m False g) (upd_player p f) = Some g'" shows "phases A g'"
proof -
  from assms(2) obtain a g1 where "upd_conn a (conn_send m False) g = Some g1" "upd_player p f g1 = Some g'"
    by (auto simp: send_to_def bind_eq_Some_conv)
  then show ?thesis using phases_upd_conn [OF assms(1)] phases_cong [of A g1 g'] by (auto simp: upd_player_def)
qed

interpretation phases: game_invariant ops "phases A" "\<lambda>_ _. True" for ops :: "'p provider_ops" and A
proof unfold_locales
  show "keeps (phases A) (upd_conn a (conn_send m d) :: 'p game \<Rightarrow> _)" for m a d
    by (rule keepsI) (erule phases_upd_conn, assumption, simp)
  show "keeps (phases A) (upd_conn a request_disconnect :: 'p game \<Rightarrow> _)" for a
    by (rule keepsI) (erule phases_upd_conn, assumption, simp add: request_disconnect_def)
  show "keeps (phases A) (send_chunk p x z c :: 'p game \<Rightarrow> _)" for p x z c
    by (rule keepsI) (simp add: send_chunk_def phases_send)
  show "keeps (phases A) (unload_chunk p cp :: 'p game \<Rightarrow> _)" for p cp
    by (rule keepsI) (simp add: unload_chunk_def phases_send)
qed (auto elim: phases_cong)

lemma phases_login:
  assumes g: "phases A g" "uuid_get_success a name u g = Some g'" and a: "a \<in> A"
  shows "phases A g'"
proof -
  obtain c where c: "gm_conns g a = Some c" using g(2) by (cases "gm_conns g a") (simp_all add: uuid_get_success_def)
  have "phases A (turned_away a g c)"
    by (rule phases_cong [OF phases_conn [OF g(1) c, of "conn_send (Login_disconnect (str_bytes ''Sorry, server full'')) True c"]])
       (simp_all add: turned_away_def in_phase_def)
  moreover have "phases A (before_login a u name g c)"
    by (rule phases_cong [OF phases_conn [OF g(1) c, of "enter_play (gm_cfg g) (gm_next_pl g) u name c"]])
       (simp_all add: before_login_def in_phase_def a)
  ultimately show ?thesis using g(2) uuid_success_eq [OF c] keepsD [OF phases.player_ops_keep(9)]
    by (auto split: if_splits)
qed

lemma uuid_worker_cases:
  assumes "uuid_worker env a name resp g = Some g'"
  shows "uuid_get_fail a g = Some g' \<or>
    (\<exists>u. uuid_get_success a name u (g\<lparr>gm_uuid_cache := (name, u) # gm_uuid_cache g\<rparr>) = Some g')"
proof (cases "uuid_get_fail a g = Some g'")
  case False
  then obtain body where body: "resp = Some body" using assms by (cases resp) (simp_all add: uuid_worker_def)
  then obtain r where r: "json_reader_read (se_parse env) body = Some r"
    using assms by (cases "json_reader_read (se_parse env) body") (simp_all add: uuid_worker_def)
  then obtain obj s where o: "r = Inr (obj, s)" using False assms body by (cases r) (auto simp: uuid_worker_def)
  then obtain v where v: "json_get (str_bytes ''id'') obj = Some v"
    using False assms body r by (cases "json_get (str_bytes ''id'') obj") (simp_all add: uuid_worker_def)
  then obtain str where "v = J_String str" using False assms body r o by (cases v) (simp_all add: uuid_worker_def)
  then show ?thesis using assms body r o v by (auto simp: uuid_worker_def bind_eq_Some_conv)
qed simp

lemma phases_from_username:
  assumes "phases A g" "handler_login env a g = Some g'" "a \<in> A" shows "phases A g'"
proof -
  have "phases A (g\<lparr>gm_uuid_jobs := gm_uuid_jobs g @ [(a, name)]\<rparr>)" for name
    using assms(1,3) by (auto simp: phases_def)
  then show ?thesis using assms phases_login
    by (auto simp: handler_login_def from_username_def bind_eq_Some_conv split: option.splits if_splits)
qed

lemma phases_destroy:
  assumes g: "phases A g" "connection_destroy a g = Some g'" shows "phases A g'"
proof -
  from g(2) obtain g1 c g2 where 1: "upd_conn a request_disconnect g = Some g1" "gm_conns g1 a = Some c"
    "(case hs_pl c of None \<Rightarrow> Some g1 | Some p \<Rightarrow> player_destroy p g1) = Some g2" "g' = g2\<lparr>gm_conns := (gm_conns g2)(a := None)\<rparr>"
    by (auto simp: connection_destroy_def bind_eq_Some_conv)
  have "phases A g1" by (rule keepsD [OF phases.disconnect 1(1) g(1)])
  have "phases A g2"
  proof (cases "hs_pl c")
    case (Some p)
    with phases.destroy_leaves [OF \<open>phases A g1\<close>] 1(3) obtain g3 where
      "phases A g3" "g2 = g3\<lparr>gm_players := (gm_players g3)(p := None)\<rparr>" by auto
    then show ?thesis by (simp add: phases_cong)
  qed (use 1(3) \<open>phases A g1\<close> in simp)
  then show ?thesis by (auto simp: phases_def 1(4))
qed

fun fair_for :: "nat set \<Rightarrow> game_event \<Rightarrow> bool" where
  "fair_for A (Auth_result a name ssec True) \<longleftrightarrow> a \<in> A"
| "fair_for A _ \<longleftrightarrow> True"

interpretation phases: run_invariant env "phases A" "\<lambda>_ _. True" "fair_for A" for env :: "'p server_env" and A
proof unfold_locales
  fix g :: "'p game" and a c c' assume g: "phases A g" "gm_conns g a = Some c" "prelude_step c c'"
  show "phases A (g\<lparr>gm_conns := (gm_conns g)(a \<mapsto> c')\<rparr>)"
    by (rule phases_conn [OF g(1,2)]) (use g(3) in \<open>auto simp: prelude_step_def in_phase_def\<close>)
next
  fix g :: "'p game" and a c assume g: "phases A g" "gm_conns g a = Some c"
  show "phases A (g\<lparr>gm_conns := (gm_conns g)(a \<mapsto> c\<lparr>cv_inferred := True\<rparr>)\<rparr>)"
    "phases A (g\<lparr>gm_conns := (gm_conns g)(a \<mapsto> c\<lparr>cv_disconnected := True\<rparr>)\<rparr>)"
    by (rule phases_conn [OF g]; simp add: in_phase_def)+
next
  fix g g' :: "'p game" and a assume g: "phases A g" "\<not> cfg_encryption (gm_cfg g)" "handler_login env a g = Some g'"
  then show "phases A g'" using phases_from_username [OF g(1,3)] by (auto simp: phases_def)
next
  fix g g' :: "'p game" and a c ssec
  assume g: "phases A g" "gm_conns g a = Some c" "accept_secret env a ssec g = Some g'"
  let ?g = "g\<lparr>gm_conns := (gm_conns g)(a \<mapsto> c\<lparr>cv_aes := Some ssec\<rparr>)\<rparr>"
  have 1: "phases A ?g" by (rule phases_conn [OF g(1,2)]) (simp add: in_phase_def)
  show "phases A g'"
  proof (cases "cfg_online (gm_cfg g)")
    case True
    then have "g' = ?g\<lparr>gm_auths := gm_auths g @ [(a, hs_name c, ssec)]\<rparr>" using g(2,3) by (simp add: accept_secret_def upd_conn_def)
    then show ?thesis by (intro phases_cong [OF 1]) simp_all
  next
    case False
    then have "handler_login env a ?g = Some g'" "A = UNIV"
      using g by (simp_all add: accept_secret_def upd_conn_def phases_def)
    then show ?thesis using phases_from_username [OF 1] by simp
  qed
next
  fix g :: "'p game" assume g: "phases A g"
  show "phases A (on_accept g)"
    using g by (auto simp: phases_def on_accept_def in_phase_def connection_new_def)
next
  fix g g' :: "'p game" and a assume "phases A g" "connection_destroy a g = Some g'"
  then show "phases A g'" by (rule phases_destroy)
next
  fix g g' :: "'p game" and a name ssec succ
  assume g: "phases A g" "fair_for A (Auth_result a name ssec succ)"
    "auth_cb env a succ (g\<lparr>gm_auths := remove1 (a, name, ssec) (gm_auths g)\<rparr>) = Some g'"
  let ?g = "g\<lparr>gm_auths := remove1 (a, name, ssec) (gm_auths g)\<rparr>"
  have 1: "phases A ?g" by (rule phases_cong [OF g(1)]) simp_all
  show "phases A g'"
  proof (cases succ)
    case True
    then show ?thesis using g(2,3) phases_from_username [OF 1] by (simp add: auth_cb_def)
  next
    case False
    then show ?thesis using g(3) keepsD [OF phases.disconnect _ 1] by (simp add: auth_cb_def)
  qed
next
  fix g g' :: "'p game" and a name resp
  assume g: "phases A g" "(a, name) \<in> set (gm_uuid_jobs g)"
    "uuid_worker env a name resp (g\<lparr>gm_uuid_jobs := remove1 (a, name) (gm_uuid_jobs g)\<rparr>) = Some g'"
  let ?g = "g\<lparr>gm_uuid_jobs := remove1 (a, name) (gm_uuid_jobs g)\<rparr>"
  have "set (remove1 (a, name) (gm_uuid_jobs g)) \<subseteq> set (gm_uuid_jobs g)" by (rule set_remove1_subset)
  then have 1: "phases A ?g" using g(1) unfolding phases_def by auto
  have a: "a \<in> A" using g(1,2) by (auto simp: phases_def)
  have fail: "phases A g'" if "uuid_get_fail a ?g = Some g'"
  proof -
    from that have "gm_conns g' = gm_conns ?g \<and> gm_uuid_jobs g' = gm_uuid_jobs ?g \<and> gm_cfg g' = gm_cfg ?g"
      by (auto simp: uuid_get_fail_def handler_disconnect_def deregister_player_def split: option.splits)
    then show ?thesis by (intro phases_cong [OF 1]) simp_all
  qed
  have succ: "phases A g'" if "uuid_get_success a name u (?g\<lparr>gm_uuid_cache := m\<rparr>) = Some g'" for u m
    by (rule phases_login [OF phases_cong [OF 1] that a]) simp_all
  show "phases A g'" using uuid_worker_cases [OF g(3)] fail succ by auto
qed (auto elim: phases_cong)

end
