(* ===== verification/Session_Safety.thy ===== *)
theory Session_Safety
  imports Client_View World_Reach
begin

text \<open>
  The properties of the running server that its invariants give: what a client sees, who may
  play, which slots a packet can reach, and what an encryption response can bring down.
\<close>

subsection \<open>What players carry\<close>

definition all_carry :: "'p game \<Rightarrow> bool" where
  "all_carry g \<longleftrightarrow> (\<forall>p pl. gm_players g p = Some pl \<longrightarrow> carries pl)"

lemma carry_cong: "all_carry g \<Longrightarrow> gm_players g' = gm_players g \<Longrightarrow> all_carry g'"
  by (simp add: all_carry_def)

lemma carry_player: "all_carry g \<Longrightarrow> carries pl' \<Longrightarrow> all_carry (g\<lparr>gm_players := (gm_players g)(p \<mapsto> pl')\<rparr>)"
  by (simp add: all_carry_def)

lemma carry_upd_conn: "all_carry g \<Longrightarrow> upd_conn a f g = Some g' \<Longrightarrow> all_carry g'"
  by (auto simp: upd_conn_def elim: carry_cong)

lemma carry_send:
  assumes "all_carry g" "Option.bind (send_to p m False g) (upd_player p f) = Some g'" "\<And>pl. carries pl \<Longrightarrow> carries (f pl)"
  shows "all_carry g'"
proof -
  from assms(2) obtain a g1 where 1: "upd_conn a (conn_send m False) g = Some g1" "upd_player p f g1 = Some g'"
    by (auto simp: send_to_def bind_eq_Some_conv)
  from carry_upd_conn [OF assms(1) 1(1)] 1(2) assms(3) show ?thesis by (auto simp: upd_player_def all_carry_def split: if_splits)
qed

interpretation carry: game_invariant ops all_carry "\<lambda>_ _. True" for ops :: "'p provider_ops"
proof unfold_locales
  show "keeps all_carry (send_chunk p x z c :: 'p game \<Rightarrow> _)" for p x z c
    by (rule keepsI) (auto simp: send_chunk_def carries_def elim!: carry_send)
  show "keeps all_carry (unload_chunk p cp :: 'p game \<Rightarrow> _)" for p cp
    by (rule keepsI) (auto simp: unload_chunk_def carries_def elim!: carry_send)
  show "all_carry (g\<lparr>gm_players := (gm_players g)(p \<mapsto> pl')\<rparr>)"
    if "all_carry g" "gm_players g p = Some pl" "same_player pl pl'" for g :: "'p game" and p pl pl'
    using that by (intro carry_player) (auto simp: all_carry_def same_player_def)
qed (auto intro: keepsI carry_upd_conn elim: carry_cong)

lemma carry_login:
  assumes g: "all_carry g" "uuid_get_success a name u g = Some g'" shows "all_carry g'"
proof -
  obtain c where c: "gm_conns g a = Some c" using g(2) by (cases "gm_conns g a") (simp_all add: uuid_get_success_def)
  have "all_carry (turned_away a g c)" using g(1) by (simp add: all_carry_def turned_away_def)
  moreover have "all_carry (before_login a u name g c)"
    using g(1) by (simp add: all_carry_def before_login_def player_init_def carries_def inventory_init_def push_add_range_def window_init_def)
  ultimately show ?thesis using g(2) uuid_success_eq [OF c] keepsD [OF carry.player_ops_keep(9)]
    by (auto split: if_splits)
qed

lemma carry_from_username:
  assumes "all_carry g" "handler_login env a g = Some g'" shows "all_carry g'"
  using assms(2) carry_login [OF assms(1)]
  by (auto simp: handler_login_def from_username_def bind_eq_Some_conv split: option.splits if_splits intro: carry_cong [OF assms(1)])

lemma carry_destroy:
  assumes g: "all_carry g" "connection_destroy a g = Some g'" shows "all_carry g'"
proof -
  from g(2) obtain g1 c g2 where 1: "upd_conn a request_disconnect g = Some g1" and "gm_conns g1 a = Some c"
    and 2: "(case hs_pl c of None \<Rightarrow> Some g1 | Some p \<Rightarrow> player_destroy p g1) = Some g2" "g' = g2\<lparr>gm_conns := (gm_conns g2)(a := None)\<rparr>"
    by (auto simp: connection_destroy_def bind_eq_Some_conv)
  have c1: "all_carry g1" by (rule carry_upd_conn [OF g(1) 1])
  have "all_carry g2"
  proof (cases "hs_pl c")
    case (Some p)
    with carry.destroy_leaves [OF c1] 2(1) obtain g3 where
      "all_carry g3" "g2 = g3\<lparr>gm_players := (gm_players g3)(p := None)\<rparr>" by auto
    then show ?thesis by (simp add: all_carry_def)
  qed (use 2(1) c1 in simp)
  then show ?thesis by (simp add: 2(2) all_carry_def)
qed

interpretation carry: run_invariant env all_carry "\<lambda>_ _. True" "\<lambda>_. True" for env :: "'p server_env"
proof unfold_locales
  fix g g' :: "'p game" and a c ssec
  assume g: "all_carry g" "accept_secret env a ssec g = Some g'"
  then obtain g1 where g1: "upd_conn a (\<lambda>c. c\<lparr>cv_aes := Some ssec\<rparr>) g = Some g1"
    "handler_login env a g1 = Some g' \<or> gm_players g' = gm_players g1"
    by (auto simp: accept_secret_def bind_eq_Some_conv split: if_splits)
  then show "all_carry g'"
    using carry_upd_conn [OF g(1) g1(1)] carry_from_username carry_cong by blast
next
  fix g g' :: "'p game" and a name ssec succ
  assume g: "all_carry g" "auth_cb env a succ (g\<lparr>gm_auths := remove1 (a, name, ssec) (gm_auths g)\<rparr>) = Some g'"
  let ?g = "g\<lparr>gm_auths := remove1 (a, name, ssec) (gm_auths g)\<rparr>"
  have 1: "all_carry ?g" by (rule carry_cong [OF g(1)]) simp
  show "all_carry g'" using g(2) carry_from_username [OF 1] carry_upd_conn [OF 1] by (cases succ) (auto simp: auth_cb_def)
next
  fix g g' :: "'p game" and a name resp
  assume g: "all_carry g" "uuid_worker env a name resp (g\<lparr>gm_uuid_jobs := remove1 (a, name) (gm_uuid_jobs g)\<rparr>) = Some g'"
  let ?g = "g\<lparr>gm_uuid_jobs := remove1 (a, name) (gm_uuid_jobs g)\<rparr>"
  have fail: "all_carry g'" if "uuid_get_fail a ?g = Some g'"
  proof -
    from that have "gm_players g' = gm_players ?g"
      by (auto simp: uuid_get_fail_def handler_disconnect_def deregister_player_def split: option.splits)
    with carry_cong [OF g(1)] show ?thesis by simp
  qed
  have "all_carry (?g\<lparr>gm_uuid_cache := m\<rparr>)" for m by (rule carry_cong [OF g(1)]) simp
  with uuid_worker_cases [OF g(2)] fail carry_login show "all_carry g'" by blast
next
  fix g g' :: "'p game" and a assume "all_carry g" "connection_destroy a g = Some g'"
  then show "all_carry g'" by (rule carry_destroy)
next
  fix g g' :: "'p game" and a assume "all_carry g" "handler_login env a g = Some g'"
  then show "all_carry g'" by (rule carry_from_username)
next
  fix g :: "'p game" assume "all_carry g"
  then show "all_carry (on_accept g)" by (rule carry_cong) (simp add: on_accept_def)
qed (auto elim: carry_cong)

subsection \<open>Sample runs\<close>

text \<open>
  Two sample runs. The environment decrypts one known byte string to the token and everything else
  to the secret; the world has one chunk, the one players spawn in.
\<close>

definition sample_env :: "unit server_env" where
  "sample_env = \<lparr>se_ops = plain_ops, se_num = (\<lambda>_. []), se_parse = (\<lambda>_. 0), se_md5 = (\<lambda>_. replicate 16 0),
     se_decrypt = (\<lambda>ct. Some (if ct = [0] then [1, 2, 3, 4] else replicate 16 0)), se_pub_key = []\<rparr>"

definition sample_cfg :: "bool \<Rightarrow> configuration" where
  "sample_cfg online = default_config\<lparr>cfg_online := online, cfg_encryption := online, cfg_view_dist := 0\<rparr>"

lemma sample_cfg_simps [simp]: "cfg_online (sample_cfg b) = b" "cfg_encryption (sample_cfg b) = b"
    "cfg_view_dist (sample_cfg b) = 0" "cfg_max_players (sample_cfg b) = 12"
  by (simp_all add: sample_cfg_def default_config_def)

text \<open>A handshake that asks to log in, the name, and a response of two encrypted bytes.\<close>

definition hello :: "byte list" where "hello = [7, 0, 47, 1, 0x61, 0x63, 0xDD, 2]"
definition name_packet :: "byte list" where "name_packet = [3, 0, 1, 0x42]"

definition response :: "byte list" where "response = [5, 1, 1, 9, 1, 0]"

definition at_byte :: "byte list \<Rightarrow> nat \<Rightarrow> packet_reader" where
  "at_byte bs n = (packet_reader_init bs)\<lparr>pr_pos := n\<rparr>"

lemma hello_reads:
  "infer_handle (packet_reader_init hello) = Some (Some ''1.8'')" "pr_rewind (packet_reader_init hello) = at_byte hello 0"
  "pr_read_varint (at_byte hello 0) = Some (7, at_byte hello 1)" "pr_read_varint (at_byte hello 1) = Some (0, at_byte hello 2)"
  "pr_read_varint (at_byte hello 2) = Some (47, at_byte hello 3)" "pr_read_string 256 (at_byte hello 3) = Some (Some [0x61], at_byte hello 5)"
  "pr_read_short (at_byte hello 5) = Some (0x63DD, at_byte hello 7)" "pr_read_varint (at_byte hello 7) = Some (2, at_byte hello 8)"
  by code_simp+

lemma name_reads:
  "packet_reader_init name_packet = at_byte name_packet 0"
  "pr_read_varint (at_byte name_packet 0) = Some (3, at_byte name_packet 1)" "pr_read_varint (at_byte name_packet 1) = Some (0, at_byte name_packet 2)"
  "pr_read_string 256 (at_byte name_packet 2) = Some (Some [0x42], at_byte name_packet 4)"
  by code_simp+

lemma response_reads:
  "packet_reader_init response = at_byte response 0"
  "pr_read_varint (at_byte response 0) = Some (5, at_byte response 1)" "pr_read_varint (at_byte response 1) = Some (1, at_byte response 2)"
  "pr_read_varint (at_byte response 2) = Some (1, at_byte response 3)" "pr_read_bytes 1 (at_byte response 3) = Some ([9], at_byte response 4)"
  "pr_read_varint (at_byte response 4) = Some (1, at_byte response 5)" "pr_read_bytes 1 (at_byte response 5) = Some ([0], at_byte response 6)"
  by code_simp+

definition shaken :: conn_view where
  "shaken = connection_new\<lparr>cv_inferred := True, hs_state := PS_LOGIN\<rparr>"

definition after_hello :: "configuration \<Rightarrow> 'p world \<Rightarrow> 'p game" where
  "after_hello cfg w = (on_accept (server_boot cfg w))\<lparr>gm_conns := [0 \<mapsto> shaken]\<rparr>"

lemma hello_step: "conn_handle env rnd 0 (packet_reader_init hello) (on_accept (server_boot cfg w)) = Some (Some (after_hello cfg w))"
  by (simp del: One_nat_def add: conn_handle_def on_accept_def server_boot_def connection_new_def hello_reads upd_conn_def mc18_handle_def
      dispatch_def handle_h00_def after_hello_def shaken_def)

lemma hello_runs: "runs_to env (server_boot cfg w) [Accept, Packet 0 rnd hello] (after_hello cfg w)"
  by (rule run_events_runs) (simp add: hello_step, simp add: on_accept_def server_boot_def connection_new_def)

lemma dbl_0: "double_of_int 0 = 0"
  by (simp add: double_of_int_def)

lemma top_bit_step: "1 < n \<Longrightarrow> top_bit n = Suc (top_bit (n div 2))" "top_bit 1 = 0"
  by (subst top_bit.simps, simp)+

lemma dbl_66: "double_of_int 66 = 0x4050800000000000"
proof -
  have "top_bit 66 = 6"
    using top_bit_step(1) [of 66] top_bit_step(1) [of 33] top_bit_step(1) [of 16] top_bit_step(1) [of 8]
      top_bit_step(1) [of 4] top_bit_step(1) [of 2] top_bit_step(2) by simp
  then show ?thesis by (simp add: double_of_int_def)
qed

lemma spawn_chunk: "chunk_pos_of_entity flatgrass_find_spawn = Some (chunk_pos_make 0 0)"
  by (simp add: flatgrass_find_spawn_def chunk_pos_of_entity_def entity_pos_make_def dbl_0 dbl_66 double_trunc_def chunk_pos_make_def)

lemma spawn_block: "block_pos_of_entity flatgrass_find_spawn = Some (block_pos_make 0 66 0)"
  by (simp add: flatgrass_find_spawn_def block_pos_of_entity_def entity_pos_make_def dbl_0 dbl_66
      double_trunc_def block_pos_make_def Let_def drop_bit_eq_div bit_iff_odd)

lemma enter_play_sends:
  "receiving c \<Longrightarrow> receiving (enter_play cfg p u name c) \<and> cv_disconnected (enter_play cfg p u name c) = False"
  by (simp add: enter_play_def conn_send_def receiving_def Let_def)

lemma receiving_conn_send [simp]: "receiving c \<Longrightarrow> receiving (conn_send m False c)"
  by (simp add: conn_send_def receiving_def)

lemma receiving_connected: "receiving c \<Longrightarrow> \<not> cv_disconnected c"
  by (simp add: receiving_def)

lemma chunk_pos_simps [simp]: "cp_x (chunk_pos_make x z) = x" "cp_z (chunk_pos_make x z) = z" "chunk_pos_eq cp cp"
  by (simp_all add: chunk_pos_make_def chunk_pos_eq_def)

lemma sample_join:
  assumes c: "receiving c" "hs_pl c = Some 0" and cfg: "cfg_view_dist cfg = 0"
  shows "\<exists>g d pl. on_login 0 \<lparr>gm_cfg = cfg, gm_conns = [0 \<mapsto> c], gm_players = [0 \<mapsto> (player_init 0 u name 0)\<lparr>pl_gm := GM_CREATIVE\<rparr>],
     gm_worlds = [0 \<mapsto> lone_world], gm_gens = (\<lambda>_. \<lparr>ag_next_tok = 1, ag_toks = []\<rparr>), gm_jobs = [], gm_conn_list = [0], gm_gray = [],
     gm_online = [0], gm_auths = as, gm_uuid_jobs = us, gm_uuid_cache = m, gm_uman_online = b, gm_main_world = 0,
     gm_next_pl = 1, gm_next_conn = 1, gm_next_eid = 1\<rparr> = Some g \<and>
     gm_conns g 0 = Some d \<and> gm_players g 0 = Some pl \<and> receiving d \<and> hs_pl d = Some 0 \<and> pl_vis pl = [chunk_pos_make 0 0]"
  unfolding on_login_def join_world_def stream_chunks_def
  apply (simp add: message_def send_to_def upd_conn_def upd_player_def player_init_def)
  apply (simp add: lone_world_def world_empty_def plain_info_def upd_world_def add_player_def make_token_def spawn_chunk
      chunk_square_def view_dist_def cfg by_distance_def upd_player_def)
  apply (simp add: request_chunk_def generate_def get_chunk_def on_chunk_loaded_def conn_of_def out_of_bounds_def c
      receiving_connected send_to_def upd_conn_def upd_player_def spawn_chunk spawn_block set_emplace_def Let_def)
  apply (simp add: player_entity_spawn_def entity_spawn_def spawn_chunk get_chunk_def out_of_bounds_def upd_player_def
      upd_world_def upd_chunk_def register_entity_def)
  apply (simp add: exchange_list_entries_def send_to_def upd_conn_def upd_player_def chunk_square_def view_dist_def cfg
      show_entities_def get_chunk_def out_of_bounds_def spawn_chunk)
  apply (simp add: chunk_init_def c)
  done

text \<open>The login of a server in offline mode.\<close>

lemma offline_run:
  "\<exists>g d pl. runs_to sample_env (server_boot (sample_cfg False) lone_world) [Accept, Packet 0 [] hello, Packet 0 [] name_packet] g \<and>
     gm_conns g 0 = Some d \<and> gm_players g 0 = Some pl \<and> receiving d \<and> hs_pl d = Some 0 \<and> pl_vis pl = [chunk_pos_make 0 0]"
proof -
  let ?c = "enter_play (sample_cfg False) 0 (generate_v3 (se_md5 sample_env) [0x42]) [0x42] (shaken\<lparr>hs_name := [0x42]\<rparr>)"
  have c: "receiving ?c" by (intro conjunct1 [OF enter_play_sends]) (simp add: shaken_def connection_new_def receiving_def)
  from sample_join [OF c, of "sample_cfg False" "generate_v3 (se_md5 sample_env) [0x42]" "[0x42]" "[]" "[]" "[]" False]
  obtain g d pl where g: "on_login 0 (before_login 0 (generate_v3 (se_md5 sample_env) [0x42]) [0x42]
      ((after_hello (sample_cfg False) lone_world)\<lparr>gm_conns := [0 \<mapsto> shaken\<lparr>hs_name := [0x42]\<rparr>]\<rparr>) (shaken\<lparr>hs_name := [0x42]\<rparr>)) = Some g"
    and r: "gm_conns g 0 = Some d" "gm_players g 0 = Some pl" "receiving d" "hs_pl d = Some 0" "pl_vis pl = [chunk_pos_make 0 0]"
    by (auto simp: before_login_def after_hello_def on_accept_def server_boot_def)
  have "conn_handle sample_env [] 0 (packet_reader_init name_packet) (after_hello (sample_cfg False) lone_world) = Some (Some g)"
    using g by (simp del: One_nat_def add: conn_handle_def after_hello_def on_accept_def server_boot_def shaken_def connection_new_def name_reads upd_conn_def
      mc18_handle_def dispatch_def handle_l00_def c_str_def handler_login_def from_username_def uuid_success_eq)
  with hello_runs have "runs_to sample_env (server_boot (sample_cfg False) lone_world)
      ([Accept, Packet 0 [] hello] @ [Packet 0 [] name_packet]) g"
    by (intro runs_to.event) (simp_all add: after_hello_def shaken_def connection_new_def)
  with r show ?thesis by auto
qed

text \<open>On a server in online mode: after the name, after the response, and the login.\<close>

definition named :: conn_view where
  "named = conn_send (Encryption_request [] [] [1, 2, 3, 4]) False (shaken\<lparr>hs_name := [0x42], hs_vtoken := Some [1, 2, 3, 4]\<rparr>)"

definition after_name :: "'p world \<Rightarrow> 'p game" where
  "after_name w = (after_hello (sample_cfg True) w)\<lparr>gm_conns := [0 \<mapsto> named]\<rparr>"

lemma name_runs:
  "runs_to sample_env (server_boot (sample_cfg True) w) [Accept, Packet 0 [] hello, Packet 0 [1, 2, 3, 4] name_packet] (after_name w)"
proof -
  have "conn_handle sample_env [1, 2, 3, 4] 0 (packet_reader_init name_packet) (after_hello (sample_cfg True) w) = Some (Some (after_name w))"
    by (simp del: One_nat_def add: conn_handle_def after_hello_def on_accept_def server_boot_def shaken_def connection_new_def name_reads
      upd_conn_def mc18_handle_def dispatch_def handle_l00_def c_str_def after_name_def named_def sample_env_def)
  with hello_runs have "runs_to sample_env (server_boot (sample_cfg True) w)
      ([Accept, Packet 0 [] hello] @ [Packet 0 [1, 2, 3, 4] name_packet]) (after_name w)"
    by (intro runs_to.event) (simp_all add: after_hello_def shaken_def connection_new_def)
  then show ?thesis by simp
qed

lemma named_simps [simp]: "hs_state named = PS_LOGIN" "hs_pl named = None" "hs_vtoken named = Some [1, 2, 3, 4]"
    "hs_name named = [0x42]" "cv_inferred named" "receiving named" "\<not> cv_disconnected named"
  by (simp_all add: named_def conn_send_def shaken_def connection_new_def receiving_def)

lemma zeros_not_token: "replicate 16 (0 :: byte) \<noteq> [1, 2, 3, 4]"
  by (rule notI) (drule arg_cong [where f = length], simp)

definition secret_sent :: "unit game" where
  "secret_sent = (after_name lone_world)\<lparr>gm_conns := [0 \<mapsto> named\<lparr>cv_aes := Some (replicate 16 0)\<rparr>],
     gm_auths := [(0, [0x42], replicate 16 0)], gm_uuid_cache := [([0x42], replicate 16 7)]\<rparr>"

lemma secret_runs:
  "runs_to sample_env (server_boot (sample_cfg True) lone_world) ([Accept, Packet 0 [] hello, Packet 0 [1, 2, 3, 4] name_packet] @
     [Packet 0 [] response, Prefetched [0x42] (replicate 16 7)]) secret_sent"
proof (rule run_events_from [OF name_runs])
  have "conn_handle sample_env [] 0 (packet_reader_init response) (after_name lone_world) =
    Some (Some ((after_name lone_world)\<lparr>gm_conns := [0 \<mapsto> named\<lparr>cv_aes := Some (replicate 16 0)\<rparr>], gm_auths := [(0, [0x42], replicate 16 0)]\<rparr>))"
    by (simp del: One_nat_def add: conn_handle_def after_name_def after_hello_def on_accept_def server_boot_def response_reads
      upd_conn_def mc18_handle_def dispatch_def handle_l01_def check_response_def accept_secret_def sample_env_def)
  then show "run_events sample_env [Packet 0 [] response, Prefetched [0x42] (replicate 16 7)] (after_name lone_world) = Some secret_sent"
    by (simp add: uman_insert_def secret_sent_def) (simp add: after_name_def after_hello_def on_accept_def server_boot_def)
qed

lemma online_run:
  "\<exists>evs g d. runs_to sample_env (server_boot (sample_cfg True) lone_world) evs g \<and> gm_conns g 0 = Some d \<and> hs_pl d = Some 0"
proof -
  let ?s = "named\<lparr>cv_aes := Some (replicate 16 0)\<rparr>"
  let ?c = "enter_play (sample_cfg True) 0 (replicate 16 7) [0x42] ?s"
  have c: "receiving ?c" by (intro conjunct1 [OF enter_play_sends]) (use named_simps(6) in \<open>simp add: receiving_def\<close>)
  from sample_join [OF c, of "sample_cfg True" "replicate 16 7" "[0x42]" "[]" "[]" "[([0x42], replicate 16 7)]" True]
  obtain g d where g: "on_login 0 (before_login 0 (replicate 16 7) [0x42] (secret_sent\<lparr>gm_auths := []\<rparr>) ?s) = Some g"
    and r: "gm_conns g 0 = Some d" "hs_pl d = Some 0"
    by (auto simp: before_login_def secret_sent_def after_name_def after_hello_def on_accept_def server_boot_def)
  have s: "gm_conns secret_sent 0 = Some ?s" "gm_auths secret_sent = [(0, [0x42], replicate 16 0)]"
    "gm_uuid_cache secret_sent = [([0x42], replicate 16 7)]" "gm_online secret_sent = []" "gm_cfg secret_sent = sample_cfg True"
    "gm_next_pl secret_sent = 0"
    by (simp_all add: secret_sent_def after_name_def after_hello_def on_accept_def server_boot_def)
  have "game_step sample_env (Auth_result 0 [0x42] (replicate 16 0) True) secret_sent = Some (Some g)"
    using g s by (simp add: auth_cb_def handler_login_def from_username_def uuid_success_eq)
  from runs_to.event [OF secret_runs _ this] s(2) r show ?thesis by auto
qed

subsection \<open>Properties of every run\<close>

lemma boot_ok:
  "\<not> cfg_online cfg \<Longrightarrow> offline_exact (server_boot cfg mw)" "phases UNIV (server_boot cfg mw)"
  "cfg_online cfg \<Longrightarrow> cfg_encryption cfg \<Longrightarrow> phases A (server_boot cfg mw)" "all_carry (server_boot cfg mw)"
  by (simp_all add: offline_exact_def views_exact_def phases_def all_carry_def server_boot_def)

lemma fair_for_iff: "fair_for A ev \<longleftrightarrow> (\<forall>a name ssec. ev = Auth_result a name ssec True \<longrightarrow> a \<in> A)"
  by (cases "(A, ev)" rule: fair_for.cases) auto

text \<open>
  C1: on a server in offline mode, whatever clients send and in whatever order jobs, timers and
  packets run, the chunks in the client's memory (those of the chunk packets sent to it that were
  not unloaded since) are exactly the ones the server has noted as visible for its player, as long
  as packets go out to it; and a client without a player holds none.
\<close>

theorem client_view_exact:
  assumes "\<not> cfg_online cfg" "runs_to env (server_boot cfg mw) evs g" "gm_conns g a = Some c" "receiving c"
  shows "case hs_pl c of None \<Rightarrow> client_view (cv_out c) = {}
    | Some p \<Rightarrow> \<exists>pl. gm_players g p = Some pl \<and> pl_conn pl = a \<and> client_view (cv_out c) = set (pl_vis pl)"
proof -
  have "offline_exact g" by (rule offline.runs_keep [OF assms(2) boot_ok(1) [OF assms(1)]]) simp
  then have "conn_exact g a c" using assms(3) by (simp add: offline_exact_def views_exactD(1))
  then show ?thesis using assms(4) by (auto simp: conn_exact_def split: option.splits)
qed

theorem client_view_exact_witness:
  "\<exists>evs g c pl. runs_to sample_env (server_boot (sample_cfg False) lone_world) evs g \<and> gm_conns g 0 = Some c \<and>
     gm_players g 0 = Some pl \<and> client_view (cv_out c) = set (pl_vis pl) \<and> pl_vis pl = [chunk_pos_make 0 0]"
proof -
  obtain g c pl where g: "runs_to sample_env (server_boot (sample_cfg False) lone_world) [Accept, Packet 0 [] hello, Packet 0 [] name_packet] g"
    "gm_conns g 0 = Some c" "gm_players g 0 = Some pl" "receiving c" "hs_pl c = Some 0" "pl_vis pl = [chunk_pos_make 0 0]"
    using offline_run by blast
  from client_view_exact [OF _ g(1,2,4)] g(3,5) have "client_view (cv_out c) = set (pl_vis pl)" by simp
  with g(1-3,6) show ?thesis by blast
qed

text \<open>
  C2: on a server in online mode with encryption nobody plays without having been authenticated:
  a connection in the play state, or with a player, has had a positive answer of the
  authenticator to a request of its own.
\<close>

theorem online_players_authenticated:
  assumes "cfg_online cfg" "cfg_encryption cfg" "runs_to env (server_boot cfg mw) evs g"
    and "gm_conns g a = Some c" "hs_state c = PS_PLAY \<or> hs_pl c \<noteq> None"
  shows "\<exists>name ssec. Auth_result a name ssec True \<in> set evs"
proof -
  let ?A = "{a. \<exists>name ssec. Auth_result a name ssec True \<in> set evs}"
  have "fair_for ?A ev" if "ev \<in> set evs" for ev
    using that unfolding fair_for_iff by blast
  then have "phases ?A g" using phases.runs_keep [OF assms(3) boot_ok(3) [OF assms(1,2)]] by blast
  then show ?thesis using assms(4,5) by (auto simp: phases_def in_phase_def)
qed

theorem online_players_authenticated_witness:
  "\<exists>evs g name ssec. runs_to sample_env (server_boot (sample_cfg True) lone_world) evs g \<and> Auth_result 0 name ssec True \<in> set evs"
proof -
  obtain evs g c where g: "runs_to sample_env (server_boot (sample_cfg True) lone_world) evs g" "gm_conns g 0 = Some c" "hs_pl c = Some 0"
    using online_run by blast
  have "\<exists>name ssec. Auth_result 0 name ssec True \<in> set evs"
    by (rule online_players_authenticated [OF _ _ g(1,2)]) (simp_all add: g(3))
  with g(1) show ?thesis by blast
qed

text \<open>
  C4: in every state the server can reach, an inventory has its 45 slots and the held slot is one
  of the nine of the hotbar, so that the placing of blocks never indexes the inventory out of
  bounds, and neither does the creative inventory packet with any slot it lets through.
\<close>

theorem held_slot_in_bounds:
  assumes "runs_to env (server_boot cfg mw) evs g" "gm_players g p = Some pl"
  shows "pl_cur_slot pl \<le> 8 \<and> window_get (36 + pl_cur_slot pl) (pl_inv pl) \<noteq> None \<and>
    (\<forall>slot item. 1 \<le> sint (slot :: u16) \<and> sint slot \<le> 44 \<longrightarrow> window_set (unat slot) item (pl_inv pl) \<noteq> None)"
proof -
  have "all_carry g" by (rule carry.runs_keep [OF assms(1) boot_ok(4)]) simp
  then have c: "length (w_slots (pl_inv pl)) = 45" "pl_cur_slot pl \<le> 8" using assms(2) by (auto simp: all_carry_def carries_def)
  have "unat slot < 45" if "1 \<le> sint slot" "sint slot \<le> 44" for slot :: u16
    using carry.slot_number [of slot] that by linarith
  with c show ?thesis by (simp add: window_get_def window_set_def)
qed

theorem held_slot_in_bounds_witness:
  "\<exists>g pl. runs_to sample_env (server_boot (sample_cfg False) lone_world) [Accept, Packet 0 [] hello, Packet 0 [] name_packet] g \<and>
     gm_players g 0 = Some pl \<and> pl_cur_slot pl \<le> 8"
proof -
  obtain g pl where g: "runs_to sample_env (server_boot (sample_cfg False) lone_world) [Accept, Packet 0 [] hello, Packet 0 [] name_packet] g"
    "gm_players g 0 = Some pl" using offline_run by blast
  with held_slot_in_bounds [OF g] show ?thesis by blast
qed

text \<open>
  C5: an encryption response whose token does not decrypt to the one that was sent, or whose secret
  is not sixteen bytes long, crashes the server in every state it can reach: the log line that
  reports it asks for the name of a player who does not exist before the login is complete.
\<close>

theorem bad_response_crashes:
  assumes "runs_to env (server_boot cfg mw) evs g" "gm_conns g a = Some c" "hs_state c = PS_LOGIN"
    and "hs_vtoken c = Some token" "se_decrypt env token_enc = Some rec"
    and "rec \<noteq> token \<or> (\<exists>ssec. se_decrypt env secret_enc = Some ssec \<and> length ssec \<noteq> 16)"
  shows "check_response env a secret_enc token_enc g = None"
proof -
  have "phases UNIV g" by (rule phases.runs_keep [OF assms(1) boot_ok(2)]) (simp add: fair_for_iff)
  then have "in_phase UNIV c a" using assms(2) by (simp add: phases_def)
  then have "hs_pl c = None" using assms(3) by (simp add: in_phase_def)
  then have "refuse_response a g = None" using assms(2) by (simp add: refuse_response_def)
  then show ?thesis using assms(2,4-6) by (auto simp: check_response_def)
qed

theorem bad_response_crashes_witness:
  "check_response sample_env 0 [9] [5] (after_name lone_world) = None"
  by (rule bad_response_crashes [OF name_runs, where c = named and token = "[1, 2, 3, 4]" and rec = "replicate 16 0"])
     (simp_all add: after_name_def sample_env_def zeros_not_token)

text \<open>The authenticator's answer lets in whoever gave the last name, not the one it was asked about.\<close>

lemma login_takes_last_name:
  assumes "gm_conns g a = Some c" "gm_uman_online g" "map_of (gm_uuid_cache g) (hs_name c) = None"
  shows "game_step env (Auth_result a name ssec True) g = Some (Some (g\<lparr>gm_auths := remove1 (a, name, ssec) (gm_auths g),
    gm_uuid_jobs := gm_uuid_jobs g @ [(a, hs_name c)]\<rparr>))"
  using assms by (simp add: auth_cb_def handler_login_def from_username_def)

end
