(* ===== verification/Block_Safety.thy ===== *)
theory Block_Safety
  imports Session_Safety World_Reach
begin

text \<open>
  Who can change a block: an invariant about one block of one world that everything but the two
  packets for digging and placing keeps, and what those two do to the blocks.
\<close>

subsection \<open>One block\<close>

text \<open>A change of a world that keeps the types of all blocks of loaded chunks.\<close>

definition blocks_kept :: "'p world \<Rightarrow> 'p world \<Rightarrow> bool" where
  "blocks_kept w w' \<longleftrightarrow> world_ok w \<longrightarrow> world_ok w' \<and> w_inf w' = w_inf w \<and>
     (\<forall>x y z. unat y < 256 \<longrightarrow> get_chunk (hi28 x) (hi28 z) w \<noteq> None \<longrightarrow>
        get_chunk (hi28 x) (hi28 z) w' \<noteq> None \<and> world_get_id x y z w' = world_get_id x y z w)"

lemma blocks_kept_trans: "blocks_kept u v \<Longrightarrow> blocks_kept v w \<Longrightarrow> blocks_kept u w"
  by (simp add: blocks_kept_def)

lemma blocks_kept_players: "blocks_kept w (w\<lparr>w_pls := ps\<rparr>)"
  by (simp add: blocks_kept_def world_get_id_def split: option.split)

lemma blocks_kept_relit:
  assumes r: "relit w w'" shows "blocks_kept w w'"
proof -
  have "w_inf w' = w_inf w" using r by (auto simp: relit_def)
  then show ?thesis using relit_world_ok [OF _ r] relit_get [OF r] world_get_id_relit [OF _ r] by (simp add: blocks_kept_def)
qed

lemma blocks_kept_entities:
  assumes c: "w_heap w ch = Some c" shows "blocks_kept w (w\<lparr>w_heap := (w_heap w)(ch \<mapsto> c\<lparr>ch_ents := es\<rparr>)\<rparr>)"
proof -
  have "world_ok (w\<lparr>w_heap := (w_heap w)(ch \<mapsto> c\<lparr>ch_ents := es\<rparr>)\<rparr>)" if "world_ok w"
  proof (rule world_ok_upd_place [OF that c])
    have "chunk_wf c" using that c store_ok_wf by (auto simp: world_ok_def)
    then show "chunk_wf (c\<lparr>ch_ents := es\<rparr>)" by (simp add: chunk_wf_def chunk_ok_def heights_ok_def id_at_def chunk_cell_def)
  qed (simp_all add: pos_of_def key_of_def get_neighbour_def)
  moreover have "world_get_id x y z (w\<lparr>w_heap := (w_heap w)(ch \<mapsto> c\<lparr>ch_ents := es\<rparr>)\<rparr>) = world_get_id x y z w" for x y z
    using c by (auto simp: world_get_id_def chunk_get_id_def sub_at_def Let_def intro!: Option.bind_cong split: option.splits)
  ultimately show ?thesis by (simp add: blocks_kept_def)
qed

lemma relinked_ids: "relinked_chunk c c' \<Longrightarrow> id_at c' x y z = id_at c x y z"
  by (auto simp: relinked_chunk_def id_at_def chunk_cell_def)

lemma loads_keep:
  assumes ok: "world_ok w" and l: "loads x z w a w'" and present: "get_chunk x z w = None \<or> w' = w"
  shows "blocks_kept w w'"
proof -
  have ok': "world_ok w'" "w_inf w' = w_inf w" using l by (simp_all add: loads_def)
  have "get_chunk (hi28 bx) (hi28 bz) w' \<noteq> None \<and> world_get_id bx y bz w' = world_get_id bx y bz w"
    if y: "unat y < 256" and g: "get_chunk (hi28 bx) (hi28 bz) w \<noteq> None" for bx y bz
  proof (cases "w' = w")
    case False
    obtain b where b: "get_chunk (hi28 bx) (hi28 bz) w = Some b" using g by blast
    then have "(hi28 bx, hi28 bz) \<noteq> (x, z)" using False present by auto
    with l b have b': "get_chunk (hi28 bx) (hi28 bz) w' = Some b" by (simp add: loads_def)
    obtain c where c: "w_heap w b = Some c" by (rule get_chunk_live [OF ok b])
    with l have "\<exists>c'. w_heap w' b = Some c' \<and> relinked_chunk c c'" unfolding loads_def by blast
    then obtain c' where c': "w_heap w' b = Some c'" "relinked_chunk c c'" by blast
    from world_get_id_at [OF ok b c y] world_get_id_at [OF ok'(1) b' c'(1) y] relinked_ids [OF c'(2)] b'
    show ?thesis by simp
  qed (use g in simp)
  with ok' show ?thesis by (simp add: blocks_kept_def)
qed

lemma load_keeps:
  assumes prov: "provider_ok ops" and l: "load_chunk ops x z w = Some (a, w')"
  shows "blocks_kept w w'"
proof (cases "world_ok w")
  case True
  have "get_chunk x z w = None \<or> w' = w"
    using load_present [OF True] l by (cases "get_chunk x z w") auto
  then show ?thesis by (rule loads_keep [OF True load_chunk_ok [OF True prov l]])
qed (simp add: blocks_kept_def)

subsection \<open>Writing a block\<close>

text \<open>After a write every block of a loaded chunk but the one that is written has its type.\<close>

definition only_block :: "u32 \<Rightarrow> u32 \<Rightarrow> u32 \<Rightarrow> 'p world \<Rightarrow> 'p world \<Rightarrow> bool" where
  "only_block x y z w w' \<longleftrightarrow> (\<forall>x' y' z'. unat y' < 256 \<longrightarrow> get_chunk (hi28 x') (hi28 z') w \<noteq> None \<longrightarrow>
     \<not> out_of_bounds w (hi28 x') (hi28 z') \<longrightarrow> get_chunk (hi28 x') (hi28 z') w' \<noteq> None \<and>
       (world_get_id x' y' z' w' = world_get_id x' y' z' w \<or> x' = x \<and> y' = y \<and> z' = z))"

lemma write_keeps_others:
  assumes ok: "world_ok w" and prov: "provider_ok ops" and y: "unat y < 256"
    and f: "id_write f (lo4 x) (unat y) (lo4 z) i"
    and s: "(case chunk_to_set ops x z i w of
       None \<Rightarrow> Some None
     | Some (None, w) \<Rightarrow> Some (Some w)
     | Some (Some a, w) \<Rightarrow> (case upd_chunk a f w of
         None \<Rightarrow> Some None
       | Some w \<Rightarrow> enqueue_sl x y z w)) = Some (Some w')"
  shows "only_block x y z w w'"
  using chunk_to_set_ok [OF ok prov, of x z i]
proof
  assume "chunk_to_set ops x z i w = Some (None, w) \<and> i = 0"
  then have "chunk_to_set ops x z i w = Some (None, w)" by (rule conjunct1)
  from s [unfolded this] show ?thesis by (simp add: only_block_def)
next
  assume "\<exists>a w1. chunk_to_set ops x z i w = Some (Some a, w1) \<and> loads (hi28 x) (hi28 z) w a w1"
  then obtain a w1 where 1: "chunk_to_set ops x z i w = Some (Some a, w1)" "loads (hi28 x) (hi28 z) w a w1" by blast
  have "get_chunk (hi28 x) (hi28 z) w = None \<or> w1 = w"
    using 1(1) by (cases "get_chunk (hi28 x) (hi28 z) w") (simp_all add: chunk_to_set_def)
  from loads_keep [OF ok 1(2) this] ok have kept: "world_ok w1" "w_inf w1 = w_inf w"
    "\<And>x y z. unat y < 256 \<Longrightarrow> get_chunk (hi28 x) (hi28 z) w \<noteq> None \<Longrightarrow>
      get_chunk (hi28 x) (hi28 z) w1 \<noteq> None \<and> world_get_id x y z w1 = world_get_id x y z w"
    by (simp_all add: blocks_kept_def)
  have a: "get_chunk (hi28 x) (hi28 z) w1 = Some a" using 1(2) by (simp add: loads_def)
  obtain c where c: "w_heap w1 a = Some c" "chunk_wf c" by (rule get_chunk_live [OF kept(1) a])
  have "in_chunk (lo4 x) (unat y) (lo4 z)" using y by (simp add: in_chunk_def)
  with f c(2) obtain c' where c': "f c = Some c'" "chunk_wf c'" "chunk_frame c c'"
    and ids: "\<And>x' y' z'. in_chunk x' y' z' \<Longrightarrow>
      id_at c' x' y' z' = (if x' = lo4 x \<and> y' = unat y \<and> z' = lo4 z then i else id_at c x' y' z')"
    unfolding id_write_def by auto
  let ?w = "w1\<lparr>w_heap := (w_heap w1)(a \<mapsto> c')\<rparr>"
  have ok': "world_ok ?w" by (rule world_ok_upd [OF kept(1) c(1) c'(2,3)])
  have "enqueue_sl x y z ?w = Some (Some w')" using s 1(1) c(1) c'(1) by (simp add: upd_chunk_def)
  with enqueue_sl_runs [OF ok', of x y z] have r: "relit ?w w'" by (simp add: runs_def)
  show ?thesis unfolding only_block_def
  proof (intro allI impI)
    fix x' y' z' :: u32 assume q: "unat y' < 256" "get_chunk (hi28 x') (hi28 z') w \<noteq> None" "\<not> out_of_bounds w (hi28 x') (hi28 z')"
    have "world_get_id x' y' z' w' = (if cell_of w1 x' y' z' = cell_of w1 x y z then Some i else world_get_id x' y' z' w1)"
      using world_get_id_relit [OF ok' r q(1)] world_get_id_upd [OF kept(1) a c(1) c'(2,3) q(1) ids] by (rule trans)
    moreover have "cell_of w1 x' y' z' = cell_of w1 x y z \<Longrightarrow> x' = x \<and> y' = y \<and> z' = z"
    proof -
      have ins: "\<not> out_of_bounds w1 (hi28 x') (hi28 z')" using q(3) kept(2) by (simp add: out_of_bounds_def)
      assume "cell_of w1 x' y' z' = cell_of w1 x y z"
      with cell_of_inj [OF kept(1) conjunct1 [OF kept(3) [OF q(1,2)]] ins, where x' = x and y' = y and z' = z and y = y']
      show ?thesis by simp
    qed
    moreover have "get_chunk (hi28 x') (hi28 z') w' = get_chunk (hi28 x') (hi28 z') w1" using relit_get [OF r] by simp
    ultimately show "get_chunk (hi28 x') (hi28 z') w' \<noteq> None \<and>
        (world_get_id x' y' z' w' = world_get_id x' y' z' w \<or> x' = x \<and> y' = y \<and> z' = z)"
      using kept(3) [OF q(1,2)] by (auto split: if_splits)
  qed
qed

lemma world_set_others:
  assumes "world_ok w" "provider_ok ops" "unat y < 256" "unat i < 4096"
  shows "world_set_id ops x y z i w = Some (Some w') \<Longrightarrow> only_block x y z w w'"
    and "unat m < 16 \<Longrightarrow> world_set_id_and_meta ops x y z i m w = Some (Some w') \<Longrightarrow> only_block x y z w w'"
  using write_keeps_others [OF assms(1-3) set_id_write [OF assms(4)]]
    write_keeps_others [OF assms(1-3) set_id_and_meta_write [OF assms(4)]]
  by (simp_all add: world_set_id_def world_set_id_and_meta_def)

subsection \<open>The block in the running server\<close>

definition block_is :: "'p provider_ops \<Rightarrow> nat \<Rightarrow> u32 \<Rightarrow> u32 \<Rightarrow> u32 \<Rightarrow> u16 \<Rightarrow> 'p game \<Rightarrow> bool" where
  "block_is ops wa x y z i g \<longleftrightarrow> provider_ok ops \<and> unat y < 256 \<and> (\<exists>w. gm_worlds g wa = Some w \<and> world_ok w \<and>
     get_chunk (hi28 x) (hi28 z) w \<noteq> None \<and> world_get_id x y z w = Some i)"

lemma block_cong: "block_is ops wa x y z i g \<Longrightarrow> gm_worlds g' = gm_worlds g \<Longrightarrow> block_is ops wa x y z i g'"
  by (simp add: block_is_def)

lemma block_upd_conn: "block_is ops wa x y z i g \<Longrightarrow> upd_conn a f g = Some g' \<Longrightarrow> block_is ops wa x y z i g'"
  by (erule block_cong) (auto simp: upd_conn_def)

lemma block_upd_player: "block_is ops wa x y z i g \<Longrightarrow> upd_player p f g = Some g' \<Longrightarrow> block_is ops wa x y z i g'"
  by (erule block_cong) (auto simp: upd_player_def)

lemma block_send: "block_is ops wa x y z i g \<Longrightarrow> send_to p m d g = Some g' \<Longrightarrow> block_is ops wa x y z i g'"
  by (auto simp: send_to_def bind_eq_Some_conv intro: block_upd_conn)

lemma block_world:
  assumes b: "block_is ops wa x y z i g" and w: "gm_worlds g wb = Some w" "provider_ok ops \<longrightarrow> blocks_kept w w'"
  shows "block_is ops wa x y z i (g\<lparr>gm_worlds := (gm_worlds g)(wb \<mapsto> w')\<rparr>)"
  using assms by (auto simp: block_is_def blocks_kept_def)

interpretation block: game_invariant ops "block_is ops wa x y z i" "\<lambda>w w'. provider_ok ops \<longrightarrow> blocks_kept w w'"
  for ops :: "'p provider_ops" and wa x y z i
proof unfold_locales
  show "keeps (block_is ops wa x y z i) (send_chunk p cx cz c :: 'p game \<Rightarrow> _)" for p cx cz c
    by (rule keepsI) (auto simp: send_chunk_def bind_eq_Some_conv intro: block_upd_player block_send)
  show "keeps (block_is ops wa x y z i) (unload_chunk p cp :: 'p game \<Rightarrow> _)" for p cp
    by (rule keepsI) (auto simp: unload_chunk_def bind_eq_Some_conv intro: block_upd_player block_send)
qed (auto intro: keepsI block_upd_conn block_world blocks_kept_entities load_keeps blocks_kept_players
  simp: add_player_def remove_player_def elim: block_cong)

lemma block_success:
  assumes g: "block_is ops wa x y z i g" "uuid_get_success a name u g = Some g'" shows "block_is ops wa x y z i g'"
proof -
  obtain c where c: "gm_conns g a = Some c" using g(2) by (cases "gm_conns g a") (simp_all add: uuid_get_success_def)
  have "block_is ops wa x y z i (turned_away a g c)" "block_is ops wa x y z i (before_login a u name g c)"
    by (rule block_cong [OF g(1)], simp add: turned_away_def before_login_def)+
  then show ?thesis using g(2) uuid_success_eq [OF c] keepsD [OF block.player_ops_keep(9)]
    by (auto split: if_splits)
qed

lemma block_login:
  assumes "block_is ops wa x y z i g" "handler_login env a g = Some g'" shows "block_is ops wa x y z i g'"
  using assms(2) block_success [OF assms(1)]
  by (auto simp: handler_login_def from_username_def bind_eq_Some_conv split: option.splits if_splits intro: block_cong [OF assms(1)])

lemma block_destroy:
  assumes g: "block_is ops wa x y z i g" "connection_destroy a g = Some g'" shows "block_is ops wa x y z i g'"
proof -
  from g(2) obtain g1 c g2 where 1: "upd_conn a request_disconnect g = Some g1" and "gm_conns g1 a = Some c"
    and 2: "(case hs_pl c of None \<Rightarrow> Some g1 | Some p \<Rightarrow> player_destroy p g1) = Some g2" "g' = g2\<lparr>gm_conns := (gm_conns g2)(a := None)\<rparr>"
    by (auto simp: connection_destroy_def bind_eq_Some_conv)
  have b1: "block_is ops wa x y z i g1" by (rule block_upd_conn [OF g(1) 1])
  have "block_is ops wa x y z i g2"
  proof (cases "hs_pl c")
    case (Some p)
    with block.destroy_leaves [OF b1] 2(1) obtain g3 where
      "block_is ops wa x y z i g3" "g2 = g3\<lparr>gm_players := (gm_players g3)(p := None)\<rparr>" by auto
    then show ?thesis by (simp add: block_is_def)
  qed (use 2(1) b1 in simp)
  then show ?thesis by (simp add: 2(2) block_is_def)
qed

interpretation block: event_invariant env "block_is (se_ops env) wa x y z i"
    "\<lambda>w w'. provider_ok (se_ops env) \<longrightarrow> blocks_kept w w'" "\<lambda>_. True"
  for env :: "'p server_env" and wa x y z i
proof unfold_locales
  fix g g' :: "'p game" and a c ssec
  assume g: "block_is (se_ops env) wa x y z i g" "accept_secret env a ssec g = Some g'"
  then obtain g1 where g1: "upd_conn a (\<lambda>c. c\<lparr>cv_aes := Some ssec\<rparr>) g = Some g1"
    "handler_login env a g1 = Some g' \<or> gm_worlds g' = gm_worlds g1"
    by (auto simp: accept_secret_def bind_eq_Some_conv split: if_splits)
  then show "block_is (se_ops env) wa x y z i g'"
    using block_upd_conn [OF g(1) g1(1)] block_cong block_login by blast
next
  fix g g' :: "'p game" and a name ssec succ
  assume g: "block_is (se_ops env) wa x y z i g" "auth_cb env a succ (g\<lparr>gm_auths := remove1 (a, name, ssec) (gm_auths g)\<rparr>) = Some g'"
  have 1: "block_is (se_ops env) wa x y z i (g\<lparr>gm_auths := remove1 (a, name, ssec) (gm_auths g)\<rparr>)"
    by (rule block_cong [OF g(1)]) simp
  show "block_is (se_ops env) wa x y z i g'"
    using g(2) block_login [OF 1] block_upd_conn [OF 1] by (cases succ) (auto simp: auth_cb_def)
next
  fix g g' :: "'p game" and a name resp
  assume g: "block_is (se_ops env) wa x y z i g" "uuid_worker env a name resp (g\<lparr>gm_uuid_jobs := remove1 (a, name) (gm_uuid_jobs g)\<rparr>) = Some g'"
  let ?g = "g\<lparr>gm_uuid_jobs := remove1 (a, name) (gm_uuid_jobs g)\<rparr>"
  have fail: "block_is (se_ops env) wa x y z i g'" if "uuid_get_fail a ?g = Some g'"
  proof -
    from that have "gm_worlds g' = gm_worlds ?g"
      by (auto simp: uuid_get_fail_def handler_disconnect_def deregister_player_def split: option.splits)
    with block_cong [OF g(1)] show ?thesis by simp
  qed
  have "block_is (se_ops env) wa x y z i (?g\<lparr>gm_uuid_cache := m\<rparr>)" for m by (rule block_cong [OF g(1)]) simp
  with uuid_worker_cases [OF g(2)] fail block_success show "block_is (se_ops env) wa x y z i g'" by blast
next
  fix g g' :: "'p game" and a
  assume "block_is (se_ops env) wa x y z i g" "connection_destroy a g = Some g'"
  then show "block_is (se_ops env) wa x y z i g'" by (rule block_destroy)
next
  fix g g' :: "'p game" and a
  assume "block_is (se_ops env) wa x y z i g" "handler_login env a g = Some g'"
  then show "block_is (se_ops env) wa x y z i g'" by (rule block_login)
next
  fix g :: "'p game" assume "block_is (se_ops env) wa x y z i g"
  then show "block_is (se_ops env) wa x y z i (on_accept g)" by (rule block_cong) (simp add: on_accept_def)
qed (auto elim: block_cong)

subsection \<open>Digging and placing\<close>

text \<open>Items that are blocks with their metadata; a player with such items only.\<close>

definition item_ok :: "slot_item \<Rightarrow> bool" where
  "item_ok it \<longleftrightarrow> unat (si_id it) < 4096 \<and> unat (ucast (si_damage it) :: byte) < 16"

definition items_ok :: "player \<Rightarrow> bool" where
  "items_ok pl \<longleftrightarrow> (\<forall>it. Some it \<in> set (w_slots (pl_inv pl)) \<longrightarrow> item_ok it)"

text \<open>A block that a player can reach, in the player's world.\<close>

definition reaches :: "player \<Rightarrow> nat \<Rightarrow> u32 \<Rightarrow> u32 \<Rightarrow> u32 \<Rightarrow> bool" where
  "reaches pl wa x y z \<longleftrightarrow> pl_w pl = Some wa \<and> near_block (pl_pos pl) (block_pos_make x y z)"

lemma block_write:
  assumes b: "block_is ops wa x y z i g" and w: "gm_worlds g wa = Some w" "\<not> out_of_bounds w (hi28 x) (hi28 z)"
    and s: "change_block wb f g = Some (Some g')"
    and f: "\<And>w w'. world_ok w \<Longrightarrow> f w = Some (Some w') \<Longrightarrow> world_ok w' \<and> only_block bx yb bz w w'"
    and ne: "wb = wa \<Longrightarrow> (bx, yb, bz) \<noteq> (x, y, z)"
  shows "block_is ops wa x y z i g'"
proof -
  from s obtain v v' where v: "gm_worlds g wb = Some v" "f v = Some (Some v')" "g' = g\<lparr>gm_worlds := (gm_worlds g)(wb \<mapsto> v')\<rparr>"
    by (auto simp: change_block_def split: option.splits)
  show ?thesis
  proof (cases "wb = wa")
    case True
    with w(1) v(1) have eq: "v = w" by simp
    have ok: "world_ok w" "provider_ok ops" "unat y < 256" "get_chunk (hi28 x) (hi28 z) w \<noteq> None" "world_get_id x y z w = Some i"
      using b w(1) by (auto simp: block_is_def)
    from f [OF ok(1)] v(2) eq have v': "world_ok v'" "only_block bx yb bz w v'" by blast+
    with ok(3,4) w(2) have "get_chunk (hi28 x) (hi28 z) v' \<noteq> None \<and>
       (world_get_id x y z v' = world_get_id x y z w \<or> x = bx \<and> y = yb \<and> z = bz)"
      unfolding only_block_def by blast
    with ne True ok v'(1) show ?thesis by (auto simp: block_is_def v(3))
  qed (use b in \<open>simp add: block_is_def v(3)\<close>)
qed

lemma coordinate_in_height: "\<not> (sint (y :: u32) < 0 \<or> sint y > 255) \<Longrightarrow> unat y < 256"
  using uint_sint [of y] sint_lt [of y] by (simp add: take_bit_eq_mod unat_eq_nat_uint) linarith

lemma world_set_result:
  assumes "world_ok w" "provider_ok ops" "unat y < 256" "unat i < 4096"
  shows "world_set_id ops x y z i w = Some (Some w') \<Longrightarrow> world_ok w' \<and> only_block x y z w w'"
    and "unat m < 16 \<Longrightarrow> world_set_id_and_meta ops x y z i m w = Some (Some w') \<Longrightarrow> world_ok w' \<and> only_block x y z w w'"
proof -
  assume "world_set_id ops x y z i w = Some (Some w')"
  then show "world_ok w' \<and> only_block x y z w w'"
    using world_set_returns(1) [OF assms(1,2,4), of x y z] world_set_others(1) [OF assms] by simp
next
  assume "unat m < 16" "world_set_id_and_meta ops x y z i m w = Some (Some w')"
  then show "world_ok w' \<and> only_block x y z w w'"
    using world_set_returns(2) [OF assms(1,2,4), of m x y z] world_set_others(2) [OF assms] by simp
qed

lemma dig_changes:
  assumes b: "block_is ops wa x y z i g" and w: "gm_worlds g wa = Some w" "\<not> out_of_bounds w (hi28 x) (hi28 z)"
    and p: "gm_players g p = Some pl" "\<not> reaches pl wa x y z"
    and d: "on_dig ops p bx yb bz state face g = Some (Some g')"
  shows "block_is ops wa x y z i g'"
proof -
  obtain conn where c: "conn_of p g = Some conn" using d by (cases "conn_of p g") (simp_all add: on_dig_def)
  have prov: "provider_ok ops" using b by (simp add: block_is_def)
  consider "g' = g" | m where "kick p m g = Some g'"
    | wb where "\<not> (sint yb < 0 \<or> sint yb > 255)" "block_in_range (pl_pos pl) (block_pos_make bx yb bz)" "pl_w pl = Some wb"
        "change_block wb (world_set_id ops bx yb bz 0) g = Some (Some g')"
    using d by (auto simp: on_dig_def c p(1) split: if_splits option.splits)
  then show ?thesis
  proof cases
    case 2
    then show ?thesis using keepsD [OF block.player_ops_keep(1)] b by blast
  next
    case 3
    have ne: "wb = wa \<Longrightarrow> (bx, yb, bz) \<noteq> (x, y, z)" using p(2) 3(2,3) near_if_in_range by (auto simp: reaches_def)
    show ?thesis
      by (rule block_write [OF b w 3(4) world_set_result(1) [OF _ prov coordinate_in_height [OF 3(1)]] ne]) simp_all
  qed (use b in simp)
qed

lemma place_changes:
  assumes b: "block_is ops wa x y z i g" and w: "gm_worlds g wa = Some w" "\<not> out_of_bounds w (hi28 x) (hi28 z)"
    and p: "gm_players g p = Some pl" "\<not> reaches pl wa x y z" "items_ok pl"
    and d: "on_place ops p bx yb bz face g = Some (Some g')"
  shows "block_is ops wa x y z i g'"
proof -
  have prov: "provider_ok ops" using b by (simp add: block_is_def)
  consider "g' = g" | "disconnect_player p g = Some g'"
    | nx ny nz it wb where "\<not> (sint ny < 0 \<or> sint ny > 255)" "block_in_range (pl_pos pl) (block_pos_make nx ny nz)" "pl_w pl = Some wb"
        "window_get (36 + pl_cur_slot pl) (pl_inv pl) = Some (Some it)"
        "change_block wb (world_set_id_and_meta ops nx ny nz (si_id it) (ucast (si_damage it))) g = Some (Some g')"
    using d by (auto simp: on_place_def p(1) split: if_splits option.splits)
  then show ?thesis
  proof cases
    case 2
    then show ?thesis using keepsD [OF block.player_ops_keep(3)] b by blast
  next
    case 3
    have ne: "wb = wa \<Longrightarrow> (nx, ny, nz) \<noteq> (x, y, z)" using p(2) 3(2,3) near_if_in_range by (auto simp: reaches_def)
    have "Some it \<in> set (w_slots (pl_inv pl))" using 3(4) by (auto simp: window_get_def in_set_conv_nth split: if_splits)
    then have it: "unat (si_id it) < 4096" "unat (ucast (si_damage it) :: byte) < 16" using p(3) by (auto simp: items_ok_def item_ok_def)
    show ?thesis
      by (rule block_write [OF b w 3(5) world_set_result(2) [OF _ prov coordinate_in_height [OF 3(1)] it] ne])
  qed (use b in simp)
qed

lemma block_packets:
  "handle_p07 ops p r g = Some (Some g') \<Longrightarrow> \<exists>bx yb bz st face. on_dig ops p bx yb bz st face g = Some (Some g')"
  "handle_p08 ops p r g = Some (Some g') \<Longrightarrow> \<exists>bx yb bz face. on_place ops p bx yb bz face g = Some (Some g')"
  unfolding handle_p07_def handle_p08_def by (auto split: option.splits prod.splits) blast+

lemma packet_changes:
  assumes b: "block_is (se_ops env) wa x y z i g" and w: "gm_worlds g wa = Some w" "\<not> out_of_bounds w (hi28 x) (hi28 z)"
    and s: "conn_handle env rnd a r g = Some (Some g')"
    and far: "\<And>c p pl. gm_conns g a = Some c \<Longrightarrow> hs_pl c = Some p \<Longrightarrow> gm_players g p = Some pl \<Longrightarrow>
      \<not> reaches pl wa x y z \<and> items_ok pl"
  shows "block_is (se_ops env) wa x y z i g'"
proof (rule block.packet_keeps [OF b s])
  fix g0 c p r' assume g0: "block_is (se_ops env) wa x y z i g0" "gm_players g0 = gm_players g" "gm_worlds g0 = gm_worlds g"
    "gm_conns g a = Some c" "hs_pl c = Some p"
    and "handle_p07 (se_ops env) p r' g0 = Some (Some g') \<or> handle_p08 (se_ops env) p r' g0 = Some (Some g')"
  then obtain bx yb bz st face where d: "on_dig (se_ops env) p bx yb bz st face g0 = Some (Some g') \<or>
      on_place (se_ops env) p bx yb bz face g0 = Some (Some g')"
    using block_packets by metis
  have w0: "gm_worlds g0 wa = Some w" using g0(3) w(1) by simp
  show "block_is (se_ops env) wa x y z i g'"
  proof (cases "gm_players g p")
    case None
    have "disconnect_player p g0 = None" using None g0(2) by (simp add: disconnect_player_def)
    then have "g' = g0" using d None g0(2) by (auto simp: on_dig_def on_place_def split: option.splits if_splits)
    then show ?thesis using g0(1) by simp
  next
    case (Some pl)
    then have pl: "gm_players g0 p = Some pl" "\<not> reaches pl wa x y z" "items_ok pl" using far [OF g0(4,5)] g0(2) by simp_all
    from d show ?thesis using dig_changes [OF g0(1) w0 w(2) pl(1,2)] place_changes [OF g0(1) w0 w(2) pl] by blast
  qed
qed


text \<open>A world with a block at the origin, a player who stands on it, and the packet that digs it.\<close>

definition dig_packet :: "byte list" where "dig_packet = [11, 7, 0, 0, 0, 0, 0, 0, 0, 0, 0, 1]"

lemma dig_reads:
  "pr_read_varint (packet_reader_init dig_packet) = Some (11, at_byte dig_packet 1)"
  "pr_read_varint (at_byte dig_packet 1) = Some (7, at_byte dig_packet 2)"
  "pr_read_byte (at_byte dig_packet 2) = Some (0, at_byte dig_packet 3)"
  "read_pos (at_byte dig_packet 3) = Some (block_pos_make 0 0 0, at_byte dig_packet 11)"
  "pr_read_byte (at_byte dig_packet 11) = Some (1, at_byte dig_packet 12)"
  by code_simp+

definition digger :: player where
  "digger = (player_init 0 (replicate 16 0) [] 0)\<lparr>pl_w := Some 0, pl_spawned := True\<rparr>"

definition dig_game :: "unit world \<Rightarrow> unit game" where
  "dig_game w = (server_boot (sample_cfg False) w)\<lparr>gm_players := [0 \<mapsto> digger],
     gm_conns := [0 \<mapsto> connection_new\<lparr>cv_inferred := True, hs_state := PS_PLAY, hs_pl := Some 0\<rparr>]\<rparr>"

lemma digger_reach: "block_in_range (pl_pos digger) (block_pos_make 0 0 0)"
  by (simp add: block_in_range_def digger_def player_init_def entity_pos_zero_def dbl_val_def dbl_sub_def dbl_mul_def
    dbl_add_def dbl_round_def Let_def block_pos_make_def)

lemma digger_items: "items_ok digger"
  by (simp add: items_ok_def digger_def player_init_def inventory_init_def push_add_range_def window_init_def)

lemma dig_step:
  assumes "world_set_id plain_ops 0 0 0 0 w = Some (Some w')"
  shows "game_step sample_env (Packet 0 [] dig_packet) (dig_game w) =
    Some (Some ((dig_game w)\<lparr>gm_worlds := (gm_worlds (dig_game w))(0 \<mapsto> w')\<rparr>))"
  using digger_reach assms
  by (simp del: One_nat_def add: conn_handle_def dig_game_def server_boot_def dig_reads mc18_handle_def dispatch_def play_table_def
    handle_p07_def on_dig_def conn_of_def connection_new_def change_block_def sample_env_def block_pos_make_def digger_def player_init_def)

lemma block_at_origin:
  obtains w w' where "world_ok w" "get_chunk (hi28 0) (hi28 0) w \<noteq> None" "\<not> out_of_bounds w (hi28 0) (hi28 0)"
    "world_get_id 0 0 0 w = Some 6" "world_set_id plain_ops 0 0 0 0 w = Some (Some w')" "world_get_id 0 0 0 w' = Some 0"
proof -
  have l: "lo4 0 = 0" "hi28 0 = 0" by code_simp+
  have i: "in_chunk 0 0 0" by (simp add: in_chunk_def)
  have wf: "chunk_wf (chunk_init 0 0)" by (rule chunk_init_wf)
  obtain c where c: "chunk_wf c" "chunk_frame (chunk_init 0 0) c" "id_at c 0 0 0 = 6"
    using set_id_write [of 6 0 0 0] wf i unfolding id_write_def by auto
  define w where "w = lone_world\<lparr>w_heap := (w_heap lone_world)(1 \<mapsto> c)\<rparr>"
  have ok: "world_ok w" unfolding w_def by (rule world_ok_upd [OF lone_world_ok lone_world_get(3) c(1,2)])
  have g: "get_chunk (hi28 0) (hi28 0) w = Some 1" "\<not> out_of_bounds w (hi28 0) (hi28 0)" "w_heap w 1 = Some c"
    by (simp_all add: w_def lone_world_get l)
  have id: "world_get_id 0 0 0 w = Some 6" using world_get_id_at [OF ok g(1,3), of 0] c(3) by (simp add: l)
  have "block_from_id 0 \<noteq> None" "\<not> bi_opaque (the (block_from_id 0))" by code_simp+
  then obtain b where b: "block_from_id 0 = Some b" "\<not> bi_opaque b" by auto
  have n: "get_chunk (hi28 0) (hi28 0) w \<noteq> None" using g(1) by simp
  from set_id_transparent [OF ok n _ _ b, where y = 0 and ops = plain_ops] obtain w' where
    w': "world_set_id plain_ops 0 0 0 0 w = Some (Some w')" by auto
  have "world_get_id 0 0 0 w' = Some 0" using world_set_get_cells [OF ok n _ _ w'] by simp
  from that [OF ok n g(2) id w' this] show thesis .
qed


end
