(* ===== verification/Spec2Isabelle.thy ===== *)
theory Spec2Isabelle
  imports Byte_Buffer Generators Blocks Inventory Builder Connection Thread_Pool World_Reach Anvil Block_Safety
begin

text \<open>
  A model of the hCraft 2 Minecraft server (\<open>src/\<close> and \<open>include/\<close>).

  \<open>Hc_Prelude\<close> holds the machine types and memory cells; \<open>Byte_Cursor\<close> the interface of the
  growable byte stores; \<open>Binary\<close> the codecs of \<open>src/util/binary.cpp\<close>; \<open>Byte_Buffer\<close> and
  \<open>Packet\<close> the two byte stores; \<open>Json\<close> the reader and writer of \<open>src/util/json.cpp\<close>.
\<close>

end
